(* ===== verification/Prelude.thy ===== *)
theory Prelude
  imports Main "HOL-Library.Word"
begin

text \<open>
  Shared vocabulary of the development: machine integers and byte buffers, Rust's
  \<^verbatim>\<open>Result\<close>, the \<^verbatim>\<open>?\<close> operator and \<^verbatim>\<open>Poll\<close>, the crate's error type together
  with \<^verbatim>\<open>io::Error\<close>, and the generic lemmas on lists, maps and words that the
  component theories use through the simplifier.
\<close>

named_theorems df_defs \<open>definitions of the small accessors and constructors\<close>

section \<open>Machine integers, buffers and addresses\<close>

type_synonym byte = "8 word"
type_synonym bytes = "byte list"
type_synonym u16 = "16 word"
type_synonym u64 = "64 word"
type_synonym usize = "64 word"
type_synonym uuid = "128 word"

text \<open>An \<^verbatim>\<open>std::time::Duration\<close> is a number of nanoseconds.\<close>

type_synonym duration = nat

definition from_secs :: "nat \<Rightarrow> duration" where
  "from_secs n = n * 1000000000"

text \<open>\<^verbatim>\<open>std::net::IpAddr\<close> and \<^verbatim>\<open>std::net::SocketAddr\<close>.\<close>

datatype ip_addr = V4 "32 word" | V6 "128 word"

record socket_addr =
  sa_ip :: ip_addr
  sa_port :: u16

section \<open>Errors\<close>

text \<open>
  \<^verbatim>\<open>http::Error\<close>, \<^verbatim>\<open>hyper::Error\<close> and tokio's \<^verbatim>\<open>JoinError\<close> are opaque values of
  other crates; only their identity matters here.
\<close>

datatype http_error = HttpError string
datatype hyper_error = HyperError string
datatype join_error = JoinError string

type_synonym status_code = u16

text \<open>
  \<^verbatim>\<open>io::Error\<close> either comes from the operating system or a transport
  (\<open>IoOs\<close>), is made by \<^verbatim>\<open>io::Error::new(InvalidInput, msg)\<close>, or wraps another error
  with \<^verbatim>\<open>io::Error::other\<close>; a \<^verbatim>\<open>JoinError\<close> converts into an \<^verbatim>\<open>io::Error\<close>. The
  crate's own \<^verbatim>\<open>Error\<close> (\<^verbatim>\<open>src/lib.rs\<close>) wraps \<^verbatim>\<open>io::Error\<close> in turn.
\<close>

datatype df_error =
    Tls io_error
  | Hyper hyper_error
  | Http http_error
  | HttpStatusCode status_code
  | Connection io_error
  | Dns io_error
  | MisconfiguredAlpn
  | EmptyDnsResponse
and io_error =
    IoOs nat
  | IoInvalidInput string
  | IoOther df_error
  | IoOtherHyper hyper_error
  | IoJoin join_error

section \<open>Result, the question-mark operator, Poll\<close>

type_synonym ('e, 'a) result = "'e + 'a"

abbreviation Ok :: "'a \<Rightarrow> ('e, 'a) result" where
  "Ok \<equiv> Inr"

abbreviation Err :: "'e \<Rightarrow> ('e, 'a) result" where
  "Err \<equiv> Inl"

definition bind_result :: "('e, 'a) result \<Rightarrow> ('a \<Rightarrow> ('e, 'b) result) \<Rightarrow> ('e, 'b) result" where
  "bind_result r f = (case r of Inl e \<Rightarrow> Err e | Inr x \<Rightarrow> f x)"

definition map_err :: "('e \<Rightarrow> 'f) \<Rightarrow> ('e, 'a) result \<Rightarrow> ('f, 'a) result" where
  "map_err g r = (case r of Inl e \<Rightarrow> Err (g e) | Inr x \<Rightarrow> Ok x)"

definition ok_or :: "'e \<Rightarrow> 'a option \<Rightarrow> ('e, 'a) result" where
  "ok_or e x = (case x of None \<Rightarrow> Err e | Some y \<Rightarrow> Ok y)"

definition is_ok :: "('e, 'a) result \<Rightarrow> bool" where
  "is_ok r = (case r of Inl _ \<Rightarrow> False | Inr _ \<Rightarrow> True)"

datatype 'a poll = Pending | Ready 'a

lemma bind_result_simps [simp]:
  "bind_result (Err e) f = Err e"
  "bind_result (Ok x) f = f x"
  by (simp_all add: bind_result_def)

lemma bind_result_Ok_iff:
  "bind_result r f = Ok y \<longleftrightarrow> (\<exists>x. r = Ok x \<and> f x = Ok y)"
  by (cases r) simp_all

lemma bind_result_Err_iff:
  "bind_result r f = Err e \<longleftrightarrow> r = Err e \<or> (\<exists>x. r = Ok x \<and> f x = Err e)"
  by (cases r) simp_all

lemma map_err_simps [simp]:
  "map_err g (Err e) = Err (g e)"
  "map_err g (Ok x) = Ok x"
  by (simp_all add: map_err_def)

lemma map_err_Ok_iff [simp]: "map_err g r = Ok x \<longleftrightarrow> r = Ok x"
  by (cases r) simp_all

lemma ok_or_simps [simp]:
  "ok_or e None = Err e"
  "ok_or e (Some x) = Ok x"
  by (simp_all add: ok_or_def)

lemma is_ok_simps [simp]:
  "is_ok (Err e) = False"
  "is_ok (Ok x) = True"
  by (simp_all add: is_ok_def)

lemmas result_iffs = bind_result_Ok_iff bind_result_Err_iff

section \<open>Counters\<close>

text \<open>
  \<^verbatim>\<open>AtomicU64::fetch_add\<close> wraps around. The number of bytes of a buffer enters a
  counter through the cast \<^verbatim>\<open>n as u64\<close>.
\<close>

definition fetch_add :: "u64 \<Rightarrow> nat \<Rightarrow> u64" where
  "fetch_add c n = c + word_of_nat n"

lemma fetch_add_0 [simp]: "fetch_add c 0 = c"
  by (simp add: fetch_add_def)

lemma fetch_add_add: "fetch_add (fetch_add c m) n = fetch_add c (m + n)"
  by (simp add: fetch_add_def add.assoc)

lemma unat_fetch_add: "unat (fetch_add c n) = (unat c + n) mod 2 ^ 64"
  by (simp add: fetch_add_def unat_word_ariths unat_of_nat mod_add_right_eq)

lemma fetch_add_exact: "unat c + n < 2 ^ 64 \<Longrightarrow> unat (fetch_add c n) = unat c + n"
  by (simp add: unat_fetch_add)

end
