(* ===== verification/Http_Model.thy ===== *)
theory Http_Model
  imports Prelude
begin

text \<open>
  The part of the crates \<^verbatim>\<open>http\<close>, \<^verbatim>\<open>http-body\<close>, \<^verbatim>\<open>hyper\<close> and \<^verbatim>\<open>uuid\<close> that the
  program sees. Methods, status codes, requests, responses and body frames are plain
  data. Every algorithm of those crates that the program calls (looking a header up,
  parsing and printing a UUID, validating a request) is a field of the record
  \<open>http_lib\<close>, a parameter of the definitions that use it; what the program relies on
  is stated by the named predicate \<open>session_header_law\<close>.
\<close>

section \<open>Methods and status codes\<close>

datatype http_method = GET | POST | PATCH | OtherMethod string

abbreviation STATUS_OK :: status_code where "STATUS_OK \<equiv> 200"
abbreviation NO_CONTENT :: status_code where "NO_CONTENT \<equiv> 204"
abbreviation BAD_REQUEST :: status_code where "BAD_REQUEST \<equiv> 400"
abbreviation TOO_MANY_REQUESTS :: status_code where "TOO_MANY_REQUESTS \<equiv> 429"

text \<open>\<^verbatim>\<open>StatusCode::is_success\<close>: the code is in the range 200 to 299.\<close>

definition is_success :: "status_code \<Rightarrow> bool" where
  "is_success s \<longleftrightarrow> 200 \<le> unat s \<and> unat s < 300"

lemma is_success_examples [simp]:
  "is_success STATUS_OK" "is_success NO_CONTENT"
  "\<not> is_success BAD_REQUEST" "\<not> is_success TOO_MANY_REQUESTS"
  by (simp_all add: is_success_def)

section \<open>Messages\<close>

type_synonym header_value = string
type_synonym header_map = "(string \<times> header_value) list"

record 'b http_request =
  req_method :: http_method
  req_uri :: string
  req_headers :: header_map
  req_body :: 'b

record 'b http_response =
  rsp_status :: status_code
  rsp_headers :: header_map
  rsp_body :: 'b

text \<open>A frame of a streamed body; \<^verbatim>\<open>frame.into_data()\<close> is \<open>into_data\<close>.\<close>

datatype frame = DataFrame bytes | Trailers header_map

fun into_data :: "frame \<Rightarrow> bytes option" where
  "into_data (DataFrame d) = Some d"
| "into_data (Trailers h) = None"

text \<open>
  \<^verbatim>\<open>BodyExt::into_data_stream\<close> yields the data frames of a body, in order, skips the
  others and passes errors on.
\<close>

fun into_data_stream :: "('e, frame) result list \<Rightarrow> ('e, bytes) result list" where
  "into_data_stream [] = []"
| "into_data_stream (Inl e # fs) = Err e # into_data_stream fs"
| "into_data_stream (Inr (DataFrame d) # fs) = Ok d # into_data_stream fs"
| "into_data_stream (Inr (Trailers h) # fs) = into_data_stream fs"

lemma into_data_stream_data [simp]:
  "into_data_stream (map (\<lambda>d. Ok (DataFrame d)) ds) = map Ok ds"
  by (induction ds) simp_all

section \<open>Library parameters\<close>

text \<open>
  \<open>build_request\<close> is \<^verbatim>\<open>Request::builder()\<close> with a method, a URI, headers in the order
  of the \<^verbatim>\<open>.header()\<close> calls and a body: it validates URI, header names and header values.
\<close>

record request_parts =
  rp_method :: http_method
  rp_uri :: string
  rp_headers :: "(string \<times> string) list"
  rp_body :: bytes

record http_lib =
  hdr_get :: "header_map \<Rightarrow> string \<Rightarrow> header_value option"
  hdr_to_str :: "header_value \<Rightarrow> string option"
  uuid_from_str :: "string \<Rightarrow> uuid option"
  uuid_to_string :: "uuid \<Rightarrow> string"
  build_request :: "request_parts \<Rightarrow> (http_error, bytes http_request) result"

text \<open>Header names are compared without regard to the case of ASCII letters.\<close>

definition ascii_lower :: "char \<Rightarrow> char" where
  "ascii_lower c =
     (let n = of_char c :: nat in if 65 \<le> n \<and> n \<le> 90 then char_of (n + 32) else c)"

definition same_header :: "string \<Rightarrow> string \<Rightarrow> bool" where
  "same_header a b \<longleftrightarrow> map ascii_lower a = map ascii_lower b"

text \<open>
  What the session protocol relies on, for one header name \<open>key\<close>: building a request
  keeps its method and its body; the value of the last \<^verbatim>\<open>.header()\<close> call is found again
  under its name \<open>key\<close> and is readable as a string, if no header given before has that
  name; a printed UUID parses back.
\<close>

definition session_header_law :: "http_lib \<Rightarrow> string \<Rightarrow> bool" where
  "session_header_law lib key \<longleftrightarrow>
     (\<forall>u. uuid_from_str lib (uuid_to_string lib u) = Some u) \<and>
     (\<forall>p r hs u. build_request lib p = Ok r \<longrightarrow> rp_headers p = hs @ [(key, uuid_to_string lib u)] \<longrightarrow>
        list_all (\<lambda>h. \<not> same_header (fst h) key) hs \<longrightarrow>
        req_method r = rp_method p \<and> req_body r = rp_body p \<and>
        Option.bind (hdr_get lib (req_headers r) key) (hdr_to_str lib)
          = Some (uuid_to_string lib u))"

end
