(* ===== verification/Domain_Fronting.thy ===== *)
theory Domain_Fronting
  imports Http_Model
begin

text \<open>
  \<^verbatim>\<open>src/lib.rs\<close> and \<^verbatim>\<open>src/dns.rs\<close>: the client configuration \<^verbatim>\<open>DomainFronting\<close>, its
  accessors, the DNS resolver and \<^verbatim>\<open>DomainFronting::proxy_config\<close>. \<^verbatim>\<open>http::Uri\<close> is seen
  through the three accessors the program calls; the operating system's name lookup is
  the parameter \<open>getaddrinfo\<close>.
\<close>

section \<open>URIs\<close>

datatype scheme = HTTP | HTTPS | OtherScheme string

record uri =
  uri_scheme :: "scheme option"
  uri_host :: "string option"
  uri_port_u16 :: "u16 option"

section \<open>DomainFronting\<close>

record domain_fronting =
  front :: uri
  proxy_host :: string
  session_key :: string

definition DEFAULT_SESSION_KEY :: string where
  "DEFAULT_SESSION_KEY = ''X-Session''"

definition DomainFronting_new :: "uri \<Rightarrow> string \<Rightarrow> domain_fronting" where
  "DomainFronting_new f h =
     \<lparr>front = f, proxy_host = h, session_key = DEFAULT_SESSION_KEY\<rparr>"

definition with_session_key :: "domain_fronting \<Rightarrow> string \<Rightarrow> domain_fronting" where
  "with_session_key df k = df\<lparr>session_key := k\<rparr>"

definition unwrap_or_default :: "string option \<Rightarrow> string" where
  "unwrap_or_default x = (case x of None \<Rightarrow> '''' | Some s \<Rightarrow> s)"

definition front_host :: "domain_fronting \<Rightarrow> string" where
  "front_host df = unwrap_or_default (uri_host (front df))"

definition tls :: "domain_fronting \<Rightarrow> bool" where
  "tls df \<longleftrightarrow> uri_scheme (front df) \<noteq> Some HTTP"

definition df_scheme :: "domain_fronting \<Rightarrow> string" where
  "df_scheme df = (if tls df then ''https'' else ''http'')"

section \<open>DNS\<close>

text \<open>
  The trait \<^verbatim>\<open>DnsResolver\<close> is a function from a host name to addresses;
  \<open>DefaultDnsResolver_resolve\<close> looks the pair of the host and port 0 up and keeps
  the IP addresses, in order.
\<close>

type_synonym dns_resolver = "string \<Rightarrow> (io_error, ip_addr list) result"
type_synonym getaddrinfo = "string \<times> u16 \<Rightarrow> (io_error, socket_addr list) result"

definition DefaultDnsResolver_resolve :: "getaddrinfo \<Rightarrow> dns_resolver" where
  "DefaultDnsResolver_resolve gai host =
     (case gai (host, 0) of Inl e \<Rightarrow> Err e | Inr addrs \<Rightarrow> Ok (map sa_ip addrs))"

section \<open>ProxyConfig\<close>

record proxy_config =
  addr :: socket_addr
  pc_domain_fronting :: domain_fronting

definition ProxyConfig_new :: "socket_addr \<Rightarrow> domain_fronting \<Rightarrow> proxy_config" where
  "ProxyConfig_new a df = \<lparr>addr = a, pc_domain_fronting = df\<rparr>"

definition first :: "'a list \<Rightarrow> 'a option" where
  "first xs = (case xs of [] \<Rightarrow> None | x # _ \<Rightarrow> Some x)"

text \<open>
  \<^verbatim>\<open>uri.port_u16().or(self.tls().then_some(443)).unwrap_or(80)\<close>.
\<close>

definition proxy_port :: "domain_fronting \<Rightarrow> u16" where
  "proxy_port df =
     (case (case uri_port_u16 (front df) of
              Some p \<Rightarrow> Some p
            | None \<Rightarrow> (if tls df then Some 443 else None)) of
        Some p \<Rightarrow> p
      | None \<Rightarrow> 80)"

definition proxy_config :: "getaddrinfo \<Rightarrow> domain_fronting \<Rightarrow> (df_error, proxy_config) result" where
  "proxy_config gai df =
     (let port = proxy_port df in
      bind_result
        (map_err Dns (DefaultDnsResolver_resolve gai (unwrap_or_default (uri_host (front df)))))
        (\<lambda>addrs. bind_result (ok_or EmptyDnsResponse (first addrs))
          (\<lambda>a. Ok (ProxyConfig_new \<lparr>sa_ip = a, sa_port = port\<rparr> df))))"

lemmas domain_fronting_defs = DomainFronting_new_def with_session_key_def front_host_def
  tls_def df_scheme_def unwrap_or_default_def proxy_port_def first_def ProxyConfig_new_def
  DefaultDnsResolver_resolve_def proxy_config_def

section \<open>Properties\<close>

lemma first_map [simp]: "first (map f xs) = map_option f (first xs)"
  by (cases xs) (simp_all add: first_def)

lemma first_eq_None [simp]: "first xs = None \<longleftrightarrow> xs = []"
  by (cases xs) (simp_all add: first_def)

lemma proxy_port_cases:
  "proxy_port df = (case uri_port_u16 (front df) of Some p \<Rightarrow> p
     | None \<Rightarrow> if df_scheme df = ''https'' then 443 else 80)"
  by (simp add: proxy_port_def df_scheme_def split: option.splits)

lemma proxy_config_cases:
  "proxy_config gai df =
     (case gai (front_host df, 0) of
        Inl e \<Rightarrow> Err (Dns e)
      | Inr [] \<Rightarrow> Err EmptyDnsResponse
      | Inr (a # _) \<Rightarrow> Ok \<lparr>addr = \<lparr>sa_ip = sa_ip a, sa_port = proxy_port df\<rparr>,
                             pc_domain_fronting = df\<rparr>)"
  by (auto simp: proxy_config_def DefaultDnsResolver_resolve_def front_host_def first_def
      ProxyConfig_new_def Let_def split: sum.splits list.splits)

end
