(* ===== verification/Server_State.thy ===== *)
theory Server_State
  imports Domain_Fronting
begin

text \<open>
  The data of \<^verbatim>\<open>src/server.rs\<close>: \<^verbatim>\<open>Config\<close>, the traffic counters, the trait
  \<^verbatim>\<open>UpstreamConnector\<close>, the \<^verbatim>\<open>Session\<close> actor with its mailbox, the response streams, and
  the record \<open>world\<close> in which they live. What \<^verbatim>\<open>Arc\<close>, \<^verbatim>\<open>Mutex\<close> and actor references
  share in the program is shared here by tables of the world, indexed by numbers; the
  tables of sleeping tasks, read locks and reply slots hold the state of the runtime's
  objects the program creates (timeout tasks, the mutex around the upstream read half,
  the one-shot reply of an \<^verbatim>\<open>ask\<close>).
\<close>

section \<open>Config and Stats\<close>

record config =
  upstream :: socket_addr
  cfg_session_key :: string
  total_timeout :: duration
  idle_timeout :: duration

definition Config_new :: "socket_addr \<Rightarrow> duration \<Rightarrow> duration \<Rightarrow> config" where
  "Config_new up ttl idle =
     \<lparr>upstream = up, cfg_session_key = DEFAULT_SESSION_KEY,
      total_timeout = ttl, idle_timeout = idle\<rparr>"

definition Config_with_session_key :: "config \<Rightarrow> string \<Rightarrow> config" where
  "Config_with_session_key c k = c\<lparr>cfg_session_key := k\<rparr>"

record stats =
  bytes_tx :: u64
  bytes_rx :: u64

definition stats_default :: stats where
  "stats_default = \<lparr>bytes_tx = 0, bytes_rx = 0\<rparr>"

definition stats_freeze :: "stats \<Rightarrow> stats" where
  "stats_freeze s = \<lparr>bytes_tx = bytes_tx s, bytes_rx = bytes_rx s\<rparr>"

text \<open>
  \<^verbatim>\<open>AtomicStats::take\<close> swaps each counter with 0, first \<open>bytes_tx\<close>, then \<open>bytes_rx\<close>.
\<close>

definition swap_bytes_tx :: "stats \<Rightarrow> u64 \<times> stats" where
  "swap_bytes_tx s = (bytes_tx s, s\<lparr>bytes_tx := 0\<rparr>)"

definition swap_bytes_rx :: "stats \<Rightarrow> u64 \<times> stats" where
  "swap_bytes_rx s = (bytes_rx s, s\<lparr>bytes_rx := 0\<rparr>)"

definition stats_take :: "stats \<Rightarrow> stats \<times> stats" where
  "stats_take s =
     (let (tx, s1) = swap_bytes_tx s; (rx, s2) = swap_bytes_rx s1
      in (\<lparr>bytes_tx = tx, bytes_rx = rx\<rparr>, s2))"

definition add_tx :: "nat \<Rightarrow> stats \<Rightarrow> stats" where
  "add_tx n s = s\<lparr>bytes_tx := fetch_add (bytes_tx s) n\<rparr>"

definition add_rx :: "nat \<Rightarrow> stats \<Rightarrow> stats" where
  "add_rx n s = s\<lparr>bytes_rx := fetch_add (bytes_rx s) n\<rparr>"

section \<open>The trait UpstreamConnector\<close>

text \<open>
  An implementation of the trait is a record of functions on the state \<open>'u\<close> of one
  upstream connection (both halves). \<open>c_connect n\<close> is the outcome of the connection
  attempt of the \<open>n\<close>-th spawned session. \<open>c_write_all\<close> is \<^verbatim>\<open>write_all\<close> on the write half
  run to its end, \<open>c_read_buf\<close> one poll of \<^verbatim>\<open>read_buf\<close> on the read half with the
  capacity of the buffer; a read that finds no data is \<open>Pending\<close>, an end of stream is
  \<open>Ready (Ok [])\<close>. The state may hold the future behaviour of the peer, so a
  deterministic record covers every behaviour of the network. A connection attempt that has
  not come to an end, or a write that the peer does not take, needs no outcome of its own:
  the actor waits, which is that the scheduler of \<open>exec\<close> does not run the step
  (\<open>EvConnect\<close>, \<open>EvHandle\<close>) that stands for its end, for as long as it likes or for ever, while
  timers, requests and streams go on; \<open>Server_Unblocking\<close> is about what waits behind it.
\<close>

record 'u connector =
  c_connect :: "nat \<Rightarrow> socket_addr \<Rightarrow> (io_error, 'u) result"
  c_write_all :: "'u \<Rightarrow> bytes \<Rightarrow> (io_error, unit) result \<times> 'u"
  c_read_buf :: "'u \<Rightarrow> nat \<Rightarrow> (io_error, bytes) result poll \<times> 'u"

section \<open>Session actors\<close>

text \<open>
  \<^verbatim>\<open>SessionArgs\<close> and \<^verbatim>\<open>Session\<close>. The fields \<^verbatim>\<open>server\<close> and \<^verbatim>\<open>stats\<close> point to the world
  itself; \<open>upstream_write\<close> and \<open>upstream_read\<close> are the index of the connection in
  \<open>upstreams\<close> and \<open>read_locks\<close>; tasks and streams are referred to by their number, as
  by the \<^verbatim>\<open>AbortHandle\<close> of the source.
\<close>

record session_args =
  a_session_id :: uuid
  a_upstream :: socket_addr
  a_idle_timeout :: duration
  a_total_timeout :: duration

record session =
  session_id :: uuid
  upstream_write :: nat
  upstream_read :: nat
  upstream_read_abort :: "nat option"
  s_idle_timeout :: duration
  idle_timeout_task :: "nat option"
  total_timeout_task :: "nat option"

datatype message = SessionRead | SessionWrite bytes | SessionResetIdleTimeout

text \<open>A mailbox entry: the message and, for an \<^verbatim>\<open>ask\<close>, the slot its reply goes to.\<close>

type_synonym mail = "message \<times> nat option"

datatype reply = ReadReply "nat option" | WriteReply

text \<open>
  The life of an actor: spawned, in \<^verbatim>\<open>on_start\<close> (waiting for the upstream connection,
  with its two timeout tasks already running), running, closing (its mailbox is closed,
  the \<^verbatim>\<open>Session\<close> value is not yet dropped) and dead.
\<close>

datatype phase =
    Spawned session_args
  | Connecting session_args nat nat
  | Running session
  | Closing session
  | Dead

record actor =
  a_phase :: phase
  mailbox :: "mail list"

text \<open>
  \<^verbatim>\<open>StreamState\<close> of a \<^verbatim>\<open>SessionRead\<close> response: the connection whose read half it has
  locked, the session it reports to, and \<^verbatim>\<open>first\<close>. \<open>st_reading\<close> and \<open>st_tell\<close> are the
  two points at which its \<^verbatim>\<open>async\<close> block can be suspended: in the blocking first read,
  and in the \<^verbatim>\<open>tell\<close> that follows a read.
\<close>

record stream_state =
  st_reader :: nat
  st_session :: nat
  st_first :: bool
  st_reading :: bool
  st_tell :: "bytes option"
  st_aborted :: bool

section \<open>The world\<close>

record 'u world =
  w_config :: config
  w_stats :: stats
  sessions :: "uuid \<Rightarrow> nat option"
  server_alive :: bool
  actors :: "nat \<Rightarrow> actor option"
  upstreams :: "nat \<Rightarrow> 'u option"
  read_locks :: "nat \<Rightarrow> nat option"
  streams :: "nat \<Rightarrow> stream_state option"
  tasks :: "nat \<Rightarrow> (nat \<times> nat) option"
  replies :: "nat \<Rightarrow> reply option"
  clock :: nat
  next_actor :: nat
  next_task :: nat
  next_stream :: nat
  mailbox_cap :: nat

text \<open>
  \<^verbatim>\<open>Server::with_connector\<close>: no sessions, counters at 0. The capacity of an actor's
  mailbox is fixed by the actor library and is a parameter.
\<close>

definition with_connector :: "nat \<Rightarrow> config \<Rightarrow> 'u world" where
  "with_connector cap cfg =
     \<lparr>w_config = cfg, w_stats = stats_default, sessions = Map.empty, server_alive = True,
      actors = Map.empty, upstreams = Map.empty, read_locks = Map.empty, streams = Map.empty,
      tasks = Map.empty, replies = Map.empty, clock = 0, next_actor = 0, next_task = 0,
      next_stream = 0, mailbox_cap = cap\<rparr>"

subsection \<open>Looking at actors\<close>

definition phase_of :: "'u world \<Rightarrow> nat \<Rightarrow> phase" where
  "phase_of w a = (case actors w a of None \<Rightarrow> Dead | Some x \<Rightarrow> a_phase x)"

definition mail_of :: "'u world \<Rightarrow> nat \<Rightarrow> mail list" where
  "mail_of w a = (case actors w a of None \<Rightarrow> [] | Some x \<Rightarrow> mailbox x)"

definition set_actor :: "nat \<Rightarrow> phase \<Rightarrow> mail list \<Rightarrow> 'u world \<Rightarrow> 'u world" where
  "set_actor a p q w = w\<lparr>actors := (actors w)(a \<mapsto> \<lparr>a_phase = p, mailbox = q\<rparr>)\<rparr>"

fun phase_alive :: "phase \<Rightarrow> bool" where
  "phase_alive (Spawned _) = True"
| "phase_alive (Connecting _ _ _) = True"
| "phase_alive (Running _) = True"
| "phase_alive (Closing _) = False"
| "phase_alive Dead = False"

text \<open>\<^verbatim>\<open>ActorRef::is_alive\<close>: the mailbox is not closed.\<close>

definition is_alive :: "'u world \<Rightarrow> nat \<Rightarrow> bool" where
  "is_alive w a = phase_alive (phase_of w a)"

definition mailbox_full :: "'u world \<Rightarrow> nat \<Rightarrow> bool" where
  "mailbox_full w a \<longleftrightarrow> mailbox_cap w \<le> length (mail_of w a)"

definition enqueue :: "nat \<Rightarrow> mail \<Rightarrow> 'u world \<Rightarrow> 'u world" where
  "enqueue a m w = set_actor a (phase_of w a) (mail_of w a @ [m]) w"

subsection \<open>Timeout tasks\<close>

text \<open>
  \<^verbatim>\<open>actor_timeout\<close>: a task that sleeps for \<open>after\<close> and then kills the actor. A sleeping
  task is an entry of \<open>tasks\<close> with its deadline and its actor; \<^verbatim>\<open>AbortHandle::abort\<close>
  removes it.
\<close>

definition actor_timeout :: "nat \<Rightarrow> duration \<Rightarrow> 'u world \<Rightarrow> nat \<times> 'u world" where
  "actor_timeout a after w =
     (next_task w,
      w\<lparr>tasks := (tasks w)(next_task w \<mapsto> (clock w + after, a)),
        next_task := Suc (next_task w)\<rparr>)"

definition abort_task :: "nat option \<Rightarrow> 'u world \<Rightarrow> 'u world" where
  "abort_task t w = (case t of None \<Rightarrow> w | Some n \<Rightarrow> w\<lparr>tasks := (tasks w)(n := None)\<rparr>)"

definition abort_stream :: "nat option \<Rightarrow> 'u world \<Rightarrow> 'u world" where
  "abort_stream h w =
     (case h of None \<Rightarrow> w
      | Some n \<Rightarrow> w\<lparr>streams := (streams w)(n := map_option (\<lambda>s. s\<lparr>st_aborted := True\<rparr>) (streams w n))\<rparr>)"

section \<open>Lemmas on the world's accessors\<close>

lemma phase_of_set_actor [simp]:
  "phase_of (set_actor a p q w) b = (if b = a then p else phase_of w b)"
  by (simp add: phase_of_def set_actor_def)

lemma mail_of_set_actor [simp]:
  "mail_of (set_actor a p q w) b = (if b = a then q else mail_of w b)"
  by (simp add: mail_of_def set_actor_def)

lemma set_actor_frame [simp]:
  "w_config (set_actor a p q w) = w_config w" "w_stats (set_actor a p q w) = w_stats w"
  "sessions (set_actor a p q w) = sessions w" "server_alive (set_actor a p q w) = server_alive w"
  "upstreams (set_actor a p q w) = upstreams w" "read_locks (set_actor a p q w) = read_locks w"
  "streams (set_actor a p q w) = streams w" "tasks (set_actor a p q w) = tasks w"
  "replies (set_actor a p q w) = replies w" "clock (set_actor a p q w) = clock w"
  "next_actor (set_actor a p q w) = next_actor w" "next_task (set_actor a p q w) = next_task w"
  "next_stream (set_actor a p q w) = next_stream w" "mailbox_cap (set_actor a p q w) = mailbox_cap w"
  "dom (actors (set_actor a p q w)) = insert a (dom (actors w))"
  by (simp_all add: set_actor_def)

lemma set_actor_twice [simp]: "set_actor a p q (set_actor a p' q' w) = set_actor a p q w"
  by (simp add: set_actor_def)

lemma set_actor_outward:
  "(set_actor a p q w)\<lparr>tasks := ts\<rparr> = set_actor a p q (w\<lparr>tasks := ts\<rparr>)"
  "(set_actor a p q w)\<lparr>next_task := n\<rparr> = set_actor a p q (w\<lparr>next_task := n\<rparr>)"
  "(set_actor a p q w)\<lparr>upstreams := us\<rparr> = set_actor a p q (w\<lparr>upstreams := us\<rparr>)"
  "(set_actor a p q w)\<lparr>read_locks := ls\<rparr> = set_actor a p q (w\<lparr>read_locks := ls\<rparr>)"
  "(set_actor a p q w)\<lparr>replies := rs\<rparr> = set_actor a p q (w\<lparr>replies := rs\<rparr>)"
  by (simp_all add: set_actor_def)

lemma phase_of_cong [simp]:
  "phase_of (w\<lparr>w_stats := s\<rparr>) = phase_of w" "phase_of (w\<lparr>sessions := m\<rparr>) = phase_of w"
  "phase_of (w\<lparr>upstreams := u\<rparr>) = phase_of w" "phase_of (w\<lparr>read_locks := l\<rparr>) = phase_of w"
  "phase_of (w\<lparr>streams := ss\<rparr>) = phase_of w" "phase_of (w\<lparr>tasks := ts\<rparr>) = phase_of w"
  "phase_of (w\<lparr>replies := rs\<rparr>) = phase_of w" "phase_of (w\<lparr>clock := c\<rparr>) = phase_of w"
  "phase_of (w\<lparr>next_task := n\<rparr>) = phase_of w" "phase_of (w\<lparr>next_stream := n\<rparr>) = phase_of w"
  "phase_of (w\<lparr>next_actor := n\<rparr>) = phase_of w" "phase_of (w\<lparr>server_alive := b\<rparr>) = phase_of w"
  by (simp_all add: phase_of_def fun_eq_iff)

lemma mail_of_cong [simp]:
  "mail_of (w\<lparr>w_stats := s\<rparr>) = mail_of w" "mail_of (w\<lparr>sessions := m\<rparr>) = mail_of w"
  "mail_of (w\<lparr>upstreams := u\<rparr>) = mail_of w" "mail_of (w\<lparr>read_locks := l\<rparr>) = mail_of w"
  "mail_of (w\<lparr>streams := ss\<rparr>) = mail_of w" "mail_of (w\<lparr>tasks := ts\<rparr>) = mail_of w"
  "mail_of (w\<lparr>replies := rs\<rparr>) = mail_of w" "mail_of (w\<lparr>clock := c\<rparr>) = mail_of w"
  "mail_of (w\<lparr>next_task := n\<rparr>) = mail_of w" "mail_of (w\<lparr>next_stream := n\<rparr>) = mail_of w"
  "mail_of (w\<lparr>next_actor := n\<rparr>) = mail_of w" "mail_of (w\<lparr>server_alive := b\<rparr>) = mail_of w"
  by (simp_all add: mail_of_def fun_eq_iff)

lemma is_alive_phase: "is_alive w a \<Longrightarrow> phase_of w a \<noteq> Dead"
  by (auto simp: is_alive_def)

lemma is_alive_Running: "phase_of w a = Running s \<Longrightarrow> is_alive w a"
  by (simp add: is_alive_def)

lemma enqueue_simps [simp]:
  "phase_of (enqueue a m w) b = phase_of w b"
  "mail_of (enqueue a m w) b = (if b = a then mail_of w a @ [m] else mail_of w b)"
  "w_config (enqueue a m w) = w_config w" "w_stats (enqueue a m w) = w_stats w"
  "sessions (enqueue a m w) = sessions w" "server_alive (enqueue a m w) = server_alive w"
  "upstreams (enqueue a m w) = upstreams w" "read_locks (enqueue a m w) = read_locks w"
  "streams (enqueue a m w) = streams w" "tasks (enqueue a m w) = tasks w"
  "replies (enqueue a m w) = replies w" "clock (enqueue a m w) = clock w"
  "next_actor (enqueue a m w) = next_actor w" "next_task (enqueue a m w) = next_task w"
  "next_stream (enqueue a m w) = next_stream w" "mailbox_cap (enqueue a m w) = mailbox_cap w"
  by (simp_all add: enqueue_def)

lemma stats_take_eq: "stats_take s = (stats_freeze s, stats_default)"
  by (cases s) (simp add: stats_take_def swap_bytes_tx_def swap_bytes_rx_def stats_freeze_def
      stats_default_def)

end
