(* ===== verification/Server_Session.thy ===== *)
theory Server_Session
  imports Server_State
begin

text \<open>
  The \<^verbatim>\<open>Session\<close> actor of \<^verbatim>\<open>src/server.rs\<close>: \<^verbatim>\<open>on_start\<close>, the three message handlers, the
  idle timer, the response stream of a \<^verbatim>\<open>SessionRead\<close> and \<^verbatim>\<open>Drop\<close>. An \<^verbatim>\<open>async\<close> function
  is cut at its awaits: each definition below is the code between two of them and maps a
  world to a world. \<open>run_actor\<close> lets one actor work until it has nothing left to do.
\<close>

section \<open>Timers\<close>

definition reset_idle_timeout :: "nat \<Rightarrow> session \<Rightarrow> 'u world \<Rightarrow> session \<times> 'u world" where
  "reset_idle_timeout a s w =
     (let w1 = abort_task (idle_timeout_task s) w;
          (t, w2) = actor_timeout a (s_idle_timeout s) w1
      in (s\<lparr>idle_timeout_task := Some t\<rparr>, w2))"

section \<open>Starting\<close>

text \<open>
  \<^verbatim>\<open>on_start\<close> up to the connection attempt: both timeout tasks are spawned first, the
  total one before the idle one.
\<close>

definition on_start_begin :: "nat \<Rightarrow> 'u world \<Rightarrow> 'u world" where
  "on_start_begin a w =
     (case phase_of w a of
        Spawned args \<Rightarrow>
          (let (tt, w1) = actor_timeout a (a_total_timeout args) w;
               (it, w2) = actor_timeout a (a_idle_timeout args) w1
           in set_actor a (Connecting args tt it) (mail_of w a) w2)
      | _ \<Rightarrow> w)"

text \<open>
  \<^verbatim>\<open>on_start\<close> from the outcome of the connection attempt. On an error no \<^verbatim>\<open>Session\<close>
  value exists, so nothing is dropped; the two tasks stay.
\<close>

definition on_start_connect :: "'u connector \<Rightarrow> nat \<Rightarrow> 'u world \<Rightarrow> 'u world" where
  "on_start_connect conn a w =
     (case phase_of w a of
        Connecting args tt it \<Rightarrow>
          (case c_connect conn a (a_upstream args) of
             Inl e \<Rightarrow> set_actor a Dead [] w
           | Inr u \<Rightarrow>
               (let s = \<lparr>session_id = a_session_id args, upstream_write = a, upstream_read = a,
                         upstream_read_abort = None, s_idle_timeout = a_idle_timeout args,
                         idle_timeout_task = Some it, total_timeout_task = Some tt\<rparr>;
                    (s', w1) = reset_idle_timeout a s
                      (w\<lparr>upstreams := (upstreams w)(a \<mapsto> u), read_locks := (read_locks w)(a := None)\<rparr>)
                in set_actor a (Running s') (mail_of w a) w1))
      | _ \<Rightarrow> w)"

section \<open>Stopping\<close>

text \<open>
  \<^verbatim>\<open>ctx.stop()\<close> and \<^verbatim>\<open>ActorRef::kill\<close> close the mailbox and discard what is in it. A
  running actor keeps its \<^verbatim>\<open>Session\<close> value until \<open>session_drop\<close>; an actor that has not
  started has none.
\<close>

definition close_actor :: "nat \<Rightarrow> 'u world \<Rightarrow> 'u world" where
  "close_actor a w =
     (case phase_of w a of
        Spawned _ \<Rightarrow> set_actor a Dead [] w
      | Connecting _ _ _ \<Rightarrow> set_actor a Dead [] w
      | Running s \<Rightarrow> set_actor a (Closing s) [] w
      | Closing _ \<Rightarrow> w
      | Dead \<Rightarrow> w)"

text \<open>
  The body of \<^verbatim>\<open>actor_timeout\<close> after its sleep: the task ends and kills the actor. The actor
  library documents \<^verbatim>\<open>kill\<close> as immediate: an actor that is killed in \<^verbatim>\<open>on_start\<close> is dropped there.
\<close>

definition timer_fire :: "nat \<Rightarrow> 'u world \<Rightarrow> 'u world" where
  "timer_fire t w =
     (case tasks w t of
        None \<Rightarrow> w
      | Some (deadline, a) \<Rightarrow> close_actor a (w\<lparr>tasks := (tasks w)(t := None)\<rparr>))"

text \<open>\<^verbatim>\<open>Drop for Session\<close>.\<close>

definition remove_session :: "uuid \<Rightarrow> 'u world \<Rightarrow> 'u world" where
  "remove_session u w =
     (if server_alive w then w\<lparr>sessions := (sessions w)(u := None)\<rparr> else w)"

definition session_drop :: "nat \<Rightarrow> 'u world \<Rightarrow> 'u world" where
  "session_drop a w =
     (case phase_of w a of
        Closing s \<Rightarrow>
          (let w1 = abort_task (total_timeout_task s) w;
               w2 = abort_task (idle_timeout_task s) w1;
               w3 = abort_stream (upstream_read_abort s) w2;
               w4 = remove_session (session_id s) w3
           in set_actor a Dead [] w4)
      | _ \<Rightarrow> w)"

section \<open>Message handlers\<close>

text \<open>
  \<^verbatim>\<open>SessionRead\<close>: lock the read half or answer \<^verbatim>\<open>None\<close>; otherwise make the stream and
  remember how to abort it.
\<close>

definition handle_SessionRead :: "nat \<Rightarrow> session \<Rightarrow> 'u world \<Rightarrow> nat option \<times> session \<times> 'u world" where
  "handle_SessionRead a s w =
     (case read_locks w (upstream_read s) of
        Some _ \<Rightarrow> (None, s, w)
      | None \<Rightarrow>
          (let n = next_stream w;
               st = \<lparr>st_reader = upstream_read s, st_session = a, st_first = True,
                     st_reading = False, st_tell = None, st_aborted = False\<rparr>
           in (Some n, s\<lparr>upstream_read_abort := Some n\<rparr>,
               w\<lparr>read_locks := (read_locks w)(upstream_read s \<mapsto> n),
                 streams := (streams w)(n \<mapsto> st), next_stream := Suc n\<rparr>)))"

text \<open>
  \<^verbatim>\<open>SessionWrite\<close>: the reply is \<^verbatim>\<open>()\<close> in both branches; the result says whether the
  actor stops. \<^verbatim>\<open>try_send\<close> drops the message when the mailbox is full.
\<close>

definition try_send :: "nat \<Rightarrow> message \<Rightarrow> 'u world \<Rightarrow> 'u world" where
  "try_send a m w =
     (if is_alive w a \<and> \<not> mailbox_full w a then enqueue a (m, None) w else w)"

definition handle_SessionWrite ::
  "'u connector \<Rightarrow> nat \<Rightarrow> session \<Rightarrow> bytes \<Rightarrow> 'u world \<Rightarrow> bool \<times> 'u world" where
  "handle_SessionWrite conn a s bs w =
     (let (r, u') = c_write_all conn (the (upstreams w (upstream_write s))) bs;
          w1 = w\<lparr>upstreams := (upstreams w)(upstream_write s \<mapsto> u')\<rparr>
      in case r of
           Inl e \<Rightarrow> (True, w1)
         | Inr _ \<Rightarrow> (False, try_send a SessionResetIdleTimeout w1))"

text \<open>
  \<^verbatim>\<open>write_all\<close> waits for the upstream to take the bytes, and a session that is killed while it
  waits never handles another message: the upstream has then taken a prefix, of \<open>k\<close> bytes.
\<close>

definition is_writing :: "'u world \<Rightarrow> nat \<Rightarrow> bool" where
  "is_writing w a =
     (case (phase_of w a, mail_of w a) of (Running s, (SessionWrite bs, slot) # q) \<Rightarrow> True | _ \<Rightarrow> False)"

definition write_prefix :: "'u connector \<Rightarrow> nat \<Rightarrow> nat \<Rightarrow> 'u world \<Rightarrow> 'u world" where
  "write_prefix conn k a w =
     (case (phase_of w a, mail_of w a) of
        (Running s, (SessionWrite bs, slot) # q) \<Rightarrow>
          w\<lparr>upstreams := (upstreams w)(upstream_write s \<mapsto>
              snd (c_write_all conn (the (upstreams w (upstream_write s))) (take k bs)))\<rparr>
      | _ \<Rightarrow> w)"

definition timer_fire_in_write :: "'u connector \<Rightarrow> nat \<Rightarrow> nat \<Rightarrow> 'u world \<Rightarrow> 'u world" where
  "timer_fire_in_write conn k t w =
     (case tasks w t of None \<Rightarrow> w | Some (deadline, a) \<Rightarrow> timer_fire t (write_prefix conn k a w))"

definition handle_SessionResetIdleTimeout :: "nat \<Rightarrow> session \<Rightarrow> 'u world \<Rightarrow> session \<times> 'u world" where
  "handle_SessionResetIdleTimeout a s w = reset_idle_timeout a s w"

definition send_reply :: "nat option \<Rightarrow> reply \<Rightarrow> 'u world \<Rightarrow> 'u world" where
  "send_reply slot v w =
     (case slot of None \<Rightarrow> w | Some n \<Rightarrow> w\<lparr>replies := (replies w)(n \<mapsto> v)\<rparr>)"

text \<open>
  One turn of the actor: take the oldest message out of the mailbox, run its handler to
  the end, send the reply, stop if the handler asked for it.
\<close>

definition actor_handle :: "'u connector \<Rightarrow> nat \<Rightarrow> 'u world \<Rightarrow> 'u world" where
  "actor_handle conn a w =
     (case (phase_of w a, mail_of w a) of
        (Running s, (m, slot) # q) \<Rightarrow>
          (let w0 = set_actor a (Running s) q w in
           case m of
             SessionRead \<Rightarrow>
               (let (r, s', w1) = handle_SessionRead a s w0
                in send_reply slot (ReadReply r) (set_actor a (Running s') (mail_of w1 a) w1))
           | SessionWrite bs \<Rightarrow>
               (let (stop, w1) = handle_SessionWrite conn a s bs w0
                in send_reply slot WriteReply (if stop then close_actor a w1 else w1))
           | SessionResetIdleTimeout \<Rightarrow>
               (let (s', w1) = handle_SessionResetIdleTimeout a s w0
                in set_actor a (Running s') (mail_of w1 a) w1))
      | _ \<Rightarrow> w)"

section \<open>The response stream\<close>

text \<open>
  The stream ends: the state with the lock guard is dropped.
\<close>

definition stream_end :: "nat \<Rightarrow> 'u world \<Rightarrow> 'u world" where
  "stream_end n w =
     (case streams w n of
        None \<Rightarrow> w
      | Some st \<Rightarrow> w\<lparr>streams := (streams w)(n := None),
                     read_locks := (read_locks w)(st_reader st := None)\<rparr>)"

text \<open>
  After a read: \<^verbatim>\<open>session.tell(SessionResetIdleTimeout).await\<close> waits while the mailbox of
  a live session is full, then the frame is yielded.
\<close>

definition stream_tell :: "nat \<Rightarrow> stream_state \<Rightarrow> bytes \<Rightarrow> 'u world \<Rightarrow> frame option poll \<times> 'u world" where
  "stream_tell n st bs w =
     (if is_alive w (st_session st) \<and> mailbox_full w (st_session st)
      then (Pending, w\<lparr>streams := (streams w)(n \<mapsto> st\<lparr>st_tell := Some bs\<rparr>)\<rparr>)
      else
        (Ready (Some (DataFrame bs)),
         (let w1 = w\<lparr>streams := (streams w)(n \<mapsto> st\<lparr>st_tell := None\<rparr>)\<rparr>
          in if is_alive w (st_session st)
             then enqueue (st_session st) (SessionResetIdleTimeout, None) w1
             else w1)))"

definition READ_CAPACITY :: nat where
  "READ_CAPACITY = 2048"

text \<open>
  One poll of the stream: \<open>Ready None\<close> is its end. The first read waits for data, every
  later one must find data at once (\<^verbatim>\<open>now_or_never\<close>), and an end of file or an error of
  the upstream ends the stream. An aborted stream ends without being looked into.
\<close>

definition stream_poll :: "'u connector \<Rightarrow> nat \<Rightarrow> 'u world \<Rightarrow> frame option poll \<times> 'u world" where
  "stream_poll conn n w =
     (case streams w n of
        None \<Rightarrow> (Ready None, w)
      | Some st \<Rightarrow>
          if st_aborted st then (Ready None, w)
          else (case st_tell st of
            Some bs \<Rightarrow> stream_tell n st bs w
          | None \<Rightarrow>
              (let (r, u') = c_read_buf conn (the (upstreams w (st_reader st))) READ_CAPACITY;
                   waits = st_first st \<or> st_reading st;
                   w1 = w\<lparr>upstreams := (upstreams w)(st_reader st \<mapsto> u')\<rparr>
               in case r of
                    Pending \<Rightarrow>
                      (if waits
                       then (Pending,
                             w1\<lparr>streams := (streams w1)(n \<mapsto> st\<lparr>st_first := False, st_reading := True\<rparr>)\<rparr>)
                       else (Ready None, stream_end n w1))
                  | Ready (Inl e) \<Rightarrow> (Ready None, stream_end n w1)
                  | Ready (Inr bs) \<Rightarrow>
                      (if bs = [] then (Ready None, stream_end n w1)
                       else stream_tell n (st\<lparr>st_first := False, st_reading := False\<rparr>) bs
                              (w1\<lparr>w_stats := add_rx (length bs) (w_stats w1)\<rparr>)))))"

section \<open>Letting an actor run\<close>

fun mail_work :: "mail \<Rightarrow> nat" where
  "mail_work (SessionWrite _, _) = 2"
| "mail_work (SessionRead, _) = 1"
| "mail_work (SessionResetIdleTimeout, _) = 1"

fun phase_work :: "phase \<Rightarrow> nat" where
  "phase_work (Spawned _) = 2"
| "phase_work (Connecting _ _ _) = 1"
| "phase_work (Running _) = 0"
| "phase_work (Closing _) = 0"
| "phase_work Dead = 0"

definition actor_work :: "'u world \<Rightarrow> nat \<Rightarrow> nat" where
  "actor_work w a = phase_work (phase_of w a) + sum_list (map mail_work (mail_of w a))"

section \<open>Lemmas\<close>

lemma actor_timeout_frame [simp]:
  "actor_timeout a d w = (t, w') \<Longrightarrow> phase_of w' = phase_of w \<and> mail_of w' = mail_of w"
  by (auto simp: actor_timeout_def)

lemma abort_task_frame [simp]:
  "phase_of (abort_task t w) = phase_of w" "mail_of (abort_task t w) = mail_of w"
  by (simp_all add: abort_task_def split: option.splits)

lemma abort_stream_frame [simp]:
  "phase_of (abort_stream t w) = phase_of w" "mail_of (abort_stream t w) = mail_of w"
  by (simp_all add: abort_stream_def split: option.splits)

lemma remove_session_frame [simp]:
  "phase_of (remove_session u w) = phase_of w" "mail_of (remove_session u w) = mail_of w"
  by (simp_all add: remove_session_def)

lemma send_reply_frame [simp]:
  "phase_of (send_reply r v w) = phase_of w" "mail_of (send_reply r v w) = mail_of w"
  by (simp_all add: send_reply_def split: option.splits)

lemma reset_idle_timeout_frame:
  assumes "reset_idle_timeout a s w = (s', w')"
  shows "phase_of w' = phase_of w" and "mail_of w' = mail_of w"
  using assms by (auto simp: reset_idle_timeout_def Let_def split: prod.splits dest: actor_timeout_frame)

lemma handle_SessionRead_frame:
  assumes "handle_SessionRead a s w = (r, s', w')"
  shows "phase_of w' = phase_of w" and "mail_of w' = mail_of w"
  using assms by (auto simp: handle_SessionRead_def Let_def split: option.splits)

lemma try_send_phase [simp]: "phase_of (try_send a m w) = phase_of w"
  by (simp add: try_send_def fun_eq_iff)

lemma try_send_mail:
  "mail_of (try_send a m w) b = mail_of w b \<or>
   b = a \<and> mail_of (try_send a m w) b = mail_of w b @ [(m, None)]"
  by (simp add: try_send_def)

lemma write_prefix_fields [simp]:
  "phase_of (write_prefix conn k a w) = phase_of w" "mail_of (write_prefix conn k a w) = mail_of w"
  "tasks (write_prefix conn k a w) = tasks w" "next_actor (write_prefix conn k a w) = next_actor w"
  "next_task (write_prefix conn k a w) = next_task w" "clock (write_prefix conn k a w) = clock w"
  "w_stats (write_prefix conn k a w) = w_stats w" "sessions (write_prefix conn k a w) = sessions w"
  "streams (write_prefix conn k a w) = streams w" "read_locks (write_prefix conn k a w) = read_locks w"
  "replies (write_prefix conn k a w) = replies w" "mailbox_cap (write_prefix conn k a w) = mailbox_cap w"
  "w_config (write_prefix conn k a w) = w_config w" "server_alive (write_prefix conn k a w) = server_alive w"
  "next_stream (write_prefix conn k a w) = next_stream w"
  by (simp_all add: write_prefix_def split: phase.splits list.splits prod.splits message.splits)

lemma is_writingE:
  assumes "is_writing w a"
  obtains s bs slot q where "phase_of w a = Running s" "mail_of w a = (SessionWrite bs, slot) # q"
  using assms by (auto simp: is_writing_def split: phase.splits list.splits message.splits)

lemma handle_SessionWrite_phase:
  "handle_SessionWrite conn a s bs w = (stop, w') \<Longrightarrow> phase_of w' = phase_of w"
  by (auto simp: handle_SessionWrite_def Let_def split: prod.splits sum.splits)

lemma handle_SessionWrite_mail:
  assumes "handle_SessionWrite conn a s bs w = (stop, w')"
  shows "mail_of w' a = mail_of w a \<or> mail_of w' a = mail_of w a @ [(SessionResetIdleTimeout, None)]"
  using assms
  by (auto simp: handle_SessionWrite_def Let_def try_send_def split: prod.splits sum.splits if_splits)

lemma actor_handle_cases:
  assumes "phase_of w a = Running s" and "mail_of w a = (m, slot) # q"
  shows "\<exists>p q'. phase_of (actor_handle conn a w) a = p \<and> mail_of (actor_handle conn a w) a = q' \<and>
           phase_work p = 0 \<and>
           sum_list (map mail_work q') < mail_work (m, slot) + sum_list (map mail_work q)"
proof (cases m)
  case SessionRead
  with assms show ?thesis
    by (auto simp: actor_handle_def Let_def dest: handle_SessionRead_frame split: prod.splits)
next
  case (SessionWrite bs)
  obtain stop w1 where h: "handle_SessionWrite conn a s bs (set_actor a (Running s) q w) = (stop, w1)"
    by fastforce
  from handle_SessionWrite_phase [OF h] handle_SessionWrite_mail [OF h] SessionWrite assms h
  show ?thesis
    by (auto simp: actor_handle_def Let_def close_actor_def)
next
  case SessionResetIdleTimeout
  with assms show ?thesis
    by (auto simp: actor_handle_def Let_def handle_SessionResetIdleTimeout_def
        dest: reset_idle_timeout_frame split: prod.splits)
qed

lemma actor_work_handle:
  assumes "phase_of w a = Running s" and "mail_of w a \<noteq> []"
  shows "actor_work (actor_handle conn a w) a < actor_work w a"
proof -
  obtain m slot q where q: "mail_of w a = (m, slot) # q"
    using assms(2) by (cases "mail_of w a") auto
  from actor_handle_cases [OF assms(1) q, of conn] q assms(1) show ?thesis
    by (auto simp: actor_work_def)
qed

lemma on_start_begin_phase:
  assumes "phase_of w a = Spawned args"
  shows "\<exists>tt it. phase_of (on_start_begin a w) a = Connecting args tt it"
    and "mail_of (on_start_begin a w) a = mail_of w a"
  using assms by (auto simp: on_start_begin_def actor_timeout_def Let_def)

lemma on_start_connect_phase:
  assumes "phase_of w a = Connecting args tt it"
  shows "phase_of (on_start_connect conn a w) a = Dead \<and> mail_of (on_start_connect conn a w) a = [] \<or>
    (\<exists>s. phase_of (on_start_connect conn a w) a = Running s) \<and>
     mail_of (on_start_connect conn a w) a = mail_of w a"
  using assms by (auto simp: on_start_connect_def Let_def split: sum.splits prod.splits)

lemma actor_work_start:
  "phase_of w a = Spawned args \<Longrightarrow> actor_work (on_start_begin a w) a < actor_work w a"
  using on_start_begin_phase [of w a args] by (auto simp: actor_work_def)

lemma actor_work_connect:
  "phase_of w a = Connecting args tt it \<Longrightarrow> actor_work (on_start_connect conn a w) a < actor_work w a"
  using on_start_connect_phase [of w a args tt it conn] by (auto simp: actor_work_def)

text \<open>
  The actor works until it has to wait: it starts, and then answers its messages in the
  order of the mailbox.
\<close>

function run_actor :: "'u connector \<Rightarrow> nat \<Rightarrow> 'u world \<Rightarrow> 'u world" where
  "run_actor conn a w =
     (case phase_of w a of
        Spawned _ \<Rightarrow> run_actor conn a (on_start_begin a w)
      | Connecting _ _ _ \<Rightarrow> run_actor conn a (on_start_connect conn a w)
      | Running _ \<Rightarrow> (if mail_of w a = [] then w else run_actor conn a (actor_handle conn a w))
      | Closing _ \<Rightarrow> w
      | Dead \<Rightarrow> w)"
  by pat_completeness auto
termination
  by (relation "measure (\<lambda>(conn, a, w). actor_work w a)")
     (simp_all add: actor_work_handle actor_work_start actor_work_connect)

declare run_actor.simps [simp del]

text \<open>What one poll of a response stream can do.\<close>

lemma stream_pollE:
  assumes p: "stream_poll conn n w = (r, w')" and st: "streams w n = Some st" "st_reader st = a" "upstreams w a = Some u"
  obtains
    (aborted) "st_aborted st" "r = Ready None" "w' = w"
  | (tells) bs where "\<not> st_aborted st" "st_tell st = Some bs" "stream_tell n st bs w = (r, w')"
  | (waits) u' where "\<not> st_aborted st" "st_tell st = None" "c_read_buf conn u READ_CAPACITY = (Pending, u')" "r = Pending"
      "w' = w\<lparr>upstreams := (upstreams w)(a \<mapsto> u'),
              streams := (streams w)(n \<mapsto> st\<lparr>st_first := False, st_reading := True\<rparr>)\<rparr>"
  | (ends) x u' where "\<not> st_aborted st" "st_tell st = None" "c_read_buf conn u READ_CAPACITY = (x, u')"
      "x = Pending \<or> (\<exists>e. x = Ready (Err e)) \<or> x = Ready (Ok [])" "r = Ready None"
      "w' = stream_end n (w\<lparr>upstreams := (upstreams w)(a \<mapsto> u')\<rparr>)"
  | (data) bs u' where "\<not> st_aborted st" "st_tell st = None" "bs \<noteq> []"
      "c_read_buf conn u READ_CAPACITY = (Ready (Ok bs), u')"
      "stream_tell n (st\<lparr>st_first := False, st_reading := False\<rparr>) bs
         (w\<lparr>upstreams := (upstreams w)(a \<mapsto> u'), w_stats := add_rx (length bs) (w_stats w)\<rparr>) = (r, w')"
proof (cases "st_aborted st \<or> st_tell st \<noteq> None")
  case True
  with p st show thesis
    by (cases "st_aborted st") (auto simp: stream_poll_def intro: aborted tells split: option.splits)
next
  case False
  obtain x u' where rd: "c_read_buf conn u READ_CAPACITY = (x, u')" by fastforce
  note facts = False p st rd
  show thesis
  proof (cases x)
    case Pending
    with facts show thesis
      by (cases "st_first st \<or> st_reading st") (auto simp: stream_poll_def Let_def intro: waits ends)
  next
    case (Ready y)
    show thesis
    proof (cases y)
      case (Inl e)
      with Ready facts show thesis by (intro ends [of x u']) (auto simp: stream_poll_def Let_def)
    next
      case (Inr bs)
      show thesis
      proof (cases "bs = []")
        case True
        with Ready Inr facts show thesis by (intro ends [of x u']) (auto simp: stream_poll_def Let_def)
      next
        case ne: False
        with Ready Inr facts show thesis by (intro data [of bs u']) (auto simp: stream_poll_def Let_def)
      qed
    qed
  qed
qed

end
