(* ===== verification/Server_Requests.thy ===== *)
theory Server_Requests
  imports Server_Session
begin

text \<open>
  Request handling of \<^verbatim>\<open>src/server.rs\<close>. The code up to the first await
  (\<open>request_begin\<close>) and from one await to the next (\<open>request_step\<close>) is given once as
  the steps of a task that other tasks interleave with, and once as the direct
  reading \<open>handle_request\<close>, in which the session actor is the only other task that runs
  while the handler waits.
\<close>

section \<open>Errors and responses\<close>

record http_err =
  he_error :: string
  he_code :: status_code

text \<open>\<^verbatim>\<open>From<anyhow::Error> for HttpError\<close>, as used by \<^verbatim>\<open>bail!\<close> and \<^verbatim>\<open>?\<close>.\<close>

definition HttpError_from :: "string \<Rightarrow> http_err" where
  "HttpError_from msg = \<lparr>he_error = msg, he_code = BAD_REQUEST\<rparr>"

definition HttpError_code :: "status_code \<Rightarrow> string \<Rightarrow> http_err" where
  "HttpError_code c msg = \<lparr>he_error = msg, he_code = c\<rparr>"

abbreviation bail :: "string \<Rightarrow> (http_err, 'a) result" where
  "bail msg \<equiv> Err (HttpError_from msg)"

datatype resp_body = EmptyBody | StreamBody nat

type_synonym response = "resp_body http_response"

definition into_response :: "http_err \<Rightarrow> response" where
  "into_response e = \<lparr>rsp_status = he_code e, rsp_headers = [], rsp_body = EmptyBody\<rparr>"

definition write_response :: response where
  "write_response = \<lparr>rsp_status = NO_CONTENT, rsp_headers = [], rsp_body = EmptyBody\<rparr>"

definition read_response :: "nat \<Rightarrow> response" where
  "read_response n =
     \<lparr>rsp_status = STATUS_OK,
      rsp_headers = [(''content-type'', ''application/octet-stream''),
                     (''cache-control'', ''no-cache, no-store, no-transform'')],
      rsp_body = StreamBody n\<rparr>"

section \<open>From the request head to a session\<close>

datatype meth = Get | Post | Patch

type_synonym server_body = "(hyper_error, frame) result list"

fun parse_method :: "http_method \<Rightarrow> (http_err, meth) result" where
  "parse_method GET = Ok Get"
| "parse_method POST = Ok Post"
| "parse_method PATCH = Ok Patch"
| "parse_method (OtherMethod m) = bail (''Unexpected HTTP method: '' @ m)"

definition request_session_id :: "http_lib \<Rightarrow> string \<Rightarrow> 'b http_request \<Rightarrow> uuid option" where
  "request_session_id lib key req =
     Option.bind (Option.bind (hdr_get lib (req_headers req) key) (hdr_to_str lib))
       (uuid_from_str lib)"

definition parse_head :: "http_lib \<Rightarrow> string \<Rightarrow> 'b http_request \<Rightarrow> (http_err, meth \<times> uuid) result" where
  "parse_head lib key req =
     bind_result (parse_method (req_method req))
       (\<lambda>m. case request_session_id lib key req of
              None \<Rightarrow> bail ''Invalid/missing session ID''
            | Some u \<Rightarrow> Ok (m, u))"

definition new_session :: "uuid \<Rightarrow> 'u world \<Rightarrow> nat \<times> 'u world" where
  "new_session u w =
     (let a = next_actor w;
          args = \<lparr>a_session_id = u, a_upstream = upstream (w_config w),
                  a_idle_timeout = idle_timeout (w_config w),
                  a_total_timeout = total_timeout (w_config w)\<rparr>
      in (a, set_actor a (Spawned args) [] (w\<lparr>next_actor := Suc a\<rparr>)))"

definition insert_session :: "uuid \<Rightarrow> 'u world \<Rightarrow> nat \<times> 'u world" where
  "insert_session u w =
     (let (a, w1) = new_session u w in (a, w1\<lparr>sessions := (sessions w1)(u \<mapsto> a)\<rparr>))"

text \<open>The block under \<^verbatim>\<open>self.sessions.lock()\<close>.\<close>

definition find_session :: "bool \<Rightarrow> uuid \<Rightarrow> 'u world \<Rightarrow> (http_err, nat) result \<times> 'u world" where
  "find_session can_create u w =
     (case sessions w u of
        Some a \<Rightarrow>
          (if is_alive w a then (Ok a, w)
           else if can_create then (let (b, w1) = insert_session u w in (Ok b, w1))
           else (bail ''Expired session'', w))
      | None \<Rightarrow>
          (if can_create then (let (b, w1) = insert_session u w in (Ok b, w1))
           else (bail ''No session'', w)))"

section \<open>Interleaved requests\<close>

text \<open>
  Where a request task can be suspended: before and after it has put its \<^verbatim>\<open>ask\<close> into the
  actor's mailbox, and, when it writes, before it has the next chunk of the body. The list in
  \<open>ReqWrite\<close> is what the client is going to send; a resumption of the task stands for the
  arrival of its next item, and a body that stalls in \<^verbatim>\<open>data.next().await\<close> is a task that is
  not resumed, for any time or for ever.
\<close>

datatype req_state =
    ReqRead nat
  | ReqReadWait nat
  | ReqWrite nat usize "(hyper_error, bytes) result list"
  | ReqWriteWait nat nat usize "(hyper_error, bytes) result list"
  | ReqDone response

definition req_error :: "string \<Rightarrow> req_state" where
  "req_error msg = ReqDone (into_response (HttpError_from msg))"

definition request_begin ::
  "http_lib \<Rightarrow> server_body http_request \<Rightarrow> 'u world \<Rightarrow> req_state \<times> 'u world" where
  "request_begin lib req w =
     (case parse_head lib (cfg_session_key (w_config w)) req of
        Inl e \<Rightarrow> (ReqDone (into_response e), w)
      | Inr (m, u) \<Rightarrow>
          (case find_session (m \<noteq> Patch) u w of
             (Inl e, w1) \<Rightarrow> (ReqDone (into_response e), w1)
           | (Inr a, w1) \<Rightarrow>
               (if m = Get then ReqRead a else ReqWrite a 0 (into_data_stream (req_body req)), w1)))"

definition take_reply :: "nat \<Rightarrow> 'u world \<Rightarrow> 'u world" where
  "take_reply rid w = w\<lparr>replies := (replies w)(rid := None)\<rparr>"

definition finish_write :: "usize \<Rightarrow> req_state" where
  "finish_write n = (if n = 0 then req_error ''Empty body'' else ReqDone write_response)"

definition read_result :: "nat option \<Rightarrow> req_state" where
  "read_result r =
     (case r of
        None \<Rightarrow> ReqDone (into_response
                  (HttpError_code TOO_MANY_REQUESTS ''Multiple read requests are not allowed''))
      | Some n \<Rightarrow> ReqDone (read_response n))"

text \<open>\<open>None\<close>: the task has to wait (for room in the mailbox, or for the reply).\<close>

fun request_step :: "nat \<Rightarrow> req_state \<Rightarrow> 'u world \<Rightarrow> (req_state \<times> 'u world) option" where
  "request_step rid (ReqRead a) w =
     (if \<not> is_alive w a then Some (req_error ''Session actor is dead'', w)
      else if mailbox_full w a then None
      else Some (ReqReadWait a, enqueue a (SessionRead, Some rid) w))"
| "request_step rid (ReqReadWait a) w =
     (case replies w rid of
        Some (ReadReply r) \<Rightarrow> Some (read_result r, take_reply rid w)
      | _ \<Rightarrow> (if is_alive w a then None else Some (req_error ''Session actor is dead'', w)))"
| "request_step rid (ReqWrite a tot []) w = Some (finish_write tot, w)"
| "request_step rid (ReqWrite a tot (Inl e # ds)) w = Some (req_error ''body error'', w)"
| "request_step rid (ReqWrite a tot (Inr d # ds)) w =
     (if \<not> is_alive w a then Some (req_error ''actor not running'', w)
      else if mailbox_full w a then None
      else Some (ReqWriteWait a (length d) (tot + word_of_nat (length d)) ds,
                 enqueue a (SessionWrite d, Some rid) w))"
| "request_step rid (ReqWriteWait a n tot ds) w =
     (case replies w rid of
        Some WriteReply \<Rightarrow>
          (let w1 = take_reply rid w
           in Some (ReqWrite a tot ds, w1\<lparr>w_stats := add_tx n (w_stats w1)\<rparr>))
      | _ \<Rightarrow> (if is_alive w a then None else Some (req_error ''actor stopped'', w)))"
| "request_step rid (ReqDone r) w = None"

section \<open>Undisturbed requests\<close>

text \<open>
  \<^verbatim>\<open>session.ask(m).await\<close> when only the session runs meanwhile: \<open>None\<close> is an error (the
  actor is not running, or stopped before it answered).
\<close>

definition ask :: "'u connector \<Rightarrow> nat \<Rightarrow> nat \<Rightarrow> message \<Rightarrow> 'u world \<Rightarrow> reply option \<times> 'u world" where
  "ask conn rid a m w =
     (if \<not> is_alive w a then (None, w)
      else (let w1 = run_actor conn a (enqueue a (m, Some rid) w)
            in (replies w1 rid, take_reply rid w1)))"

fun write_loop ::
  "'u connector \<Rightarrow> nat \<Rightarrow> nat \<Rightarrow> usize \<Rightarrow> (hyper_error, bytes) result list \<Rightarrow> 'u world
   \<Rightarrow> (http_err, usize) result \<times> 'u world" where
  "write_loop conn rid a tot [] w = (Ok tot, w)"
| "write_loop conn rid a tot (Inl e # ds) w = (bail ''body error'', w)"
| "write_loop conn rid a tot (Inr d # ds) w =
     (case ask conn rid a (SessionWrite d) w of
        (Some WriteReply, w1) \<Rightarrow>
          write_loop conn rid a (tot + word_of_nat (length d)) ds
            (w1\<lparr>w_stats := add_tx (length d) (w_stats w1)\<rparr>)
      | (_, w1) \<Rightarrow> (bail ''actor not running'', w1))"

definition handle_write_request ::
  "'u connector \<Rightarrow> nat \<Rightarrow> server_body \<Rightarrow> nat \<Rightarrow> 'u world \<Rightarrow> (http_err, response) result \<times> 'u world" where
  "handle_write_request conn rid body a w =
     (case write_loop conn rid a 0 (into_data_stream body) w of
        (Inl e, w1) \<Rightarrow> (Err e, w1)
      | (Inr tot, w1) \<Rightarrow> (if tot = 0 then bail ''Empty body'' else Ok write_response, w1))"

definition handle_read_request ::
  "'u connector \<Rightarrow> nat \<Rightarrow> nat \<Rightarrow> 'u world \<Rightarrow> (http_err, response) result \<times> 'u world" where
  "handle_read_request conn rid a w =
     (case ask conn rid a SessionRead w of
        (Some (ReadReply (Some n)), w1) \<Rightarrow> (Ok (read_response n), w1)
      | (Some (ReadReply None), w1) \<Rightarrow>
          (Err (HttpError_code TOO_MANY_REQUESTS ''Multiple read requests are not allowed''), w1)
      | (_, w1) \<Rightarrow> (bail ''Session actor is dead'', w1))"

definition handle_request_inner ::
  "http_lib \<Rightarrow> 'u connector \<Rightarrow> nat \<Rightarrow> server_body http_request \<Rightarrow> 'u world
   \<Rightarrow> (http_err, response) result \<times> 'u world" where
  "handle_request_inner lib conn rid req w =
     (case parse_head lib (cfg_session_key (w_config w)) req of
        Inl e \<Rightarrow> (Err e, w)
      | Inr (m, u) \<Rightarrow>
          (case find_session (m \<noteq> Patch) u w of
             (Inl e, w1) \<Rightarrow> (Err e, w1)
           | (Inr a, w1) \<Rightarrow>
               (if m = Get then handle_read_request conn rid a w1
                else handle_write_request conn rid (req_body req) a w1)))"

definition handle_request ::
  "http_lib \<Rightarrow> 'u connector \<Rightarrow> nat \<Rightarrow> server_body http_request \<Rightarrow> 'u world \<Rightarrow> response \<times> 'u world" where
  "handle_request lib conn rid req w =
     (case handle_request_inner lib conn rid req w of
        (Inl e, w1) \<Rightarrow> (into_response e, w1)
      | (Inr r, w1) \<Rightarrow> (r, w1))"

definition take_stats :: "'u world \<Rightarrow> stats \<times> 'u world" where
  "take_stats w = (let (r, s) = stats_take (w_stats w) in (r, w\<lparr>w_stats := s\<rparr>))"

end
