(* ===== verification/Event_Systems.thy ===== *)
theory Event_Systems
  imports Prelude
begin

text \<open>
  Machines that are driven by events: a partial step function and its runs over event
  lists. The locale \<open>preserved\<close> is the interface between a component that shows that
  each of its events keeps a property and the clients that need the property after a
  run; \<open>observed\<close> does the same for a quantity that every event may change by what it
  contributes, and \<open>amortised\<close> for a potential that pays for the events of a run.
\<close>

fun run :: "('e \<Rightarrow> 's \<Rightarrow> 's option) \<Rightarrow> 'e list \<Rightarrow> 's \<Rightarrow> 's option" where
  "run step [] s = Some s"
| "run step (e # es) s = (case step e s of None \<Rightarrow> None | Some s' \<Rightarrow> run step es s')"

lemma run_append:
  "run step (es @ fs) s = (case run step es s of None \<Rightarrow> None | Some s' \<Rightarrow> run step fs s')"
  by (induction es arbitrary: s) (auto split: option.splits)

lemma run_appendI:
  "run step es s = Some s1 \<Longrightarrow> run step fs s1 = Some s2 \<Longrightarrow> run step (es @ fs) s = Some s2"
  by (simp add: run_append)

lemma run_single: "step e s = Some s' \<Longrightarrow> run step [e] s = Some s'"
  by simp

text \<open>
  The states a run passes, its start and its end included, with the event that each
  one takes.
\<close>

fun passed :: "('e \<Rightarrow> 's \<Rightarrow> 's option) \<Rightarrow> 'e list \<Rightarrow> 's \<Rightarrow> ('s \<times> 'e) list" where
  "passed step [] s = []"
| "passed step (e # es) s =
     (s, e) # (case step e s of None \<Rightarrow> [] | Some s' \<Rightarrow> passed step es s')"

lemma passed_events: "(t, e) \<in> set (passed step es s) \<Longrightarrow> e \<in> set es"
  by (induction es arbitrary: s) (auto split: option.splits)

locale preserved =
  fixes step :: "'e \<Rightarrow> 's \<Rightarrow> 's option"
    and inv :: "'s \<Rightarrow> bool"
  assumes step_inv: "inv s \<Longrightarrow> step e s = Some s' \<Longrightarrow> inv s'"
begin

lemma run_inv: "inv s \<Longrightarrow> run step es s = Some s' \<Longrightarrow> inv s'"
  by (induction es arbitrary: s) (auto split: option.splits dest: step_inv)

end

text \<open>
  An invariant under which each event either keeps a fact about the state or makes a
  terminal condition true, which then stays true.
\<close>

locale until = preserved step inv for step :: "'e \<Rightarrow> 's \<Rightarrow> 's option" and inv :: "'s \<Rightarrow> bool" +
  fixes fact :: "'s \<Rightarrow> bool"
    and stop :: "'s \<Rightarrow> bool"
    and allowed :: "'s \<Rightarrow> 'e \<Rightarrow> bool"
  assumes fact_or_stop: "inv s \<Longrightarrow> allowed s e \<Longrightarrow> step e s = Some s' \<Longrightarrow> fact s \<Longrightarrow> fact s' \<or> stop s'"
    and stop_stays: "inv s \<Longrightarrow> step e s = Some s' \<Longrightarrow> stop s \<Longrightarrow> stop s'"
begin

lemma run_until:
  assumes "inv s" and "fact s \<or> stop s" and "run step es s = Some s'"
    and "\<And>t e. (t, e) \<in> set (passed step es s) \<Longrightarrow> allowed t e"
  shows "fact s' \<or> stop s'"
  using assms
proof (induction es arbitrary: s)
  case Nil
  then show ?case by simp
next
  case (Cons e es)
  then obtain s1 where s1: "step e s = Some s1" "run step es s1 = Some s'"
    by (auto split: option.splits)
  have "fact s1 \<or> stop s1"
    using Cons.prems s1 fact_or_stop [of s e s1] stop_stays [of s e s1] by auto
  moreover have "inv s1" using Cons.prems(1) s1(1) by (rule step_inv)
  moreover have "\<And>t f. (t, f) \<in> set (passed step es s1) \<Longrightarrow> allowed t f"
    using Cons.prems(4) s1 by simp
  ultimately show ?case using Cons.IH s1(2) by blast
qed

end

text \<open>A quantity of the state that changes by the sum of the events' contributions.\<close>

locale observed =
  fixes step :: "'e \<Rightarrow> 's \<Rightarrow> 's option"
    and amount :: "'s \<Rightarrow> 'n :: comm_monoid_add"
    and gain :: "'s \<Rightarrow> 'e \<Rightarrow> 'n"
    and loss :: "'s \<Rightarrow> 'e \<Rightarrow> 'n"
  assumes step_amount: "step e s = Some s' \<Longrightarrow> amount s' + loss s e = amount s + gain s e"
begin

lemma run_amount:
  "run step es s = Some s' \<Longrightarrow>
   amount s' + sum_list (map (\<lambda>(t, e). loss t e) (passed step es s))
     = amount s + sum_list (map (\<lambda>(t, e). gain t e) (passed step es s))"
proof (induction es arbitrary: s)
  case Nil
  then show ?case by simp
next
  case (Cons e es)
  then obtain s1 where s1: "step e s = Some s1" "run step es s1 = Some s'"
    by (auto split: option.splits)
  let ?l = "\<lambda>s. sum_list (map (\<lambda>(t, e). loss t e) (passed step es s))"
  let ?g = "\<lambda>s. sum_list (map (\<lambda>(t, e). gain t e) (passed step es s))"
  have "amount s' + (loss s e + ?l s1) = (amount s' + ?l s1) + loss s e"
    by (simp add: ac_simps)
  also have "\<dots> = (amount s1 + loss s e) + ?g s1"
    using Cons.IH [OF s1(2)] by (simp add: ac_simps)
  also have "\<dots> = amount s + (gain s e + ?g s1)"
    using step_amount [OF s1(1)] by (simp add: ac_simps)
  finally show ?case using s1(1) by simp
qed

end

text \<open>
  A potential that pays for the cost of events and is raised by what an event brings in.
\<close>

locale amortised = preserved step inv for step :: "'e \<Rightarrow> 's \<Rightarrow> 's option" and inv :: "'s \<Rightarrow> bool" +
  fixes potential :: "'s \<Rightarrow> nat"
    and cost :: "'e \<Rightarrow> nat"
    and credit :: "'e \<Rightarrow> nat"
  assumes step_potential: "inv s \<Longrightarrow> step e s = Some s' \<Longrightarrow> potential s' + cost e \<le> potential s + credit e"
begin

lemma run_potential:
  "inv s \<Longrightarrow> run step es s = Some s' \<Longrightarrow>
   potential s' + sum_list (map cost es) \<le> potential s + sum_list (map credit es)"
proof (induction es arbitrary: s)
  case Nil
  then show ?case by simp
next
  case (Cons e es)
  then obtain s1 where s1: "step e s = Some s1" "run step es s1 = Some s'"
    by (auto split: option.splits)
  from Cons.IH [OF step_inv [OF Cons.prems(1) s1(1)] s1(2)] step_potential [OF Cons.prems(1) s1(1)]
  show ?case by simp
qed

end

text \<open>
  Machines that answer what they are asked, and functional refinement between two of them:
  under an invariant, the concrete machine gives the answers of the abstract one.
\<close>

fun replies_to :: "('q \<Rightarrow> 's \<Rightarrow> 'r \<times> 's) \<Rightarrow> 'q list \<Rightarrow> 's \<Rightarrow> 'r list \<times> 's" where
  "replies_to step [] s = ([], s)"
| "replies_to step (q # qs) s =
     (case step q s of (r, s1) \<Rightarrow> (case replies_to step qs s1 of (rs, s2) \<Rightarrow> (r # rs, s2)))"

locale refines =
  fixes step :: "'q \<Rightarrow> 's \<Rightarrow> 'r \<times> 's"
    and spec :: "'q \<Rightarrow> 'a \<Rightarrow> 'r \<times> 'a"
    and abs :: "'s \<Rightarrow> 'a"
    and inv :: "'s \<Rightarrow> bool"
  assumes step_refines: "inv s \<Longrightarrow> step q s = (r, s') \<Longrightarrow> spec q (abs s) = (r, abs s') \<and> inv s'"
begin

lemma sequence_refines:
  "inv s \<Longrightarrow> replies_to step qs s = (rs, s') \<Longrightarrow> replies_to spec qs (abs s) = (rs, abs s') \<and> inv s'"
proof (induction qs arbitrary: s rs s')
  case Nil
  then show ?case by simp
next
  case (Cons q qs)
  obtain r s1 where s1: "step q s = (r, s1)" by fastforce
  obtain rs1 s2 where s2: "replies_to step qs s1 = (rs1, s2)" by fastforce
  from step_refines [OF Cons.prems(1) s1] have 1: "spec q (abs s) = (r, abs s1)" "inv s1" by simp_all
  from Cons.IH [OF 1(2) s2] Cons.prems(2) s1 s2 1(1) show ?case by auto
qed

end

end
