(* ===== verification/Server_System.thy ===== *)
theory Server_System
  imports Server_Requests Event_Systems
begin

text \<open>
  The server as a system of concurrent tasks. An event is one task running up to its
  next await: a request arriving or being resumed or cancelled, a session actor
  starting, being connected, handling one message or being dropped, a timeout task
  waking up, a response stream being polled or dropped, the clock, and the reading of
  the counters. The scheduler is free: any enabled event may come next.
  \<open>server_wf\<close> is the invariant that ties actors, connections, read locks, streams and
  timeout tasks together.
\<close>

section \<open>Events\<close>

record 'u sys =
  s_world :: "'u world"
  s_reqs :: "nat \<Rightarrow> req_state option"
  s_next_req :: nat

datatype event =
    EvRequest "server_body http_request"
  | EvResume nat
  | EvCancel nat
  | EvStart nat
  | EvConnect nat
  | EvHandle nat
  | EvTimer nat
  | EvTimerInWrite nat nat
  | EvDrop nat
  | EvPoll nat
  | EvStreamDrop nat
  | EvTick nat
  | EvTakeTx
  | EvTakeRx
  | EvServerDrop

definition on_world :: "('u world \<Rightarrow> 'u world) \<Rightarrow> 'u sys \<Rightarrow> 'u sys" where
  "on_world f s = s\<lparr>s_world := f (s_world s)\<rparr>"

definition guarded :: "bool \<Rightarrow> 'a \<Rightarrow> 'a option" where
  "guarded b x = (if b then Some x else None)"

text \<open>
  \<open>exec\<close> is \<open>None\<close> when the event is not enabled. A timeout task wakes up once its
  deadline has passed, between two messages of its session or in the middle of a write. \<^verbatim>\<open>EvTakeTx\<close> and \<^verbatim>\<open>EvTakeRx\<close> are the two swaps of
  \<^verbatim>\<open>Server::take_stats\<close>, between which other tasks may count.
\<close>

fun exec :: "http_lib \<Rightarrow> 'u connector \<Rightarrow> event \<Rightarrow> 'u sys \<Rightarrow> 'u sys option" where
  "exec lib conn (EvRequest req) s =
     guarded (server_alive (s_world s))
       (let (rs, w) = request_begin lib req (s_world s)
        in \<lparr>s_world = w, s_reqs = (s_reqs s)(s_next_req s \<mapsto> rs), s_next_req = Suc (s_next_req s)\<rparr>)"
| "exec lib conn (EvResume rid) s =
     (case s_reqs s rid of
        None \<Rightarrow> None
      | Some rs \<Rightarrow>
          (case request_step rid rs (s_world s) of
             None \<Rightarrow> None
           | Some (rs', w) \<Rightarrow> Some (s\<lparr>s_world := w, s_reqs := (s_reqs s)(rid \<mapsto> rs')\<rparr>)))"
| "exec lib conn (EvCancel rid) s =
     guarded (s_reqs s rid \<noteq> None) (s\<lparr>s_reqs := (s_reqs s)(rid := None)\<rparr>)"
| "exec lib conn (EvStart a) s =
     guarded (case phase_of (s_world s) a of Spawned _ \<Rightarrow> True | _ \<Rightarrow> False)
       (on_world (on_start_begin a) s)"
| "exec lib conn (EvConnect a) s =
     guarded (case phase_of (s_world s) a of Connecting _ _ _ \<Rightarrow> True | _ \<Rightarrow> False)
       (on_world (on_start_connect conn a) s)"
| "exec lib conn (EvHandle a) s =
     guarded (case phase_of (s_world s) a of Running _ \<Rightarrow> mail_of (s_world s) a \<noteq> [] | _ \<Rightarrow> False)
       (on_world (actor_handle conn a) s)"
| "exec lib conn (EvTimer t) s =
     guarded (case tasks (s_world s) t of None \<Rightarrow> False | Some (d, a) \<Rightarrow> d \<le> clock (s_world s))
       (on_world (timer_fire t) s)"
| "exec lib conn (EvTimerInWrite t k) s =
     guarded (case tasks (s_world s) t of
         None \<Rightarrow> False
       | Some (d, a) \<Rightarrow> d \<le> clock (s_world s) \<and> is_writing (s_world s) a)
       (on_world (timer_fire_in_write conn k t) s)"
| "exec lib conn (EvDrop a) s =
     guarded (case phase_of (s_world s) a of Closing _ \<Rightarrow> True | _ \<Rightarrow> False)
       (on_world (session_drop a) s)"
| "exec lib conn (EvPoll n) s = Some (on_world (\<lambda>w. snd (stream_poll conn n w)) s)"
| "exec lib conn (EvStreamDrop n) s =
     guarded (streams (s_world s) n \<noteq> None) (on_world (stream_end n) s)"
| "exec lib conn (EvTick d) s = Some (on_world (\<lambda>w. w\<lparr>clock := clock w + d\<rparr>) s)"
| "exec lib conn EvTakeTx s =
     Some (on_world (\<lambda>w. w\<lparr>w_stats := snd (swap_bytes_tx (w_stats w))\<rparr>) s)"
| "exec lib conn EvTakeRx s =
     Some (on_world (\<lambda>w. w\<lparr>w_stats := snd (swap_bytes_rx (w_stats w))\<rparr>) s)"
| "exec lib conn EvServerDrop s = Some (on_world (\<lambda>w. w\<lparr>server_alive := False\<rparr>) s)"

lemma exec_requestE:
  assumes "exec lib conn (EvRequest req) s = Some s'"
  obtains rs where "request_begin lib req (s_world s) = (rs, s_world s')"
    "s_reqs s' = (s_reqs s)(s_next_req s \<mapsto> rs)" "s_next_req s' = Suc (s_next_req s)"
  using assms by (cases "request_begin lib req (s_world s)") (auto simp: guarded_def split: if_splits)

lemma exec_resumeE:
  assumes "exec lib conn (EvResume rid) s = Some s'"
  obtains rs rs' where "s_reqs s rid = Some rs" "request_step rid rs (s_world s) = Some (rs', s_world s')"
    "s_reqs s' = (s_reqs s)(rid \<mapsto> rs')" "s_next_req s' = s_next_req s"
  using assms by (auto split: option.splits)

definition init_sys :: "nat \<Rightarrow> config \<Rightarrow> 'u sys" where
  "init_sys cap cfg =
     \<lparr>s_world = with_connector cap cfg, s_reqs = Map.empty, s_next_req = 0\<rparr>"

section \<open>The invariant\<close>

definition task_for :: "'u world \<Rightarrow> nat \<Rightarrow> nat \<Rightarrow> bool" where
  "task_for w a t \<longleftrightarrow> (case tasks w t of None \<Rightarrow> False | Some (d, b) \<Rightarrow> b = a)"

definition handle_ok :: "'u world \<Rightarrow> nat \<Rightarrow> nat option \<Rightarrow> bool" where
  "handle_ok w a h \<longleftrightarrow>
     (\<forall>t. h = Some t \<longrightarrow> t < next_task w \<and> (\<forall>d b. tasks w t = Some (d, b) \<longrightarrow> b = a))"

definition stream_handle_ok :: "'u world \<Rightarrow> nat \<Rightarrow> nat option \<Rightarrow> bool" where
  "stream_handle_ok w a h \<longleftrightarrow>
     (\<forall>n. h = Some n \<longrightarrow> n < next_stream w \<and> (\<forall>st. streams w n = Some st \<longrightarrow> st_reader st = a)) \<and>
     (\<forall>n. read_locks w a = Some n \<longrightarrow> h = Some n)"

definition timers_ok :: "'u world \<Rightarrow> nat \<Rightarrow> nat option \<Rightarrow> nat option \<Rightarrow> bool" where
  "timers_ok w a tot idle \<longleftrightarrow>
     (\<exists>t1 t2. tot = Some t1 \<and> idle = Some t2 \<and> t1 \<noteq> t2 \<and> task_for w a t1 \<and> task_for w a t2)"

definition not_aborted :: "'u world \<Rightarrow> nat \<Rightarrow> bool" where
  "not_aborted w a \<longleftrightarrow>
     (\<forall>n st. read_locks w a = Some n \<longrightarrow> streams w n = Some st \<longrightarrow> \<not> st_aborted st)"

definition all_aborted :: "'u world \<Rightarrow> nat \<Rightarrow> bool" where
  "all_aborted w a \<longleftrightarrow>
     (\<forall>n st. read_locks w a = Some n \<longrightarrow> streams w n = Some st \<longrightarrow> st_aborted st)"

fun phase_wf :: "'u world \<Rightarrow> nat \<Rightarrow> phase \<Rightarrow> bool" where
  "phase_wf w a (Spawned args) = (read_locks w a = None)"
| "phase_wf w a (Connecting args tt it) =
     (read_locks w a = None \<and> timers_ok w a (Some tt) (Some it))"
| "phase_wf w a (Running s) =
     (upstream_write s = a \<and> upstream_read s = a \<and> upstreams w a \<noteq> None \<and>
      timers_ok w a (total_timeout_task s) (idle_timeout_task s) \<and>
      stream_handle_ok w a (upstream_read_abort s) \<and> not_aborted w a)"
| "phase_wf w a (Closing s) =
     (handle_ok w a (total_timeout_task s) \<and> handle_ok w a (idle_timeout_task s) \<and>
      stream_handle_ok w a (upstream_read_abort s))"
| "phase_wf w a Dead = all_aborted w a"

definition mail_wf :: "'u world \<Rightarrow> bool" where
  "mail_wf w \<longleftrightarrow> (\<forall>a. length (mail_of w a) \<le> mailbox_cap w \<and> (\<not> is_alive w a \<longrightarrow> mail_of w a = []))"

definition streams_wf :: "'u world \<Rightarrow> bool" where
  "streams_wf w \<longleftrightarrow>
     (\<forall>n st. streams w n = Some st \<longrightarrow>
        read_locks w (st_reader st) = Some n \<and> st_session st = st_reader st \<and>
        upstreams w (st_reader st) \<noteq> None \<and> n < next_stream w)"

definition locks_wf :: "'u world \<Rightarrow> bool" where
  "locks_wf w \<longleftrightarrow>
     (\<forall>a n. read_locks w a = Some n \<longrightarrow> (\<exists>st. streams w n = Some st \<and> st_reader st = a))"

definition fresh_wf :: "'u world \<Rightarrow> bool" where
  "fresh_wf w \<longleftrightarrow>
     (\<forall>a. next_actor w \<le> a \<longrightarrow> phase_of w a = Dead \<and> read_locks w a = None) \<and>
     (\<forall>t d a. tasks w t = Some (d, a) \<longrightarrow> t < next_task w \<and> a < next_actor w)"

fun phase_id :: "phase \<Rightarrow> uuid option" where
  "phase_id (Spawned args) = Some (a_session_id args)"
| "phase_id (Connecting args _ _) = Some (a_session_id args)"
| "phase_id (Running s) = Some (session_id s)"
| "phase_id (Closing s) = Some (session_id s)"
| "phase_id Dead = None"

definition sessions_wf :: "'u world \<Rightarrow> bool" where
  "sessions_wf w \<longleftrightarrow>
     (\<forall>u a. sessions w u = Some a \<longrightarrow> a < next_actor w \<and> phase_id (phase_of w a) \<in> {None, Some u})"

definition server_wf :: "'u world \<Rightarrow> bool" where
  "server_wf w \<longleftrightarrow>
     (\<forall>a. phase_wf w a (phase_of w a)) \<and> mail_wf w \<and> streams_wf w \<and> locks_wf w \<and>
     fresh_wf w \<and> sessions_wf w"

lemmas wf_defs = task_for_def handle_ok_def stream_handle_ok_def timers_ok_def not_aborted_def
  all_aborted_def

end
