(* ===== verification/Server_Invariant.thy ===== *)
theory Server_Invariant
  imports Server_System
begin

text \<open>
  Every event of the server keeps \<open>server_wf\<close>: one lemma per operation, then the event
  system as a whole as an instance of the interface \<open>preserved\<close>.
\<close>

section \<open>Each operation keeps the invariant\<close>

text \<open>
  \<open>keeps b w w'\<close>: a change of the world that does not concern actor \<open>b\<close>.
\<close>

definition keeps :: "nat \<Rightarrow> 'u world \<Rightarrow> 'u world \<Rightarrow> bool" where
  "keeps b w w' \<longleftrightarrow>
     read_locks w' b = read_locks w b \<and> (upstreams w b \<noteq> None \<longrightarrow> upstreams w' b \<noteq> None) \<and>
     (\<forall>t d. tasks w t = Some (d, b) \<longrightarrow> tasks w' t = Some (d, b)) \<and> next_task w \<le> next_task w' \<and>
     (\<forall>t < next_task w. tasks w' t = tasks w t \<or> tasks w' t = None) \<and>
     next_stream w \<le> next_stream w' \<and>
     (\<forall>n < next_stream w. \<forall>st'. streams w' n = Some st' \<longrightarrow>
        (\<exists>st. streams w n = Some st \<and> st_reader st' = st_reader st \<and>
              (st_reader st = b \<longrightarrow> st_aborted st' = st_aborted st)))"

lemma keeps_refl [simp]: "keeps b w w"
  by (auto simp: keeps_def)

lemma server_wfD:
  assumes "server_wf w"
  shows "phase_wf w a (phase_of w a)" "mail_wf w" "streams_wf w" "locks_wf w" "fresh_wf w" "sessions_wf w"
  using assms by (auto simp: server_wf_def)

lemma lock_stream:
  assumes "server_wf w" and "read_locks w a = Some n"
  obtains st where "streams w n = Some st" "st_reader st = a" "n < next_stream w"
proof -
  from assms(2) obtain st where st: "streams w n = Some st" "st_reader st = a"
    using server_wfD(4) [OF assms(1)] by (auto simp: locks_wf_def)
  then have "n < next_stream w" using server_wfD(3) [OF assms(1)] by (auto simp: streams_wf_def)
  with st that show ?thesis by blast
qed

lemma keeps_handle_ok: "keeps b w w' \<Longrightarrow> handle_ok w b h \<Longrightarrow> handle_ok w' b h"
  by (fastforce simp: keeps_def handle_ok_def)

lemma task_for_iff: "task_for w a t \<longleftrightarrow> (\<exists>d. tasks w t = Some (d, a))"
  by (auto simp: task_for_def split: option.splits)

lemma keeps_task_for: "keeps b w w' \<Longrightarrow> task_for w b t \<Longrightarrow> task_for w' b t"
  unfolding task_for_iff keeps_def by blast

lemma keeps_timers_ok: "keeps b w w' \<Longrightarrow> timers_ok w b h h' \<Longrightarrow> timers_ok w' b h h'"
  unfolding timers_ok_def using keeps_task_for by blast

lemma keeps_stream_handle_ok:
  "keeps b w w' \<Longrightarrow> stream_handle_ok w b h \<Longrightarrow> stream_handle_ok w' b h"
  by (fastforce simp: keeps_def stream_handle_ok_def)

lemma keeps_aborted:
  assumes "server_wf w" and "keeps b w w'"
  shows "not_aborted w b \<Longrightarrow> not_aborted w' b" and "all_aborted w b \<Longrightarrow> all_aborted w' b"
proof -
  have "\<exists>st. streams w n = Some st \<and> st_aborted st' = st_aborted st"
    if "read_locks w' b = Some n" "streams w' n = Some st'" for n st'
  proof -
    from that(1) assms(2) have "read_locks w b = Some n" by (simp add: keeps_def)
    with assms(1) obtain st where st: "streams w n = Some st" "st_reader st = b" "n < next_stream w"
      by (rule lock_stream)
    with that(2) assms(2) show ?thesis by (fastforce simp: keeps_def)
  qed
  with assms(2) show "not_aborted w b \<Longrightarrow> not_aborted w' b" "all_aborted w b \<Longrightarrow> all_aborted w' b"
    by (fastforce simp: not_aborted_def all_aborted_def keeps_def)+
qed

lemma phase_wf_keeps:
  assumes "server_wf w" and "keeps b w w'" and "phase_wf w b p"
  shows "phase_wf w' b p"
proof (cases p)
  case (Running s)
  then show ?thesis
    using assms keeps_timers_ok [OF assms(2)] keeps_stream_handle_ok [OF assms(2)]
      keeps_aborted [OF assms(1,2)] by (auto simp: keeps_def)
next
  case (Closing s)
  then show ?thesis
    using assms keeps_handle_ok [OF assms(2)] keeps_stream_handle_ok [OF assms(2)] by auto
qed (use assms keeps_timers_ok [OF assms(2)] keeps_aborted [OF assms(1,2)] in \<open>auto simp: keeps_def\<close>)

lemma server_wfI:
  assumes "server_wf w"
    and "\<And>b. b \<noteq> a \<Longrightarrow> keeps b w w' \<and> phase_of w' b = phase_of w b \<and> mail_of w' b = mail_of w b"
    and "mailbox_cap w' = mailbox_cap w" and "phase_wf w' a (phase_of w' a)"
    and "length (mail_of w' a) \<le> mailbox_cap w'" and "is_alive w' a \<or> mail_of w' a = []"
    and "streams_wf w'" and "locks_wf w'" and "fresh_wf w'" and "sessions_wf w'"
  shows "server_wf w'"
proof -
  have "phase_wf w' b (phase_of w' b)" for b
  proof (cases "b = a")
    case True
    with assms(4) show ?thesis by simp
  next
    case False
    from assms(2) [OF False] phase_wf_keeps [OF assms(1) _ server_wfD(1) [OF assms(1)], of b w']
    show ?thesis by simp
  qed
  moreover have "mail_wf w'"
    unfolding mail_wf_def
  proof (intro allI conjI impI)
    fix b
    show "length (mail_of w' b) \<le> mailbox_cap w'"
      using assms(2) [of b] assms(3,5) server_wfD(2) [OF assms(1), unfolded mail_wf_def, rule_format, of b]
      by (cases "b = a") simp_all
    show "\<not> is_alive w' b \<Longrightarrow> mail_of w' b = []"
      using assms(2) [of b] assms(6) server_wfD(2) [OF assms(1), unfolded mail_wf_def, rule_format, of b]
      by (cases "b = a") (simp_all add: is_alive_def)
  qed
  ultimately show ?thesis using assms by (simp add: server_wf_def)
qed

text \<open>The common case: streams, locks, connections and counters of actors stay.\<close>

lemma server_wf_actor:
  assumes "server_wf w" and "phase_of w a \<noteq> Dead"
    and "\<And>b. b \<noteq> a \<Longrightarrow> keeps b w w' \<and> phase_of w' b = phase_of w b \<and> mail_of w' b = mail_of w b"
    and "mailbox_cap w' = mailbox_cap w" and "phase_wf w' a (phase_of w' a)"
    and "length (mail_of w' a) \<le> mailbox_cap w'" and "is_alive w' a \<or> mail_of w' a = []"
    and "streams w' = streams w" and "read_locks w' = read_locks w" and "next_stream w' = next_stream w"
    and "\<And>b. upstreams w b \<noteq> None \<Longrightarrow> upstreams w' b \<noteq> None"
    and "next_actor w' = next_actor w" and "sessions w' = sessions w"
    and "\<And>t d b. tasks w' t = Some (d, b) \<Longrightarrow> t < next_task w' \<and> b < next_actor w"
    and "phase_id (phase_of w' a) \<in> {None, phase_id (phase_of w a)}"
  shows "server_wf w'"
proof (rule server_wfI [OF assms(1,3,4,5,6,7)])
  note wf = server_wfD [OF assms(1)]
  show "streams_wf w'" using wf(3) assms(8-11) by (auto simp: streams_wf_def)
  show "locks_wf w'" using wf(4) assms(8,9) by (simp add: locks_wf_def)
  have lt: "a < next_actor w" using wf(5) assms(2) by (meson fresh_wf_def not_le)
  show "fresh_wf w'"
    unfolding fresh_wf_def
  proof (intro conjI allI impI)
    fix b assume b: "next_actor w' \<le> b"
    then have "b \<noteq> a" using lt assms(12) by auto
    with b assms(3) [of b] wf(5) assms(9,12) show "phase_of w' b = Dead" "read_locks w' b = None"
      by (auto simp: fresh_wf_def)
  qed (use assms(12,14) in auto)
  show "sessions_wf w'"
    unfolding sessions_wf_def
  proof (intro allI impI conjI)
    fix u b assume "sessions w' u = Some b"
    then have s: "b < next_actor w" "phase_id (phase_of w b) \<in> {None, Some u}"
      using wf(6) assms(13) by (auto simp: sessions_wf_def)
    then show "b < next_actor w'" by (simp add: assms(12))
    show "phase_id (phase_of w' b) \<in> {None, Some u}"
      using s assms(3) [of b] assms(15) by (cases "b = a") auto
  qed
qed auto

lemma wf_mail:
  assumes "server_wf w"
  shows "length (mail_of w a) \<le> mailbox_cap w" and "\<not> is_alive w a \<Longrightarrow> mail_of w a = []"
  using server_wfD(2) [OF assms] by (auto simp: mail_wf_def)

lemma wf_tasks: "server_wf w \<Longrightarrow> tasks w t = Some (d, a) \<Longrightarrow> t < next_task w \<and> a < next_actor w"
  by (auto simp: server_wf_def fresh_wf_def)

lemma wf_actor_lt: "server_wf w \<Longrightarrow> phase_of w a \<noteq> Dead \<Longrightarrow> a < next_actor w"
  by (meson server_wfD(5) fresh_wf_def not_le)

lemma wf_sessions:
  "server_wf w \<Longrightarrow> sessions w u = Some a \<Longrightarrow> a < next_actor w \<and> phase_id (phase_of w a) \<in> {None, Some u}"
  by (simp add: server_wf_def sessions_wf_def)

lemma wf_no_task: "server_wf w \<Longrightarrow> next_task w \<le> t \<Longrightarrow> tasks w t = None"
  by (metis wf_tasks not_le option.exhaust surj_pair)

lemma on_start_begin_fields:
  assumes "phase_of w a = Spawned args" and "w' = on_start_begin a w"
  shows "phase_of w' b = (if b = a then Connecting args (next_task w) (Suc (next_task w)) else phase_of w b)"
    and "mail_of w' b = mail_of w b"
    and "tasks w' = (tasks w)(next_task w \<mapsto> (clock w + a_total_timeout args, a),
                            Suc (next_task w) \<mapsto> (clock w + a_idle_timeout args, a))"
    and "next_task w' = Suc (Suc (next_task w))"
    and "streams w' = streams w" "read_locks w' = read_locks w" "upstreams w' = upstreams w"
    and "next_stream w' = next_stream w" "next_actor w' = next_actor w" "sessions w' = sessions w"
    and "mailbox_cap w' = mailbox_cap w" "clock w' = clock w" "w_stats w' = w_stats w"
  using assms(1) by (simp_all add: assms(2) on_start_begin_def actor_timeout_def Let_def)

lemma wf_on_start_begin:
  assumes wf: "server_wf w"
  shows "server_wf (on_start_begin a w)"
proof (cases "phase_of w a")
  case (Spawned args)
  define w' where "w' = on_start_begin a w"
  note f = on_start_begin_fields [OF Spawned w'_def]
  have "server_wf w'"
  proof (rule server_wf_actor [OF wf])
    show "phase_of w a \<noteq> Dead" by (simp add: Spawned)
    show "b \<noteq> a \<Longrightarrow> keeps b w w' \<and> phase_of w' b = phase_of w b \<and> mail_of w' b = mail_of w b" for b
      using wf_no_task [OF wf] by (auto simp: f keeps_def)
    show "phase_wf w' a (phase_of w' a)"
      using server_wfD(1) [OF wf, of a] by (simp add: f Spawned timers_ok_def task_for_def)
    show "tasks w' t = Some (x, b) \<Longrightarrow> t < next_task w' \<and> b < next_actor w" for t x b
      using wf_actor_lt [OF wf, of a] Spawned
      by (auto simp: f less_Suc_eq split: if_splits dest: wf_tasks [OF wf])
    show "length (mail_of w' a) \<le> mailbox_cap w'" using wf_mail(1) [OF wf] by (simp add: f)
    show "is_alive w' a \<or> mail_of w' a = []" by (simp add: f is_alive_def)
  qed (simp_all add: f Spawned)
  then show ?thesis by (simp add: w'_def)
qed (use wf in \<open>simp_all add: on_start_begin_def\<close>)

lemma keeps_timeout_swap:
  assumes wf: "server_wf w" and h: "handle_ok w a h" and b: "b \<noteq> a"
    and w': "tasks w' = (tasks (abort_task h w))(next_task w \<mapsto> (d, a))" "next_task w' = Suc (next_task w)"
      "read_locks w' b = read_locks w b" "upstreams w b \<noteq> None \<longrightarrow> upstreams w' b \<noteq> None"
      "streams w' = streams w" "next_stream w' = next_stream w"
  shows "keeps b w w'"
  using h b wf_no_task [OF wf] w'
  by (auto simp: keeps_def handle_ok_def abort_task_def split: option.splits)

lemma tasks_timeout_swap:
  assumes "server_wf w" "a < next_actor w"
    and "tasks w' = (tasks (abort_task h w))(next_task w \<mapsto> (d, a))" "next_task w' = Suc (next_task w)"
    and "tasks w' t = Some (x, b)"
  shows "t < next_task w' \<and> b < next_actor w"
proof (cases "t = next_task w")
  case True
  with assms show ?thesis by auto
next
  case False
  with assms(3,5) have "tasks w t = Some (x, b)"
    by (auto simp: abort_task_def split: option.splits if_splits)
  from wf_tasks [OF assms(1) this] assms(4) show ?thesis by simp
qed

lemma on_start_connect_fields:
  assumes "phase_of w a = Connecting args tt it" and "c_connect conn a (a_upstream args) = Ok v"
    and "w' = on_start_connect conn a w"
  shows "phase_of w' b = (if b = a
      then Running \<lparr>session_id = a_session_id args, upstream_write = a, upstream_read = a,
             upstream_read_abort = None, s_idle_timeout = a_idle_timeout args,
             idle_timeout_task = Some (next_task w), total_timeout_task = Some tt\<rparr>
      else phase_of w b)"
    and "mail_of w' b = mail_of w b"
    and "tasks w' = (tasks (abort_task (Some it) w))(next_task w \<mapsto> (clock w + a_idle_timeout args, a))"
    and "next_task w' = Suc (next_task w)" and "upstreams w' = (upstreams w)(a \<mapsto> v)"
    and "streams w' = streams w" "read_locks w' = (read_locks w)(a := None)"
    and "next_stream w' = next_stream w" "next_actor w' = next_actor w" "sessions w' = sessions w"
    and "mailbox_cap w' = mailbox_cap w" "clock w' = clock w" "w_stats w' = w_stats w"
  using assms(1,2)
  by (simp_all add: assms(3) on_start_connect_def reset_idle_timeout_def actor_timeout_def
      abort_task_def Let_def)

lemma wf_on_start_connect:
  assumes wf: "server_wf w"
  shows "server_wf (on_start_connect conn a w)"
proof (cases "phase_of w a")
  case (Connecting args tt it)
  note ph = server_wfD(1) [OF wf, of a, unfolded Connecting, simplified]
  have lt: "a < next_actor w" using wf_actor_lt [OF wf, of a] Connecting by simp
  show ?thesis
  proof (cases "c_connect conn a (a_upstream args)")
    case (Inl e)
    then have e: "on_start_connect conn a w = set_actor a Dead [] w"
      by (simp add: on_start_connect_def Connecting)
    show ?thesis
      unfolding e
    proof (rule server_wf_actor [OF wf])
      show "phase_wf (set_actor a Dead [] w) a (phase_of (set_actor a Dead [] w) a)"
        using ph by (simp add: all_aborted_def)
      show "b \<noteq> a \<Longrightarrow> keeps b w (set_actor a Dead [] w) \<and>
          phase_of (set_actor a Dead [] w) b = phase_of w b \<and> mail_of (set_actor a Dead [] w) b = mail_of w b" for b
        by (auto simp: keeps_def)
    qed (use Connecting wf_tasks [OF wf] in simp_all)
  next
    case (Inr v)
    define w' where "w' = on_start_connect conn a w"
    note f = on_start_connect_fields [OF Connecting Inr w'_def]
    have it: "handle_ok w a (Some it)" "tt < next_task w" "tt \<noteq> it" "task_for w a tt"
      using ph wf_tasks [OF wf] by (auto simp: timers_ok_def task_for_iff handle_ok_def)
    have "server_wf w'"
    proof (rule server_wf_actor [OF wf])
      show "phase_wf w' a (phase_of w' a)"
        using ph it
        by (auto simp: f abort_task_def timers_ok_def task_for_iff stream_handle_ok_def not_aborted_def)
      show "b \<noteq> a \<Longrightarrow> keeps b w w' \<and> phase_of w' b = phase_of w b \<and> mail_of w' b = mail_of w b" for b
        by (rule conjI, rule keeps_timeout_swap [OF wf it(1) _ f(3,4)]) (simp_all add: f)
      show "tasks w' t = Some (x, b) \<Longrightarrow> t < next_task w' \<and> b < next_actor w" for t x b
        by (rule tasks_timeout_swap [OF wf lt f(3,4)])
      show "read_locks w' = read_locks w" using ph by (auto simp: f)
      show "length (mail_of w' a) \<le> mailbox_cap w'" using wf_mail(1) [OF wf] by (simp add: f)
      show "is_alive w' a \<or> mail_of w' a = []" by (simp add: f is_alive_def)
    qed (simp_all add: f Connecting)
    then show ?thesis by (simp add: w'_def)
  qed
qed (use wf in \<open>simp_all add: on_start_connect_def\<close>)

text \<open>Stopping an actor, and the timeout task that does so.\<close>

lemma timers_ok_handles:
  "server_wf w \<Longrightarrow> timers_ok w a h h' \<Longrightarrow> handle_ok w a h \<and> handle_ok w a h'"
  using wf_tasks by (fastforce simp: timers_ok_def task_for_iff handle_ok_def)

lemma wf_close_actor_gen:
  assumes wf: "server_wf w" and w1: "w1 = w \<or> (\<exists>t d. tasks w t = Some (d, a) \<and> w1 = w\<lparr>tasks := (tasks w)(t := None)\<rparr>)"
  shows "server_wf (close_actor a w1)"
proof -
  let ?w = "close_actor a w1"
  have same: "phase_of w1 = phase_of w" "mail_of w1 = mail_of w" "streams w1 = streams w"
      "read_locks w1 = read_locks w" "upstreams w1 = upstreams w" "next_task w1 = next_task w"
      "next_stream w1 = next_stream w" "next_actor w1 = next_actor w" "sessions w1 = sessions w"
      "mailbox_cap w1 = mailbox_cap w"
    using w1 by auto
  have cl: "streams ?w = streams w" "read_locks ?w = read_locks w" "upstreams ?w = upstreams w"
      "tasks ?w = tasks w1" "next_task ?w = next_task w" "next_stream ?w = next_stream w"
      "next_actor ?w = next_actor w" "sessions ?w = sessions w" "mailbox_cap ?w = mailbox_cap w"
      "\<And>b. b \<noteq> a \<Longrightarrow> phase_of ?w b = phase_of w b \<and> mail_of ?w b = mail_of w b"
    using same by (auto simp: close_actor_def split: phase.splits)
  have k: "keeps b w ?w" if "b \<noteq> a" for b
    using w1 that by (auto simp: keeps_def cl split: if_splits)
  have t: "tasks ?w t = Some (x, b) \<Longrightarrow> tasks w t = Some (x, b)" for t x b
    using w1 by (auto simp: cl split: if_splits)
  have t': "tasks ?w t = Some (x, b) \<Longrightarrow> t < next_task w \<and> b < next_actor w" for t x b
    using t [of t x b] wf_tasks [OF wf, of t x b] by blast
  have h: "handle_ok w a x \<Longrightarrow> handle_ok ?w a x" for x
    using t by (auto simp: handle_ok_def cl)
  have s: "stream_handle_ok ?w a x = stream_handle_ok w a x" for x
    by (simp add: stream_handle_ok_def cl)
  have ph: "phase_wf ?w a (phase_of ?w a)"
  proof (cases "phase_of w a")
    case (Running ss)
    have "timers_ok w a (total_timeout_task ss) (idle_timeout_task ss)"
        "stream_handle_ok w a (upstream_read_abort ss)"
      using server_wfD(1) [OF wf, of a] Running by simp_all
    with timers_ok_handles [OF wf this(1)] have "phase_wf ?w a (Closing ss)"
      by (simp add: h s)
    then show ?thesis using Running by (simp add: close_actor_def same)
  next
    case (Closing ss)
    with server_wfD(1) [OF wf, of a] h s show ?thesis by (simp add: close_actor_def same)
  qed (use server_wfD(1) [OF wf, of a] in \<open>simp_all add: close_actor_def same all_aborted_def cl\<close>)
  have m: "mail_of ?w a = []"
    using wf_mail(2) [OF wf, of a] by (auto simp: close_actor_def same is_alive_def split: phase.splits)
  have id: "phase_id (phase_of ?w a) \<in> {None, phase_id (phase_of w a)}"
    by (auto simp: close_actor_def same split: phase.splits)
  show ?thesis
  proof (cases "phase_of w a = Dead")
    case False
    from wf False show ?thesis
      by (rule server_wf_actor) (use k cl ph m id t' in simp_all)
  next
    case True
    then have dead: "phase_of ?w b = phase_of w b" for b
      using cl(10) [of b] by (cases "b = a") (simp_all add: close_actor_def same)
    have fr: "fresh_wf ?w"
      using server_wfD(5) [OF wf] t' by (simp add: fresh_wf_def cl dead)
    have "sessions_wf ?w" "streams_wf ?w" "locks_wf ?w"
      using server_wfD(3,4,6) [OF wf] by (simp_all add: streams_wf_def locks_wf_def sessions_wf_def cl dead)
    with wf k cl ph m fr show ?thesis by (intro server_wfI [OF wf, of a]) simp_all
  qed
qed

lemma wf_timer_fire: "server_wf w \<Longrightarrow> server_wf (timer_fire t w)"
  using wf_close_actor_gen [of w]
  by (auto simp: timer_fire_def split: option.splits)

text \<open>Changes that concern no actor in particular.\<close>

lemma server_wf_all:
  assumes wf: "server_wf w"
    and k: "\<And>b. keeps b w w' \<and> phase_of w' b = phase_of w b \<and> mail_of w' b = mail_of w b"
    and "mailbox_cap w' = mailbox_cap w" "streams_wf w'" "locks_wf w'" "fresh_wf w'" "sessions_wf w'"
  shows "server_wf w'"
proof -
  have "phase_wf w' 0 (phase_of w' 0)"
    using k [of 0] phase_wf_keeps [OF wf _ server_wfD(1) [OF wf], of 0 w'] by simp
  moreover have "length (mail_of w' 0) \<le> mailbox_cap w'" "is_alive w' 0 \<or> mail_of w' 0 = []"
    using k [of 0] wf_mail [OF wf, of 0] assms(3) by (auto simp: is_alive_def)
  ultimately show ?thesis
    using assms by (intro server_wfI [OF wf, of 0]) simp_all
qed

lemma wf_irrelevant:
  assumes wf: "server_wf w"
  shows "server_wf (w\<lparr>w_stats := x\<rparr>)" "server_wf (w\<lparr>replies := r\<rparr>)" "server_wf (w\<lparr>clock := c\<rparr>)"
    "server_wf (w\<lparr>server_alive := z\<rparr>)"
  by (rule server_wf_all [OF wf];
      use server_wfD(3-6) [OF wf] in
      \<open>simp_all add: keeps_def streams_wf_def locks_wf_def fresh_wf_def sessions_wf_def\<close>)+

lemma wf_upstream_update:
  assumes wf: "server_wf w"
  shows "server_wf (w\<lparr>upstreams := (upstreams w)(a \<mapsto> u)\<rparr>)"
  by (rule server_wf_all [OF wf];
      use server_wfD(3-6) [OF wf] in
      \<open>simp_all add: keeps_def streams_wf_def locks_wf_def fresh_wf_def sessions_wf_def\<close>)

lemma wf_timer_fire_in_write: "server_wf w \<Longrightarrow> server_wf (timer_fire_in_write conn k t w)"
  by (auto simp: timer_fire_in_write_def write_prefix_def wf_upstream_update
      split: option.splits phase.splits list.splits message.splits intro!: wf_timer_fire)

lemma wf_stream_update:
  assumes wf: "server_wf w" and st: "streams w n = Some st"
    and "st_reader st' = st_reader st" "st_session st' = st_session st" "st_aborted st' = st_aborted st"
  shows "server_wf (w\<lparr>streams := (streams w)(n \<mapsto> st')\<rparr>)"
proof (rule server_wf_all [OF wf])
  let ?w = "w\<lparr>streams := (streams w)(n \<mapsto> st')\<rparr>"
  show "keeps b w ?w \<and> phase_of ?w b = phase_of w b \<and> mail_of ?w b = mail_of w b" for b
    using assms by (auto simp: keeps_def)
  show "streams_wf ?w" using server_wfD(3) [OF wf] assms by (auto simp: streams_wf_def)
  show "locks_wf ?w" using server_wfD(4) [OF wf] assms by (fastforce simp: locks_wf_def)
qed (use server_wfD(5,6) [OF wf] in \<open>simp_all add: fresh_wf_def sessions_wf_def\<close>)

lemma wf_set_mail:
  assumes wf: "server_wf w" and al: "is_alive w a" and len: "length q \<le> mailbox_cap w"
  shows "server_wf (set_actor a (phase_of w a) q w)"
proof -
  let ?w = "set_actor a (phase_of w a) q w"
  have al': "phase_of w a \<noteq> Dead" using al by (rule is_alive_phase)
  have k: "keeps b w ?w" for b by (auto simp: keeps_def)
  show ?thesis
  proof (rule server_wf_actor [OF wf al'])
    show "phase_wf ?w a (phase_of ?w a)"
      using phase_wf_keeps [OF wf k server_wfD(1) [OF wf]] by simp
    show "is_alive ?w a \<or> mail_of ?w a = []" using al by (simp add: is_alive_def)
  qed (use k len wf_tasks [OF wf] in simp_all)
qed

lemma wf_enqueue:
  "server_wf w \<Longrightarrow> is_alive w a \<Longrightarrow> \<not> mailbox_full w a \<Longrightarrow> server_wf (enqueue a m w)"
  unfolding enqueue_def by (rule wf_set_mail) (simp_all add: mailbox_full_def)

lemma wf_stream_end:
  assumes wf: "server_wf w"
  shows "server_wf (stream_end n w)"
proof (cases "streams w n")
  case (Some st)
  let ?a = "st_reader st"
  define w' where "w' = stream_end n w"
  have f: "streams w' = (streams w)(n := None)" "read_locks w' = (read_locks w)(?a := None)"
      "phase_of w' = phase_of w" "mail_of w' = mail_of w" "upstreams w' = upstreams w"
      "tasks w' = tasks w" "next_task w' = next_task w" "next_stream w' = next_stream w"
      "next_actor w' = next_actor w" "sessions w' = sessions w" "mailbox_cap w' = mailbox_cap w"
    using Some by (simp_all add: w'_def stream_end_def)
  have lk: "read_locks w b = Some n \<Longrightarrow> b = ?a" for b
    using server_wfD(4) [OF wf] Some by (fastforce simp: locks_wf_def)
  have lk': "read_locks w ?a = Some n" using server_wfD(3) [OF wf] Some by (auto simp: streams_wf_def)
  have oth: "streams w m = Some st' \<Longrightarrow> m \<noteq> n \<Longrightarrow> st_reader st' \<noteq> ?a" for m st'
    using server_wfD(3) [OF wf] lk' unfolding streams_wf_def by (metis option.inject)
  have p1: "timers_ok w' ?a x y = timers_ok w ?a x y" "handle_ok w' ?a x = handle_ok w ?a x"
      "not_aborted w' ?a" "all_aborted w' ?a" for x y
    by (simp_all add: f timers_ok_def task_for_def handle_ok_def not_aborted_def all_aborted_def)
  have p2: "stream_handle_ok w ?a x \<Longrightarrow> stream_handle_ok w' ?a x" for x
    unfolding stream_handle_ok_def f fun_upd_apply by (metis option.distinct(1))
  from p1 p2 have ph: "phase_wf w' ?a (phase_of w ?a)"
    using server_wfD(1) [OF wf, of ?a] by (cases "phase_of w ?a") (simp_all add: f)
  have "server_wf w'"
  proof (rule server_wfI [OF wf, of ?a])
    show "b \<noteq> ?a \<Longrightarrow> keeps b w w' \<and> phase_of w' b = phase_of w b \<and> mail_of w' b = mail_of w b" for b
      by (auto simp: keeps_def f)
    show "streams_wf w'"
      using server_wfD(3) [OF wf] oth by (auto simp: streams_wf_def f)
    show "locks_wf w'"
      using server_wfD(4) [OF wf] lk by (auto simp: locks_wf_def f)
    show "fresh_wf w'" using server_wfD(5) [OF wf] by (auto simp: fresh_wf_def f)
    show "sessions_wf w'" using server_wfD(6) [OF wf] by (simp add: sessions_wf_def f)
    show "length (mail_of w' ?a) \<le> mailbox_cap w'" using wf_mail(1) [OF wf] by (simp add: f)
    show "is_alive w' ?a \<or> mail_of w' ?a = []" using wf_mail(2) [OF wf] by (auto simp: f is_alive_def)
  qed (simp_all add: f ph)
  then show ?thesis by (simp add: w'_def)
qed (simp add: stream_end_def wf)

lemma wf_stream_tell:
  assumes wf: "server_wf w" and st: "streams w n = Some st0"
    and same: "st_reader st = st_reader st0" "st_session st = st_session st0" "st_aborted st = st_aborted st0"
  shows "server_wf (snd (stream_tell n st bs w))"
proof -
  have 1: "server_wf (w\<lparr>streams := (streams w)(n \<mapsto> st\<lparr>st_tell := x\<rparr>)\<rparr>)" for x
    using wf st by (rule wf_stream_update) (simp_all add: same)
  moreover have "is_alive w (st_session st) \<Longrightarrow> \<not> mailbox_full w (st_session st) \<Longrightarrow>
      server_wf (enqueue (st_session st) m (w\<lparr>streams := (streams w)(n \<mapsto> st\<lparr>st_tell := None\<rparr>)\<rparr>))" for m
    using 1 by (intro wf_enqueue) (simp_all add: is_alive_def mailbox_full_def)
  ultimately show ?thesis by (auto simp: stream_tell_def Let_def)
qed

lemma wf_stream_poll:
  assumes wf: "server_wf w"
  shows "server_wf (snd (stream_poll conn n w))"
proof (cases "streams w n")
  case (Some st)
  obtain r u' where ru: "c_read_buf conn (the (upstreams w (st_reader st))) READ_CAPACITY = (r, u')"
    by fastforce
  let ?w1 = "w\<lparr>upstreams := (upstreams w)(st_reader st \<mapsto> u')\<rparr>"
  have wf1: "server_wf ?w1" using wf by (rule wf_upstream_update)
  have st1: "streams ?w1 n = Some st" by (simp add: Some)
  have tell: "server_wf (snd (stream_tell n st bs w))" for bs
    using wf Some by (rule wf_stream_tell) simp_all
  have wait: "server_wf (?w1\<lparr>streams := (streams ?w1)(n \<mapsto> st\<lparr>st_first := False, st_reading := True\<rparr>)\<rparr>)"
    using wf1 st1 by (rule wf_stream_update) simp_all
  have data: "server_wf (snd (stream_tell n (st\<lparr>st_first := False, st_reading := False\<rparr>) bs
      (?w1\<lparr>w_stats := x\<rparr>)))" for bs x
    using wf_irrelevant(1) [OF wf1]
    by (rule wf_stream_tell [of _ n st]) (simp_all add: Some)
  from wf tell wait data wf_stream_end [OF wf1] show ?thesis
    by (auto simp: stream_poll_def Some ru Let_def split: option.splits poll.splits sum.splits)
qed (simp add: stream_poll_def wf)

text \<open>The messages, one by one.\<close>

lemma wf_reset_idle:
  assumes wf: "server_wf w" and ru: "phase_of w a = Running s" and len: "length q \<le> mailbox_cap w"
    and r: "reset_idle_timeout a s w0 = (s', w1)" and w0: "w0 = set_actor a (Running s) q w"
  shows "server_wf (set_actor a (Running s') (mail_of w1 a) w1)"
proof -
  note ph = server_wfD(1) [OF wf, of a, unfolded ru, simplified]
  have lt: "a < next_actor w" using wf_actor_lt [OF wf, of a] ru by simp
  define w' where "w' = set_actor a (Running s') (mail_of w1 a) w1"
  have s': "s' = s\<lparr>idle_timeout_task := Some (next_task w)\<rparr>"
    using r by (auto simp: w0 reset_idle_timeout_def actor_timeout_def abort_task_def Let_def
        split: option.splits)
  have w1: "w1 = snd (reset_idle_timeout a s w0)" using r by simp
  have f: "tasks w' = (tasks (abort_task (idle_timeout_task s) w))(next_task w \<mapsto> (clock w + s_idle_timeout s, a))"
      "next_task w' = Suc (next_task w)" "phase_of w' b = (if b = a then Running s' else phase_of w b)"
      "mail_of w' b = (if b = a then q else mail_of w b)" "streams w' = streams w"
      "read_locks w' = read_locks w" "upstreams w' = upstreams w" "next_stream w' = next_stream w"
      "next_actor w' = next_actor w" "sessions w' = sessions w" "mailbox_cap w' = mailbox_cap w" for b
    by (simp_all add: w'_def w1 w0 reset_idle_timeout_def actor_timeout_def abort_task_def Let_def
        split: option.splits)
  obtain t1 t2 where t: "total_timeout_task s = Some t1" "idle_timeout_task s = Some t2" "t1 \<noteq> t2"
      "task_for w a t1" "task_for w a t2"
    using ph by (auto simp: timers_ok_def)
  have t1: "t1 < next_task w" using t(4) wf_tasks [OF wf] by (auto simp: task_for_iff)
  have h: "handle_ok w a (idle_timeout_task s)"
    using timers_ok_handles [OF wf, of a "total_timeout_task s" "idle_timeout_task s"] ph by simp
  have "server_wf w'"
  proof (rule server_wf_actor [OF wf])
    show "phase_wf w' a (phase_of w' a)"
      using ph t t1 by (simp add: f s' abort_task_def timers_ok_def task_for_def stream_handle_ok_def not_aborted_def)
    show "b \<noteq> a \<Longrightarrow> keeps b w w' \<and> phase_of w' b = phase_of w b \<and> mail_of w' b = mail_of w b" for b
      by (rule conjI, rule keeps_timeout_swap [OF wf h _ f(1,2)]) (simp_all add: f)
    show "tasks w' t = Some (x, b) \<Longrightarrow> t < next_task w' \<and> b < next_actor w" for t x b
      by (rule tasks_timeout_swap [OF wf lt f(1,2)])
    show "is_alive w' a \<or> mail_of w' a = []" by (simp add: f is_alive_def)
  qed (simp_all add: f ru len s')
  then show ?thesis by (simp add: w'_def)
qed

lemma wf_handle_read:
  assumes wf: "server_wf w" and ru: "phase_of w a = Running s"
    and r: "handle_SessionRead a s w = (x, s', w1)"
  shows "server_wf (set_actor a (Running s') (mail_of w1 a) w1)"
proof (cases "read_locks w a")
  case (Some n)
  have rd: "upstream_read s = a" using server_wfD(1) [OF wf, of a] ru by simp
  have "s' = s" "w1 = w" using r Some rd by (auto simp: handle_SessionRead_def)
  then show ?thesis
    using wf_set_mail [OF wf, of a "mail_of w a"] wf_mail(1) [OF wf, of a] ru by (simp add: is_alive_def)
next
  case None
  note ph = server_wfD(1) [OF wf, of a, unfolded ru, simplified]
  define w' where "w' = set_actor a (Running s') (mail_of w1 a) w1"
  let ?n = "next_stream w"
  have s': "s' = s\<lparr>upstream_read_abort := Some ?n\<rparr>"
    using r None ph by (auto simp: handle_SessionRead_def Let_def)
  have w1: "w1 = snd (snd (handle_SessionRead a s w))" using r by simp
  have f: "tasks w' = tasks w" "next_task w' = next_task w"
      "phase_of w' b = (if b = a then Running s' else phase_of w b)" "mail_of w' b = mail_of w b"
      "streams w' = (streams w)(?n \<mapsto> \<lparr>st_reader = a, st_session = a, st_first = True,
          st_reading = False, st_tell = None, st_aborted = False\<rparr>)"
      "read_locks w' = (read_locks w)(a \<mapsto> ?n)" "upstreams w' = upstreams w"
      "next_stream w' = Suc ?n" "next_actor w' = next_actor w" "sessions w' = sessions w"
      "mailbox_cap w' = mailbox_cap w" for b
    using None ph by (simp_all add: w'_def w1 handle_SessionRead_def Let_def)
  have sn: "streams w m = Some st \<Longrightarrow> m < ?n \<and> read_locks w (st_reader st) = Some m" for m st
    using server_wfD(3) [OF wf] by (auto simp: streams_wf_def)
  then have no: "streams w ?n = None" by (metis less_irrefl option.exhaust)
  have lt: "a < next_actor w" using wf_actor_lt [OF wf, of a] ru by simp
  have ids: "sessions w u = Some a \<Longrightarrow> session_id s = u" for u
    using wf_sessions [OF wf] ru by fastforce
  have "server_wf w'"
  proof (rule server_wfI [OF wf, of a])
    show "b \<noteq> a \<Longrightarrow> keeps b w w' \<and> phase_of w' b = phase_of w b \<and> mail_of w' b = mail_of w b" for b
      by (simp add: f keeps_def)
    show "phase_wf w' a (phase_of w' a)"
      using ph by (simp add: f s' timers_ok_def task_for_def stream_handle_ok_def not_aborted_def)
    show "streams_wf w'"
      using server_wfD(3) [OF wf] ph None by (fastforce simp: streams_wf_def f)
    show "locks_wf w'"
      using server_wfD(4) [OF wf] no by (auto simp: locks_wf_def f) (metis option.distinct(1))
    show "fresh_wf w'" using server_wfD(5) [OF wf] lt by (auto simp: fresh_wf_def f)
    show "sessions_wf w'" using server_wfD(6) [OF wf] ids by (auto simp: sessions_wf_def f s')
    show "length (mail_of w' a) \<le> mailbox_cap w'" using wf_mail(1) [OF wf] by (simp add: f)
    show "is_alive w' a \<or> mail_of w' a = []" by (simp add: f is_alive_def)
  qed (simp add: f)
  then show ?thesis by (simp add: w'_def)
qed

lemma wf_handle_write:
  assumes wf: "server_wf w" and ru: "phase_of w a = Running s"
    and r: "handle_SessionWrite conn a s bs w = (stop, w1)"
  shows "server_wf (if stop then close_actor a w1 else w1)"
proof -
  obtain x u' where c: "c_write_all conn (the (upstreams w (upstream_write s))) bs = (x, u')" by fastforce
  let ?w = "w\<lparr>upstreams := (upstreams w)(upstream_write s \<mapsto> u')\<rparr>"
  have wf1: "server_wf ?w" using wf by (rule wf_upstream_update)
  show ?thesis
  proof (cases x)
    case (Inl e)
    with r c have "stop" "w1 = ?w" by (auto simp: handle_SessionWrite_def)
    then show ?thesis using wf_close_actor_gen [OF wf1, of ?w a] by simp
  next
    case (Inr y)
    with r c have "\<not> stop" "w1 = try_send a SessionResetIdleTimeout ?w"
      by (auto simp: handle_SessionWrite_def)
    then show ?thesis
      using wf_enqueue [OF wf1, of a] wf1 by (simp add: try_send_def)
  qed
qed

lemma wf_send_reply: "server_wf w \<Longrightarrow> server_wf (send_reply r v w)"
  by (simp add: send_reply_def wf_irrelevant split: option.splits)

lemma wf_actor_handle:
  assumes wf: "server_wf w"
  shows "server_wf (actor_handle conn a w)"
proof (cases "\<exists>s m slot q. phase_of w a = Running s \<and> mail_of w a = (m, slot) # q")
  case False
  then have "actor_handle conn a w = w"
    by (auto simp: actor_handle_def split: phase.splits list.splits)
  with wf show ?thesis by simp
next
  case True
  then obtain s m slot q where ru: "phase_of w a = Running s" and q: "mail_of w a = (m, slot) # q" by blast
  let ?w0 = "set_actor a (Running s) q w"
  have len: "length q \<le> mailbox_cap w" using wf_mail(1) [OF wf, of a] q by simp
  have wf0: "server_wf ?w0"
    using wf_set_mail [OF wf, of a q] ru len by (simp add: is_alive_def)
  have ru0: "phase_of ?w0 a = Running s" by simp
  show ?thesis
  proof (cases m)
    case SessionRead
    obtain x s' w1 where h: "handle_SessionRead a s ?w0 = (x, s', w1)" by (metis surj_pair)
    from wf_send_reply [OF wf_handle_read [OF wf0 ru0 h]] SessionRead show ?thesis
      by (simp add: actor_handle_def ru q h)
  next
    case (SessionWrite bs)
    obtain stop w1 where h: "handle_SessionWrite conn a s bs ?w0 = (stop, w1)" by fastforce
    from wf_send_reply [OF wf_handle_write [OF wf0 ru0 h]] SessionWrite show ?thesis
      by (simp add: actor_handle_def ru q h)
  next
    case SessionResetIdleTimeout
    obtain s' w1 where h: "reset_idle_timeout a s ?w0 = (s', w1)" by fastforce
    from wf_reset_idle [OF wf ru len h refl] SessionResetIdleTimeout show ?thesis
      by (simp add: actor_handle_def handle_SessionResetIdleTimeout_def ru q h)
  qed
qed

lemma session_drop_fields:
  assumes "phase_of w a = Closing s" and "w' = session_drop a w"
  shows "phase_of w' b = (if b = a then Dead else phase_of w b)"
    and "mail_of w' b = (if b = a then [] else mail_of w b)"
    and "tasks w' t = (if total_timeout_task s = Some t \<or> idle_timeout_task s = Some t then None else tasks w t)"
    and "streams w' n = (if upstream_read_abort s = Some n
           then map_option (\<lambda>st. st\<lparr>st_aborted := True\<rparr>) (streams w n) else streams w n)"
    and "sessions w' = (if server_alive w then (sessions w)(session_id s := None) else sessions w)"
    and "next_task w' = next_task w" "read_locks w' = read_locks w" "upstreams w' = upstreams w"
    and "next_stream w' = next_stream w" "next_actor w' = next_actor w"
    and "mailbox_cap w' = mailbox_cap w" "clock w' = clock w" "w_stats w' = w_stats w"
  using assms(1)
  by (auto simp: assms(2) session_drop_def abort_task_def abort_stream_def remove_session_def Let_def
      split: option.splits)

lemma wf_session_drop:
  assumes wf: "server_wf w"
  shows "server_wf (session_drop a w)"
proof (cases "phase_of w a")
  case (Closing s)
  define w' where "w' = session_drop a w"
  note f = session_drop_fields [OF Closing w'_def]
  note ph = server_wfD(1) [OF wf, of a, unfolded Closing, simplified]
  have sh: "upstream_read_abort s = Some n \<Longrightarrow> streams w n = Some st \<Longrightarrow> st_reader st = a" for n st
    using ph by (auto simp: stream_handle_ok_def)
  have lh: "read_locks w a = Some n \<Longrightarrow> upstream_read_abort s = Some n" for n
    using ph by (auto simp: stream_handle_ok_def)
  have st: "\<exists>st. streams w n = Some st \<and> st_reader st' = st_reader st \<and> st_session st' = st_session st \<and>
      (st_reader st \<noteq> a \<longrightarrow> st_aborted st' = st_aborted st)" if "streams w' n = Some st'" for n st'
    using that sh [of n] by (cases "streams w n") (auto simp: f split: if_splits)
  have ts: "tasks w t = Some (d, b) \<Longrightarrow> b \<noteq> a \<Longrightarrow> tasks w' t = Some (d, b)" for t d b
    using ph by (auto simp: f handle_ok_def)
  have "server_wf w'"
  proof (rule server_wfI [OF wf, of a])
    fix b assume "b \<noteq> a"
    then show "keeps b w w' \<and> phase_of w' b = phase_of w b \<and> mail_of w' b = mail_of w b"
      using ts st by (fastforce simp: keeps_def f(1,2,6-13) f(3) )
  next
    show "phase_wf w' a (phase_of w' a)"
      using lh by (auto simp: f all_aborted_def)
    show "streams_wf w'"
      unfolding streams_wf_def f(7,8,9)
    proof (intro allI impI)
      fix n st' assume "streams w' n = Some st'"
      from st [OF this] server_wfD(3) [OF wf]
      show "read_locks w (st_reader st') = Some n \<and> st_session st' = st_reader st' \<and>
          upstreams w (st_reader st') \<noteq> None \<and> n < next_stream w"
        unfolding streams_wf_def by metis
    qed
    show "locks_wf w'"
      using server_wfD(4) [OF wf] unfolding locks_wf_def f(4,7) by fastforce
    show "fresh_wf w'" using server_wfD(5) [OF wf] by (auto simp: fresh_wf_def f split: if_splits)
    show "sessions_wf w'" using server_wfD(6) [OF wf] by (auto simp: sessions_wf_def f split: if_splits)
  qed (simp_all add: f)
  then show ?thesis by (simp add: w'_def)
qed (use wf in \<open>simp_all add: session_drop_def\<close>)

text \<open>Requests.\<close>

lemma wf_insert_session:
  assumes wf: "server_wf w" and r: "insert_session u w = (a, w')"
  shows "server_wf w'"
proof -
  let ?a = "next_actor w"
  let ?p = "Spawned \<lparr>a_session_id = u, a_upstream = upstream (w_config w),
      a_idle_timeout = idle_timeout (w_config w), a_total_timeout = total_timeout (w_config w)\<rparr>"
  have f: "phase_of w' b = (if b = ?a then ?p else phase_of w b)"
      "mail_of w' b = (if b = ?a then [] else mail_of w b)" "tasks w' = tasks w" "streams w' = streams w"
      "sessions w' = (sessions w)(u \<mapsto> ?a)" "next_actor w' = Suc ?a" "next_task w' = next_task w"
      "read_locks w' = read_locks w" "upstreams w' = upstreams w" "next_stream w' = next_stream w"
      "mailbox_cap w' = mailbox_cap w" for b
    using r by (auto simp: insert_session_def new_session_def Let_def)
  have fr: "read_locks w ?a = None" using server_wfD(5) [OF wf] by (simp add: fresh_wf_def)
  show ?thesis
  proof (rule server_wfI [OF wf, of ?a])
    show "b \<noteq> ?a \<Longrightarrow> keeps b w w' \<and> phase_of w' b = phase_of w b \<and> mail_of w' b = mail_of w b" for b
      by (auto simp: keeps_def f)
    show "streams_wf w'" "locks_wf w'"
      using server_wfD(3,4) [OF wf] by (simp_all add: streams_wf_def locks_wf_def f)
    show "fresh_wf w'" using server_wfD(5) [OF wf] by (fastforce simp: fresh_wf_def f)
    show "sessions_wf w'"
      using wf_sessions [OF wf] by (fastforce simp: sessions_wf_def f less_Suc_eq)
  qed (simp_all add: f fr is_alive_def)
qed

lemma wf_find_session: "server_wf w \<Longrightarrow> find_session c u w = (r, w') \<Longrightarrow> server_wf w'"
  by (auto simp: find_session_def split: option.splits if_splits prod.splits dest: wf_insert_session)

lemma wf_request_begin: "server_wf w \<Longrightarrow> server_wf (snd (request_begin lib req w))"
  by (auto simp: request_begin_def split: sum.splits prod.splits dest: wf_find_session)

lemma wf_request_step:
  "server_wf w \<Longrightarrow> request_step rid rs w = Some (rs', w') \<Longrightarrow> server_wf w'"
  by (induction rid rs w rule: request_step.induct)
     (auto simp: take_reply_def Let_def wf_irrelevant split: if_splits option.splits reply.splits
       intro!: wf_enqueue wf_irrelevant)

section \<open>The system\<close>

lemma exec_wf:
  assumes "server_wf (s_world s)" and "exec lib conn e s = Some s'"
  shows "server_wf (s_world s')"
proof (cases e)
  case (EvRequest req)
  with assms wf_request_begin [OF assms(1), of lib req] show ?thesis
    by (auto simp: guarded_def split: if_splits prod.splits)
next
  case (EvResume rid)
  with assms show ?thesis by (auto split: option.splits intro: wf_request_step)
qed (use assms in \<open>auto simp: guarded_def on_world_def split: if_splits
      intro: wf_on_start_begin wf_on_start_connect wf_actor_handle wf_timer_fire
        wf_timer_fire_in_write wf_session_drop
        wf_stream_poll wf_stream_end wf_irrelevant\<close>)

lemma init_wf: "server_wf (s_world (init_sys cap cfg))"
  by (simp add: init_sys_def with_connector_def server_wf_def phase_of_def mail_of_def all_aborted_def
      mail_wf_def streams_wf_def locks_wf_def fresh_wf_def sessions_wf_def)

interpretation srv: preserved "exec lib conn" "\<lambda>s. server_wf (s_world s)" for lib conn
  by unfold_locales (rule exec_wf)

lemma run_init_wf: "run (exec lib conn) es (init_sys cap cfg) = Some s \<Longrightarrow> server_wf (s_world s)"
  using init_wf by (rule srv.run_inv)

end
