(* ===== verification/Server_Events.thy ===== *)
theory Server_Events
  imports Server_Invariant
begin

text \<open>
  What an event leaves alone. Every event concerns at most one actor (\<open>concerns\<close>) and
  leaves the phase, the connection and the timeout tasks of all others untouched. On top
  of this: each sleeping timeout task of a session is one of the two its actor holds, and
  a dead session's connection is never used again.
\<close>

section \<open>Which actor an event concerns\<close>

definition reader_of :: "'u world \<Rightarrow> nat \<Rightarrow> nat option" where
  "reader_of w n = map_option st_reader (streams w n)"

fun concerns :: "'u world \<Rightarrow> event \<Rightarrow> nat option" where
  "concerns w (EvStart b) = Some b"
| "concerns w (EvConnect b) = Some b"
| "concerns w (EvHandle b) = Some b"
| "concerns w (EvDrop b) = Some b"
| "concerns w (EvTimer t) = map_option snd (tasks w t)"
| "concerns w (EvTimerInWrite t k) = map_option snd (tasks w t)"
| "concerns w (EvPoll n) = reader_of w n"
| "concerns w _ = None"

text \<open>What does not change when an event concerns another actor.\<close>

definition untouched :: "nat \<Rightarrow> 'u world \<Rightarrow> 'u world \<Rightarrow> bool" where
  "untouched a w w' \<longleftrightarrow>
     (a < next_actor w \<longrightarrow> phase_of w' a = phase_of w a) \<and> upstreams w' a = upstreams w a \<and>
     next_actor w \<le> next_actor w' \<and>
     (\<forall>t d. tasks w' t = Some (d, a) \<longleftrightarrow> tasks w t = Some (d, a))"

lemma untouched_refl [simp]: "untouched a w w"
  by (simp add: untouched_def)

lemma untouched_fields:
  "phase_of w' a = phase_of w a \<Longrightarrow> upstreams w' a = upstreams w a \<Longrightarrow> tasks w' = tasks w \<Longrightarrow>
   next_actor w' = next_actor w \<Longrightarrow> untouched a w w'"
  by (simp add: untouched_def)

section \<open>What the operations do to phases, connections and tasks\<close>

lemma close_actor_fields [simp]:
  "tasks (close_actor b w) = tasks w" "upstreams (close_actor b w) = upstreams w"
  "next_actor (close_actor b w) = next_actor w" "clock (close_actor b w) = clock w"
  "next_task (close_actor b w) = next_task w" "w_stats (close_actor b w) = w_stats w"
  "streams (close_actor b w) = streams w" "read_locks (close_actor b w) = read_locks w"
  "sessions (close_actor b w) = sessions w" "mailbox_cap (close_actor b w) = mailbox_cap w"
  "a \<noteq> b \<Longrightarrow> phase_of (close_actor b w) a = phase_of w a"
  "\<not> is_alive (close_actor b w) b"
  by (simp_all add: close_actor_def is_alive_def split: phase.splits)

lemma stream_tell_fields:
  assumes "stream_tell n st bs w = (r, w')"
  shows "phase_of w' = phase_of w" "upstreams w' = upstreams w" "tasks w' = tasks w"
    "next_actor w' = next_actor w" "next_task w' = next_task w" "clock w' = clock w"
    "w_stats w' = w_stats w" "sessions w' = sessions w" "read_locks w' = read_locks w"
  using assms by (auto simp: stream_tell_def Let_def fun_eq_iff split: if_splits)

lemma stream_end_fields [simp]:
  "phase_of (stream_end n w) = phase_of w" "upstreams (stream_end n w) = upstreams w"
  "tasks (stream_end n w) = tasks w" "next_actor (stream_end n w) = next_actor w"
  "next_task (stream_end n w) = next_task w" "clock (stream_end n w) = clock w"
  "w_stats (stream_end n w) = w_stats w" "sessions (stream_end n w) = sessions w"
  "mail_of (stream_end n w) = mail_of w"
  by (simp_all add: stream_end_def split: option.splits)

lemma stream_poll_fields:
  assumes "stream_poll conn n w = (r, w')"
  shows "phase_of w' = phase_of w" "tasks w' = tasks w" "next_actor w' = next_actor w"
    "next_task w' = next_task w" "clock w' = clock w" "sessions w' = sessions w"
    "reader_of w n \<noteq> Some a \<or> (\<exists>st. streams w n = Some st \<and> st_aborted st) \<Longrightarrow> upstreams w' a = upstreams w a"
  using assms
  by (auto simp: stream_poll_def reader_of_def Let_def dest: stream_tell_fields
      split: option.splits if_splits prod.splits poll.splits sum.splits)

lemma send_reply_fields [simp]:
  "phase_of (send_reply s v w) = phase_of w" "upstreams (send_reply s v w) = upstreams w"
  "tasks (send_reply s v w) = tasks w" "next_actor (send_reply s v w) = next_actor w"
  "next_task (send_reply s v w) = next_task w" "clock (send_reply s v w) = clock w"
  "w_stats (send_reply s v w) = w_stats w" "sessions (send_reply s v w) = sessions w"
  "mail_of (send_reply s v w) = mail_of w"
  by (simp_all add: send_reply_def split: option.splits)

lemma try_send_fields [simp]:
  "phase_of (try_send a m w) b = phase_of w b" "upstreams (try_send a m w) = upstreams w"
  "tasks (try_send a m w) = tasks w" "next_actor (try_send a m w) = next_actor w"
  "next_task (try_send a m w) = next_task w" "clock (try_send a m w) = clock w"
  "w_stats (try_send a m w) = w_stats w" "sessions (try_send a m w) = sessions w"
  by (simp_all add: try_send_def)

lemma actor_handle_write:
  assumes "phase_of w b = Running s" and "mail_of w b = (SessionWrite bs, slot) # q"
    and "c_write_all conn (the (upstreams w (upstream_write s))) bs = (r, u')"
    and "w' = actor_handle conn b w"
  shows "phase_of w' a = (if a = b \<and> \<not> is_ok r then Closing s else phase_of w a)"
    and "upstreams w' = (upstreams w)(upstream_write s \<mapsto> u')" "tasks w' = tasks w"
    and "next_actor w' = next_actor w" "clock w' = clock w" "sessions w' = sessions w"
    and "next_task w' = next_task w" "w_stats w' = w_stats w"
  using assms(1-3)
  by (auto simp: assms(4) actor_handle_def handle_SessionWrite_def close_actor_def Let_def split: sum.splits)

lemma actor_handle_read:
  assumes "phase_of w b = Running s" and "mail_of w b = (SessionRead, slot) # q"
    and "w' = actor_handle conn b w"
  shows "\<exists>h. phase_of w' b = Running (s\<lparr>upstream_read_abort := h\<rparr>)"
    and "a \<noteq> b \<Longrightarrow> phase_of w' a = phase_of w a" "upstreams w' = upstreams w" "tasks w' = tasks w"
    and "next_actor w' = next_actor w" "clock w' = clock w" "sessions w' = sessions w"
    and "next_task w' = next_task w" "w_stats w' = w_stats w"
proof -
  show "\<exists>h. phase_of w' b = Running (s\<lparr>upstream_read_abort := h\<rparr>)"
    using assms(1,2)
    by (auto simp: assms(3) actor_handle_def handle_SessionRead_def Let_def split: option.splits
        intro: exI [of _ "upstream_read_abort s"])
qed (use assms(1,2) in \<open>auto simp: assms(3) actor_handle_def handle_SessionRead_def Let_def split: option.splits\<close>)

lemma actor_handle_reset:
  assumes "phase_of w b = Running s" and "mail_of w b = (SessionResetIdleTimeout, slot) # q"
    and "w' = actor_handle conn b w"
  shows "phase_of w' a = (if a = b then Running (s\<lparr>idle_timeout_task := Some (next_task w)\<rparr>) else phase_of w a)"
    and "tasks w' = (tasks (abort_task (idle_timeout_task s) w))(next_task w \<mapsto> (clock w + s_idle_timeout s, b))"
    and "upstreams w' = upstreams w" "next_actor w' = next_actor w" "clock w' = clock w"
    and "sessions w' = sessions w" "next_task w' = Suc (next_task w)" "w_stats w' = w_stats w"
  using assms(1,2)
  by (simp_all add: assms(3) actor_handle_def handle_SessionResetIdleTimeout_def reset_idle_timeout_def
      actor_timeout_def abort_task_def Let_def split: option.splits)

lemma request_step_fields:
  assumes "request_step rid rs w = Some (rs', w')"
  shows "phase_of w' = phase_of w" "upstreams w' = upstreams w" "tasks w' = tasks w"
    "next_actor w' = next_actor w" "clock w' = clock w" "sessions w' = sessions w"
  using assms
  by (induction rid rs w rule: request_step.induct)
     (auto simp: take_reply_def Let_def fun_eq_iff split: if_splits option.splits reply.splits)

lemma request_begin_fields:
  assumes "request_begin lib req w = (rs, w')"
  shows "a < next_actor w \<Longrightarrow> phase_of w' a = phase_of w a"
    "upstreams w' = upstreams w" "tasks w' = tasks w" "next_actor w \<le> next_actor w'"
    "clock w' = clock w" "w_stats w' = w_stats w"
  using assms
  by (auto simp: request_begin_def find_session_def insert_session_def new_session_def Let_def
      split: sum.splits prod.splits option.splits if_splits)

lemma untouched_timeout_swap:
  assumes wf: "server_wf w" and h: "handle_ok w b h" and ab: "a \<noteq> b"
    and w': "tasks w' = (tasks (abort_task h w))(next_task w \<mapsto> (d, b))"
      "phase_of w' a = phase_of w a" "upstreams w' a = upstreams w a" "next_actor w' = next_actor w"
  shows "untouched a w w'"
  using h ab wf_no_task [OF wf] w'
  by (auto simp: untouched_def handle_ok_def abort_task_def split: option.splits)

lemma Running_handles:
  assumes wf: "server_wf w" and "phase_of w b = Running s"
  shows "handle_ok w b (total_timeout_task s)" "handle_ok w b (idle_timeout_task s)"
    "upstream_write s = b" "upstream_read s = b"
  using server_wfD(1) [OF wf, of b] assms(2) timers_ok_handles [OF wf] by auto

lemma untouched_actor_handle:
  assumes wf: "server_wf w" and ab: "a \<noteq> b"
  shows "untouched a w (actor_handle conn b w)"
proof (cases "\<exists>s m slot q. phase_of w b = Running s \<and> mail_of w b = (m, slot) # q")
  case False
  then have "actor_handle conn b w = w"
    by (auto simp: actor_handle_def split: phase.splits list.splits)
  then show ?thesis by simp
next
  case True
  then obtain s m slot q where ru: "phase_of w b = Running s" and q: "mail_of w b = (m, slot) # q" by blast
  note h = Running_handles [OF wf ru]
  show ?thesis
  proof (cases m)
    case SessionRead
    note f = actor_handle_read [OF ru q [unfolded SessionRead] refl, where conn = conn]
    from ab f show ?thesis by (intro untouched_fields) simp_all
  next
    case (SessionWrite bs)
    obtain r u' where c: "c_write_all conn (the (upstreams w (upstream_write s))) bs = (r, u')" by fastforce
    note f = actor_handle_write [OF ru q [unfolded SessionWrite] c refl]
    from ab h f show ?thesis by (intro untouched_fields) simp_all
  next
    case SessionResetIdleTimeout
    note f = actor_handle_reset [OF ru q [unfolded SessionResetIdleTimeout] refl, where conn = conn]
    from ab f show ?thesis by (intro untouched_timeout_swap [OF wf h(2) ab]) simp_all
  qed
qed

lemma untouched_on_start_begin:
  assumes wf: "server_wf w" and ab: "a \<noteq> b"
  shows "untouched a w (on_start_begin b w)"
proof (cases "phase_of w b")
  case (Spawned args)
  note f = on_start_begin_fields [OF Spawned refl]
  show ?thesis using ab wf_no_task [OF wf] by (auto simp: untouched_def f)
qed (simp_all add: on_start_begin_def)

lemma untouched_on_start_connect:
  assumes wf: "server_wf w" and ab: "a \<noteq> b"
  shows "untouched a w (on_start_connect conn b w)"
proof (cases "phase_of w b")
  case (Connecting args tt it)
  have ok: "handle_ok w b (Some it)"
    using server_wfD(1) [OF wf, of b] Connecting timers_ok_handles [OF wf] by auto
  show ?thesis
  proof (cases "c_connect conn b (a_upstream args)")
    case (Inl e)
    with ab show ?thesis by (intro untouched_fields) (simp_all add: on_start_connect_def Connecting)
  next
    case (Inr v)
    note f = on_start_connect_fields [OF Connecting Inr refl]
    from ab show ?thesis by (intro untouched_timeout_swap [OF wf ok ab f(3)]) (simp_all add: f)
  qed
qed (simp_all add: on_start_connect_def)

lemma untouched_session_drop:
  assumes wf: "server_wf w" and ab: "a \<noteq> b"
  shows "untouched a w (session_drop b w)"
proof (cases "phase_of w b")
  case (Closing s)
  note f = session_drop_fields [OF Closing refl]
  have "handle_ok w b (total_timeout_task s)" "handle_ok w b (idle_timeout_task s)"
    using server_wfD(1) [OF wf, of b] Closing by auto
  with ab show ?thesis by (auto simp: untouched_def f handle_ok_def)
qed (simp_all add: session_drop_def)

lemma untouched_timer_fire:
  "map_option snd (tasks w t) \<noteq> Some a \<Longrightarrow> untouched a w (timer_fire t w)"
  by (auto simp: timer_fire_def untouched_def split: option.splits)

lemma write_prefix_upstreams:
  "server_wf w \<Longrightarrow> a \<noteq> b \<Longrightarrow> upstreams (write_prefix conn k b w) a = upstreams w a"
  by (auto simp: write_prefix_def dest: Running_handles(3) split: phase.splits list.splits prod.splits message.splits)

lemma untouched_timer_fire_in_write:
  assumes wf: "server_wf w" and no: "map_option snd (tasks w t) \<noteq> Some a"
  shows "untouched a w (timer_fire_in_write conn k t w)"
proof (cases "tasks w t")
  case (Some x)
  obtain d b where x: "x = (d, b)" by fastforce
  have "untouched a w (write_prefix conn k b w)"
    using no Some x by (intro untouched_fields) (simp_all add: write_prefix_upstreams [OF wf])
  moreover have "untouched a (write_prefix conn k b w) (timer_fire t (write_prefix conn k b w))"
    using no by (intro untouched_timer_fire) simp
  ultimately show ?thesis using Some x by (simp add: timer_fire_in_write_def untouched_def)
qed (simp add: timer_fire_in_write_def)

lemma untouched_stream_poll:
  assumes "reader_of w n \<noteq> Some a \<or> (\<exists>st. streams w n = Some st \<and> st_aborted st)"
  shows "untouched a w (snd (stream_poll conn n w))"
proof -
  obtain r w' where p: "stream_poll conn n w = (r, w')" by fastforce
  show ?thesis
    using stream_poll_fields(1,2,3) [OF p] stream_poll_fields(7) [OF p assms] by (simp add: p untouched_def)
qed

lemma exec_untouched:
  assumes wf: "server_wf (s_world s)" and ex: "exec lib conn e s = Some s'"
    and no: "concerns (s_world s) e \<noteq> Some a"
  shows "untouched a (s_world s) (s_world s')"
proof (cases e)
  case (EvRequest req)
  from exec_requestE [OF ex [unfolded EvRequest]] obtain rs where
      r: "request_begin lib req (s_world s) = (rs, s_world s')" by blast
  with request_begin_fields [OF r] show ?thesis by (simp add: untouched_def)
next
  case (EvResume rid)
  from exec_resumeE [OF ex [unfolded EvResume]] obtain rs rs' where
      r: "request_step rid rs (s_world s) = Some (rs', s_world s')" by blast
  with request_step_fields [OF r] show ?thesis by (simp add: untouched_def)
qed (use ex no untouched_on_start_begin [OF wf] untouched_on_start_connect [OF wf] in
    \<open>auto simp: guarded_def on_world_def untouched_fields split: if_splits
     intro!: untouched_actor_handle [OF wf] untouched_session_drop [OF wf] untouched_timer_fire
       untouched_timer_fire_in_write [OF wf] untouched_stream_poll\<close>)

text \<open>What an event that concerns an actor can be, and what it does.\<close>

lemma concernedE:
  assumes ex: "exec lib conn e s = Some s'" and c: "concerns (s_world s) e = Some a"
  obtains
    (start) args where "e = EvStart a" "phase_of (s_world s) a = Spawned args" "s_world s' = on_start_begin a (s_world s)"
  | (refused) args tt it err where "e = EvConnect a" "phase_of (s_world s) a = Connecting args tt it"
      "c_connect conn a (a_upstream args) = Err err" "s_world s' = set_actor a Dead [] (s_world s)"
  | (connected) args tt it v where "e = EvConnect a" "phase_of (s_world s) a = Connecting args tt it"
      "c_connect conn a (a_upstream args) = Ok v" "s_world s' = on_start_connect conn a (s_world s)"
  | (read) ss slot q where "e = EvHandle a" "phase_of (s_world s) a = Running ss"
      "mail_of (s_world s) a = (SessionRead, slot) # q" "s_world s' = actor_handle conn a (s_world s)"
  | (writes) ss bs slot q r u' where "e = EvHandle a" "phase_of (s_world s) a = Running ss"
      "mail_of (s_world s) a = (SessionWrite bs, slot) # q"
      "c_write_all conn (the (upstreams (s_world s) (upstream_write ss))) bs = (r, u')"
      "s_world s' = actor_handle conn a (s_world s)"
  | (reset) ss slot q where "e = EvHandle a" "phase_of (s_world s) a = Running ss"
      "mail_of (s_world s) a = (SessionResetIdleTimeout, slot) # q" "s_world s' = actor_handle conn a (s_world s)"
  | (drop) ss where "e = EvDrop a" "phase_of (s_world s) a = Closing ss" "s_world s' = session_drop a (s_world s)"
  | (timer) t d where "e = EvTimer t" "tasks (s_world s) t = Some (d, a)" "d \<le> clock (s_world s)"
      "s_world s' = close_actor a ((s_world s)\<lparr>tasks := (tasks (s_world s))(t := None)\<rparr>)"
  | (cut) t k d ss bs slot q r u' where "e = EvTimerInWrite t k" "tasks (s_world s) t = Some (d, a)"
      "d \<le> clock (s_world s)" "phase_of (s_world s) a = Running ss" "mail_of (s_world s) a = (SessionWrite bs, slot) # q"
      "c_write_all conn (the (upstreams (s_world s) (upstream_write ss))) (take k bs) = (r, u')"
      "s_world s' = close_actor a ((s_world s)\<lparr>upstreams := (upstreams (s_world s))(upstream_write ss \<mapsto> u'),
         tasks := (tasks (s_world s))(t := None)\<rparr>)"
  | (poll) n st r where "e = EvPoll n" "streams (s_world s) n = Some st" "st_reader st = a"
      "stream_poll conn n (s_world s) = (r, s_world s')"
proof (cases e)
  case (EvStart b)
  with ex c start show thesis by (auto simp: guarded_def on_world_def split: if_splits phase.splits)
next
  case (EvConnect b)
  with ex c obtain args tt it where p: "b = a" "phase_of (s_world s) a = Connecting args tt it"
      "s_world s' = on_start_connect conn a (s_world s)"
    by (auto simp: guarded_def on_world_def split: if_splits phase.splits)
  show thesis
  proof (cases "c_connect conn a (a_upstream args)")
    case (Inl err)
    with p EvConnect show thesis by (intro refused) (simp_all add: on_start_connect_def)
  next
    case (Inr v)
    with p EvConnect show thesis by (intro connected) simp_all
  qed
next
  case (EvHandle b)
  with ex c obtain ss m slot q where p: "b = a" "phase_of (s_world s) a = Running ss"
      "mail_of (s_world s) a = (m, slot) # q" "s_world s' = actor_handle conn a (s_world s)"
    by (auto simp: guarded_def on_world_def neq_Nil_conv split: if_splits phase.splits)
  with EvHandle read writes reset show thesis by (cases m) (metis surj_pair)+
next
  case (EvDrop b)
  with ex c drop show thesis by (auto simp: guarded_def on_world_def split: if_splits phase.splits)
next
  case (EvTimer t)
  with ex c timer show thesis
    by (auto simp: guarded_def on_world_def timer_fire_def split: if_splits option.splits)
next
  case (EvTimerInWrite t k)
  with ex c obtain d where d: "tasks (s_world s) t = Some (d, a)" "d \<le> clock (s_world s)" "is_writing (s_world s) a"
      "s_world s' = timer_fire_in_write conn k t (s_world s)"
    by (auto simp: guarded_def on_world_def split: if_splits option.splits)
  from is_writingE [OF d(3)] obtain ss bs slot q where w: "phase_of (s_world s) a = Running ss"
      "mail_of (s_world s) a = (SessionWrite bs, slot) # q" by blast
  obtain r u' where c: "c_write_all conn (the (upstreams (s_world s) (upstream_write ss))) (take k bs) = (r, u')" by fastforce
  show thesis
    by (rule cut [OF EvTimerInWrite d(1,2) w c])
      (use d w c in \<open>simp add: timer_fire_in_write_def write_prefix_def timer_fire_def\<close>)
next
  case (EvPoll n)
  with ex c poll [of n _ "fst (stream_poll conn n (s_world s))"] show thesis
    by (auto simp: on_world_def reader_of_def)
qed (use c in simp_all)

section \<open>Timeout tasks belong to their actor\<close>

definition tasks_owned :: "'u world \<Rightarrow> nat \<Rightarrow> bool" where
  "tasks_owned w a \<longleftrightarrow>
     (\<forall>t d. tasks w t = Some (d, a) \<longrightarrow>
        (case phase_of w a of
           Spawned _ \<Rightarrow> False
         | Connecting _ tt it \<Rightarrow> t = tt \<or> t = it
         | Running s \<Rightarrow> Some t = total_timeout_task s \<or> Some t = idle_timeout_task s
         | Closing s \<Rightarrow> Some t = total_timeout_task s \<or> Some t = idle_timeout_task s
         | Dead \<Rightarrow> True))"

lemma tasks_owned_untouched:
  assumes "server_wf w" and "untouched a w w'" and "tasks_owned w a"
  shows "tasks_owned w' a"
proof (cases "a < next_actor w")
  case True
  with assms show ?thesis by (simp add: untouched_def tasks_owned_def)
next
  case False
  with wf_tasks [OF assms(1)] have "tasks w t \<noteq> Some (d, a)" for t d by blast
  with assms(2) show ?thesis by (simp add: untouched_def tasks_owned_def)
qed

lemma tasks_owned_less:
  assumes "tasks_owned w a" and "phase_of w' a = phase_of w a"
    and "\<And>t d. tasks w' t = Some (d, a) \<Longrightarrow> tasks w t = Some (d, a)"
  shows "tasks_owned w' a"
  using assms by (simp add: tasks_owned_def)

lemma tasks_owned_close:
  "tasks_owned w a \<Longrightarrow> tasks_owned (close_actor a w) a"
  by (auto simp: tasks_owned_def close_actor_def split: phase.splits)

lemma exec_tasks_owned:
  assumes ex: "exec lib conn e s = Some s'" and ow: "tasks_owned (s_world s) a"
    and c: "concerns (s_world s) e = Some a"
  shows "tasks_owned (s_world s') a"
  using ex c
proof (cases rule: concernedE)
  case (start args)
  with ow on_start_begin_fields [OF start(2) refl] show ?thesis by (auto simp: tasks_owned_def split: if_splits)
next
  case (connected args tt it v)
  note f = on_start_connect_fields [OF connected(2-4)]
  from ow connected(2) show ?thesis by (auto simp: f tasks_owned_def abort_task_def split: if_splits)
next
  case (read ss slot q)
  note f = actor_handle_read [OF read(2-4)]
  from f(1) ow read(2) show ?thesis by (auto simp: tasks_owned_def f(4))
next
  case (writes ss bs slot q r u')
  note f = actor_handle_write [OF writes(2-5)]
  from ow writes(2) show ?thesis by (auto simp: tasks_owned_def f)
next
  case (reset ss slot q)
  note f = actor_handle_reset [OF reset(2-4)]
  from ow reset(2) show ?thesis by (auto simp: tasks_owned_def f abort_task_def split: if_splits option.splits)
next
  case (drop ss)
  with session_drop_fields [OF drop(2) refl] show ?thesis by (simp add: tasks_owned_def)
next
  case (timer t d)
  from ow have "tasks_owned ((s_world s)\<lparr>tasks := (tasks (s_world s))(t := None)\<rparr>) a"
    by (rule tasks_owned_less) (simp_all split: if_splits)
  with timer(4) show ?thesis by (simp add: tasks_owned_close)
next
  case (cut t k d ss bs slot q r u')
  from ow have "tasks_owned ((s_world s)\<lparr>upstreams := (upstreams (s_world s))(upstream_write ss \<mapsto> u'),
      tasks := (tasks (s_world s))(t := None)\<rparr>) a"
    by (rule tasks_owned_less) (simp_all split: if_splits)
  with cut(7) show ?thesis by (simp add: tasks_owned_close)
next
  case (poll n st r)
  with ow stream_poll_fields [OF poll(4)] show ?thesis by (simp add: tasks_owned_def)
qed (use ow in \<open>simp add: tasks_owned_def\<close>)

definition sys_ok :: "'u sys \<Rightarrow> bool" where
  "sys_ok s \<longleftrightarrow> server_wf (s_world s) \<and> (\<forall>a. tasks_owned (s_world s) a)"

lemma exec_ok: "sys_ok s \<Longrightarrow> exec lib conn e s = Some s' \<Longrightarrow> sys_ok s'"
  unfolding sys_ok_def
  by (metis exec_wf exec_untouched exec_tasks_owned tasks_owned_untouched)

lemma init_ok: "sys_ok (init_sys cap cfg)" (is "sys_ok ?s")
proof -
  have "tasks_owned (s_world ?s) a" for a
    by (simp add: tasks_owned_def init_sys_def with_connector_def)
  then show ?thesis by (simp add: sys_ok_def init_wf)
qed

interpretation ok: preserved "exec lib conn" sys_ok for lib conn
  by unfold_locales (rule exec_ok)

inductive reachable :: "http_lib \<Rightarrow> 'u connector \<Rightarrow> 'u sys \<Rightarrow> bool" for lib conn where
  reachable_init: "reachable lib conn (init_sys cap cfg)"
| reachable_step: "reachable lib conn s \<Longrightarrow> exec lib conn e s = Some s' \<Longrightarrow> reachable lib conn s'"

lemma reachable_ok: "reachable lib conn s \<Longrightarrow> sys_ok s"
  by (induction rule: reachable.induct) (auto intro: init_ok exec_ok)

lemma reachable_wf: "reachable lib conn s \<Longrightarrow> server_wf (s_world s)"
  using reachable_ok by (auto simp: sys_ok_def)

lemma reachable_run: "reachable lib conn s \<Longrightarrow> run (exec lib conn) es s = Some s' \<Longrightarrow> reachable lib conn s'"
  by (induction es arbitrary: s) (auto intro: reachable_step split: option.splits)

lemma reachable_iff_run:
  "reachable lib conn s \<longleftrightarrow> (\<exists>cap cfg es. run (exec lib conn) es (init_sys cap cfg) = Some s)"
proof
  show "\<exists>cap cfg es. run (exec lib conn) es (init_sys cap cfg) = Some s" if "reachable lib conn s"
    using that
  proof induction
    case (reachable_init cap cfg)
    show ?case by (intro exI [of _ cap] exI [of _ cfg] exI [of _ "[]"]) simp
  next
    case (reachable_step s e s')
    then show ?case using run_appendI [OF _ run_single] by fast
  qed
  show "reachable lib conn s" if "\<exists>cap cfg es. run (exec lib conn) es (init_sys cap cfg) = Some s"
    using that reachable_run [OF reachable_init] by blast
qed

section \<open>A closed session stays closed\<close>

definition gone :: "nat \<Rightarrow> 'u option \<Rightarrow> 'u sys \<Rightarrow> bool" where
  "gone a v s \<longleftrightarrow> sys_ok s \<and> a < next_actor (s_world s) \<and> phase_of (s_world s) a = Dead \<and>
     upstreams (s_world s) a = v"

lemma exec_gone:
  assumes g: "gone a v s" and ex: "exec lib conn e s = Some s'"
  shows "gone a v s'"
proof -
  have wf: "server_wf (s_world s)" and dead: "phase_of (s_world s) a = Dead"
    using g by (simp_all add: gone_def sys_ok_def)
  have "phase_of (s_world s') a = Dead \<and> upstreams (s_world s') a = upstreams (s_world s) a \<and>
      next_actor (s_world s) \<le> next_actor (s_world s')"
  proof (cases "concerns (s_world s) e = Some a")
    case False
    from exec_untouched [OF wf ex this] g show ?thesis by (simp add: untouched_def gone_def)
  next
    case True
    with ex show ?thesis
    proof (cases rule: concernedE)
      case (timer t d)
      with dead show ?thesis by (simp add: close_actor_def)
    next
      case (poll n st r)
      have "st_aborted st"
        using server_wfD(1) [OF wf, of a] server_wfD(3) [OF wf] poll(2,3) dead
        by (auto simp: all_aborted_def streams_wf_def)
      with poll dead show ?thesis by (simp add: stream_poll_def)
    qed (use dead in simp_all)
  qed
  with g exec_ok [OF _ ex] show ?thesis by (auto simp: gone_def)
qed

interpretation gone: preserved "exec lib conn" "gone a v" for lib conn a v
  by unfold_locales (rule exec_gone)

end
