(* ===== verification/Server_Deadlines.thy ===== *)
theory Server_Deadlines
  imports Server_Events
begin

text \<open>
  Time. The deadline of the total timeout and that of the idle timeout, how they survive
  the events of a run, and the two instances of the interface \<open>until\<close> that bound the
  life of a session.
\<close>

section \<open>Deadlines\<close>

text \<open>
  A run is timely when the clock never passes the deadline of a sleeping task before
  that task has woken up: the runtime wakes its timers in time.
\<close>

fun timely :: "'u sys \<Rightarrow> event \<Rightarrow> bool" where
  "timely s (EvTick d) =
     list_all (\<lambda>t. case tasks (s_world s) t of None \<Rightarrow> True | Some (x, b) \<Rightarrow> clock (s_world s) + d \<le> x)
       [0..<next_task (s_world s)]"
| "timely s _ = True"

definition timely_run :: "http_lib \<Rightarrow> 'u connector \<Rightarrow> event list \<Rightarrow> 'u sys \<Rightarrow> bool" where
  "timely_run lib conn es s = list_all (\<lambda>(t, e). timely t e) (passed (exec lib conn) es s)"

definition total_deadline :: "nat \<Rightarrow> nat \<Rightarrow> 'u world \<Rightarrow> bool" where
  "total_deadline a D w \<longleftrightarrow>
     (case phase_of w a of
        Connecting _ tt _ \<Rightarrow> tasks w tt = Some (D, a)
      | Running s \<Rightarrow> (\<exists>t. total_timeout_task s = Some t \<and> tasks w t = Some (D, a))
      | _ \<Rightarrow> False)"

definition idle_deadline :: "nat \<Rightarrow> nat \<Rightarrow> 'u world \<Rightarrow> bool" where
  "idle_deadline a D w \<longleftrightarrow>
     (case phase_of w a of
        Running s \<Rightarrow> (\<exists>t. idle_timeout_task s = Some t \<and> tasks w t = Some (D, a))
      | _ \<Rightarrow> False)"

definition closed :: "nat \<Rightarrow> 'u sys \<Rightarrow> bool" where
  "closed a s \<longleftrightarrow> a < next_actor (s_world s) \<and> \<not> is_alive (s_world s) a"

lemma total_deadline_task: "total_deadline a D w \<Longrightarrow> \<exists>t. tasks w t = Some (D, a)"
  by (auto simp: total_deadline_def split: phase.splits)

lemma idle_deadline_task: "idle_deadline a D w \<Longrightarrow> \<exists>t. tasks w t = Some (D, a)"
  by (auto simp: idle_deadline_def split: phase.splits)

lemma timely_tick:
  assumes "timely s (EvTick d)" and "sys_ok s" and "tasks (s_world s) t = Some (x, b)"
  shows "clock (s_world s) + d \<le> x"
proof -
  have "t < next_task (s_world s)" using assms(2,3) wf_tasks by (auto simp: sys_ok_def)
  then have "t \<in> set [0..<next_task (s_world s)]" by simp
  with assms(1) have "case tasks (s_world s) t of None \<Rightarrow> True | Some (x, b) \<Rightarrow> clock (s_world s) + d \<le> x"
    unfolding timely.simps list_all_iff by (rule bspec)
  with assms(3) show ?thesis by simp
qed

lemma actor_handle_clock: "clock (actor_handle conn b w) = clock w"
  by (simp add: actor_handle_def handle_SessionRead_def handle_SessionWrite_def Let_def
      handle_SessionResetIdleTimeout_def reset_idle_timeout_def actor_timeout_def abort_task_def
      split: phase.splits list.splits message.splits option.splits sum.splits prod.splits)

lemma exec_clock:
  assumes ex: "exec lib conn e s = Some s'"
  shows "clock (s_world s') = clock (s_world s) + (case e of EvTick d \<Rightarrow> d | _ \<Rightarrow> 0)"
proof (cases e)
  case (EvRequest req)
  from exec_requestE [OF ex [unfolded EvRequest]] obtain rs where
      r: "request_begin lib req (s_world s) = (rs, s_world s')" by blast
  with request_begin_fields [OF r] EvRequest show ?thesis by simp
next
  case (EvResume rid)
  from exec_resumeE [OF ex [unfolded EvResume]] obtain rs rs' where
      r: "request_step rid rs (s_world s) = Some (rs', s_world s')" by blast
  with request_step_fields [OF r] EvResume show ?thesis by simp
next
  case (EvPoll n)
  obtain r w' where p: "stream_poll conn n (s_world s) = (r, w')" by fastforce
  with stream_poll_fields [OF p] EvPoll ex show ?thesis by (auto simp: on_world_def)
qed (use ex in \<open>auto simp: guarded_def on_world_def actor_handle_clock timer_fire_def timer_fire_in_write_def on_start_begin_def
      on_start_connect_def reset_idle_timeout_def session_drop_def abort_task_def abort_stream_def
      actor_timeout_def remove_session_def Let_def split: if_splits phase.splits option.splits sum.splits\<close>)

lemma exec_closed:
  assumes ok: "sys_ok s" and ex: "exec lib conn e s = Some s'" and cl: "closed a s"
  shows "closed a s'"
proof -
  have wf: "server_wf (s_world s)" using ok by (simp add: sys_ok_def)
  show ?thesis
  proof (cases "concerns (s_world s) e = Some a")
    case False
    from exec_untouched [OF wf ex this] cl show ?thesis by (auto simp: untouched_def closed_def is_alive_def)
  next
    case True
    with ex show ?thesis
    proof (cases rule: concernedE)
      case (timer t d)
      with cl show ?thesis by (simp add: closed_def)
    next
      case (drop ss)
      with cl session_drop_fields [OF drop(2) refl] show ?thesis by (simp add: closed_def is_alive_def)
    next
      case (poll n st r)
      with cl stream_poll_fields [OF poll(4)] show ?thesis by (simp add: closed_def is_alive_def)
    qed (use cl in \<open>simp_all add: closed_def is_alive_def\<close>)
  qed
qed

text \<open>A deadline stays until its task wakes up or its owner stops.\<close>

lemma exec_timer_closes:
  assumes ok: "sys_ok s" and ex: "exec lib conn (EvTimer t) s = Some s'"
    and t: "tasks (s_world s) t = Some (d, a)"
  shows "closed a s'"
proof -
  have "s_world s' = close_actor a ((s_world s)\<lparr>tasks := (tasks (s_world s))(t := None)\<rparr>)"
    using ex t by (auto simp: guarded_def on_world_def timer_fire_def split: if_splits)
  with ok t wf_tasks [of "s_world s" t d a] show ?thesis by (simp add: closed_def sys_ok_def)
qed

lemma exec_total_deadline:
  assumes ok: "sys_ok s" and ex: "exec lib conn e s = Some s'" and tot: "total_deadline a D (s_world s)"
  shows "total_deadline a D (s_world s') \<or> closed a s'"
proof -
  have wf: "server_wf (s_world s)" using ok by (simp add: sys_ok_def)
  have lt: "a < next_actor (s_world s)"
    using total_deadline_task [OF tot] wf_tasks [OF wf] by blast
  show ?thesis
  proof (cases "concerns (s_world s) e = Some a")
    case False
    from exec_untouched [OF wf ex this] tot lt show ?thesis
      by (auto simp: untouched_def total_deadline_def split: phase.splits)
  next
    case True
    with ex show ?thesis
    proof (cases rule: concernedE)
      case (connected args tt it v)
      have "tt \<noteq> it" "tt < next_task (s_world s)"
        using server_wfD(1) [OF wf, of a] connected(2) wf_tasks [OF wf] by (auto simp: timers_ok_def task_for_iff)
      with tot connected(2) on_start_connect_fields [OF connected(2-4)] show ?thesis
        by (simp add: total_deadline_def abort_task_def)
    next
      case (read ss slot q)
      note f = actor_handle_read [OF read(2-4)]
      from f(1) tot read(2) show ?thesis by (auto simp: f(4) total_deadline_def)
    next
      case (writes ss bs slot q r u')
      note f = actor_handle_write [OF writes(2-5)]
      from tot lt writes(2) show ?thesis by (simp add: f total_deadline_def closed_def is_alive_def)
    next
      case (reset ss slot q)
      note f = actor_handle_reset [OF reset(2-4)]
      from tot reset(2) obtain t where t: "total_timeout_task ss = Some t" "tasks (s_world s) t = Some (D, a)"
        by (auto simp: total_deadline_def)
      have "idle_timeout_task ss \<noteq> Some t" "t < next_task (s_world s)"
        using server_wfD(1) [OF wf, of a] reset(2) t wf_tasks [OF wf] by (auto simp: timers_ok_def)
      with t show ?thesis by (simp add: f total_deadline_def abort_task_def split: option.splits)
    next
      case (timer t d)
      from exec_timer_closes [OF ok ex [unfolded timer(1)] timer(2)] show ?thesis by simp
    next
      case (cut t k d ss bs slot q r u')
      with lt show ?thesis by (simp add: closed_def)
    next
      case (poll n st r)
      with tot stream_poll_fields(1,2) [OF poll(4)] show ?thesis by (auto simp: total_deadline_def split: phase.splits)
    qed (use tot lt in \<open>simp_all add: total_deadline_def closed_def is_alive_def\<close>)
  qed
qed

lemma exec_idle_deadline:
  assumes ok: "sys_ok s" and ex: "exec lib conn e s = Some s'" and idl: "idle_deadline a D (s_world s)"
    and no: "e \<noteq> EvHandle a"
  shows "idle_deadline a D (s_world s') \<or> closed a s'"
proof -
  have wf: "server_wf (s_world s)" using ok by (simp add: sys_ok_def)
  have lt: "a < next_actor (s_world s)"
    using idle_deadline_task [OF idl] wf_tasks [OF wf] by blast
  show ?thesis
  proof (cases "concerns (s_world s) e = Some a")
    case False
    from exec_untouched [OF wf ex this] idl lt show ?thesis
      by (auto simp: untouched_def idle_deadline_def split: phase.splits)
  next
    case True
    with ex show ?thesis
    proof (cases rule: concernedE)
      case (timer t d)
      from exec_timer_closes [OF ok ex [unfolded timer(1)] timer(2)] show ?thesis by simp
    next
      case (cut t k d ss bs slot q r u')
      with lt show ?thesis by (simp add: closed_def)
    next
      case (poll n st r)
      with idl stream_poll_fields(1,2) [OF poll(4)] show ?thesis by (auto simp: idle_deadline_def split: phase.splits)
    qed (use idl no in \<open>simp_all add: idle_deadline_def\<close>)
  qed
qed

lemma deadline_ahead:
  assumes ok: "sys_ok s" and ti: "timely s e" and ex: "exec lib conn e s = Some s'"
    and t: "tasks (s_world s) t = Some (D, a)" and le: "clock (s_world s) \<le> D"
  shows "clock (s_world s') \<le> D"
  using exec_clock [OF ex] le timely_tick [OF _ ok t] ti by (cases e) auto

interpretation total: until "exec lib conn" sys_ok
    "\<lambda>s. total_deadline a D (s_world s) \<and> clock (s_world s) \<le> D" "closed a" timely
  for lib conn a D
proof
  fix s e s' assume "sys_ok s" "timely s e" "exec lib conn e s = Some s'"
    "total_deadline a D (s_world s) \<and> clock (s_world s) \<le> D"
  then show "(total_deadline a D (s_world s') \<and> clock (s_world s') \<le> D) \<or> closed a s'"
    using exec_total_deadline deadline_ahead total_deadline_task by metis
qed (rule exec_closed)

interpretation idle: until "exec lib conn" sys_ok
    "\<lambda>s. idle_deadline a D (s_world s) \<and> clock (s_world s) \<le> D" "closed a"
    "\<lambda>s e. timely s e \<and> e \<noteq> EvHandle a"
  for lib conn a D
proof
  fix s e s' assume "sys_ok s" "timely s e \<and> e \<noteq> EvHandle a" "exec lib conn e s = Some s'"
    "idle_deadline a D (s_world s) \<and> clock (s_world s) \<le> D"
  then show "(idle_deadline a D (s_world s') \<and> clock (s_world s') \<le> D) \<or> closed a s'"
    using exec_idle_deadline deadline_ahead idle_deadline_task by metis
qed (rule exec_closed)

text \<open>From its start on, a session has its total deadline ahead, or has ended.\<close>

lemma start_deadline:
  assumes ok: "sys_ok s" and sp: "phase_of (s_world s) a = Spawned args"
    and st: "exec lib conn (EvStart a) s = Some s1" and ru: "run (exec lib conn) es s1 = Some s2"
    and ti: "timely_run lib conn es s1"
  shows "clock (s_world s2) \<le> clock (s_world s) + a_total_timeout args \<or> closed a s2"
proof -
  let ?D = "clock (s_world s) + a_total_timeout args"
  have w1: "s_world s1 = on_start_begin a (s_world s)" using st sp by (auto simp: guarded_def on_world_def)
  have "total_deadline a ?D (s_world s1) \<and> clock (s_world s1) \<le> ?D"
    using on_start_begin_fields [OF sp refl] by (simp add: w1 total_deadline_def)
  then have "(total_deadline a ?D (s_world s2) \<and> clock (s_world s2) \<le> ?D) \<or> closed a s2"
    using total.run_until [of s1 a ?D lib conn es s2] exec_ok [OF ok st] ru ti
    by (auto simp: timely_run_def list_all_iff)
  then show ?thesis by blast
qed

end
