(* ===== verification/Server_Stats.thy ===== *)
theory Server_Stats
  imports Server_Events
begin

text \<open>
  The traffic counters over a run: what request tasks and response streams add to them
  and what the two swaps of \<^verbatim>\<open>Server::take_stats\<close> take out, as two instances of the
  interface \<open>observed\<close>.
\<close>

section \<open>Counters\<close>

text \<open>
  The bytes a request task counts as transmitted, when it is resumed with the reply to a
  \<^verbatim>\<open>SessionWrite\<close>, and the bytes a stream counts as received, when it is polled.
\<close>

fun acked_bytes :: "'u sys \<Rightarrow> event \<Rightarrow> u64" where
  "acked_bytes s (EvResume rid) =
     (case s_reqs s rid of
        Some (ReqWriteWait a n tot ds) \<Rightarrow> if replies (s_world s) rid = Some WriteReply then word_of_nat n else 0
      | _ \<Rightarrow> 0)"
| "acked_bytes s _ = 0"

fun polled_bytes :: "'u connector \<Rightarrow> 'u sys \<Rightarrow> event \<Rightarrow> u64" where
  "polled_bytes conn s (EvPoll n) =
     (case streams (s_world s) n of
        None \<Rightarrow> 0
      | Some st \<Rightarrow>
          if st_aborted st \<or> st_tell st \<noteq> None then 0
          else (case fst (c_read_buf conn (the (upstreams (s_world s) (st_reader st))) READ_CAPACITY) of
                  Ready (Inr bs) \<Rightarrow> word_of_nat (length bs)
                | _ \<Rightarrow> 0))"
| "polled_bytes conn s _ = 0"

fun taken_tx :: "'u sys \<Rightarrow> event \<Rightarrow> u64" where
  "taken_tx s EvTakeTx = fst (swap_bytes_tx (w_stats (s_world s)))"
| "taken_tx s _ = 0"

fun taken_rx :: "'u sys \<Rightarrow> event \<Rightarrow> u64" where
  "taken_rx s EvTakeRx = fst (swap_bytes_rx (w_stats (s_world s)))"
| "taken_rx s _ = 0"

lemma request_step_stats:
  assumes "request_step rid rs w = Some (rs', w')"
  shows "w_stats w' = (case rs of
      ReqWriteWait a n tot ds \<Rightarrow> if replies w rid = Some WriteReply then add_tx n (w_stats w) else w_stats w
    | _ \<Rightarrow> w_stats w)"
  using assms
  by (induction rid rs w rule: request_step.induct)
     (auto simp: take_reply_def Let_def split: if_splits option.splits reply.splits)

lemma stream_poll_stats:
  assumes "stream_poll conn n w = (r, w')"
  shows "w_stats w' =
     (case streams w n of
        None \<Rightarrow> w_stats w
      | Some st \<Rightarrow>
          if st_aborted st \<or> st_tell st \<noteq> None then w_stats w
          else (case fst (c_read_buf conn (the (upstreams w (st_reader st))) READ_CAPACITY) of
                  Ready (Inr bs) \<Rightarrow> add_rx (length bs) (w_stats w)
                | _ \<Rightarrow> w_stats w))"
  using assms
  by (auto simp: stream_poll_def Let_def add_rx_def dest: stream_tell_fields(7)
      split: option.splits if_splits prod.splits poll.splits sum.splits)

lemma actor_ops_stats [simp]:
  "w_stats (actor_handle conn b w) = w_stats w" "w_stats (timer_fire t w) = w_stats w"
  "w_stats (on_start_begin b w) = w_stats w" "w_stats (on_start_connect conn b w) = w_stats w"
  "w_stats (session_drop b w) = w_stats w" "w_stats (timer_fire_in_write conn k t w) = w_stats w"
  by (simp_all add: actor_handle_def handle_SessionRead_def handle_SessionWrite_def Let_def
      handle_SessionResetIdleTimeout_def reset_idle_timeout_def actor_timeout_def abort_task_def
      timer_fire_def timer_fire_in_write_def on_start_begin_def on_start_connect_def session_drop_def abort_stream_def
      remove_session_def
      split: phase.splits list.splits message.splits option.splits sum.splits prod.splits)

lemma exec_stats:
  assumes ex: "exec lib conn e s = Some s'"
  shows "bytes_tx (w_stats (s_world s')) + taken_tx s e = bytes_tx (w_stats (s_world s)) + acked_bytes s e"
    and "bytes_rx (w_stats (s_world s')) + taken_rx s e = bytes_rx (w_stats (s_world s)) + polled_bytes conn s e"
proof -
  have "bytes_tx (w_stats (s_world s')) + taken_tx s e = bytes_tx (w_stats (s_world s)) + acked_bytes s e \<and>
    bytes_rx (w_stats (s_world s')) + taken_rx s e = bytes_rx (w_stats (s_world s)) + polled_bytes conn s e"
  proof (cases e)
    case (EvRequest req)
    from exec_requestE [OF ex [unfolded EvRequest]] obtain rs where
        r: "request_begin lib req (s_world s) = (rs, s_world s')" by blast
    with request_begin_fields [OF r] EvRequest show ?thesis by simp
  next
    case (EvResume rid)
    from exec_resumeE [OF ex [unfolded EvResume]] obtain rs rs' where
        rs: "s_reqs s rid = Some rs" and r: "request_step rid rs (s_world s) = Some (rs', s_world s')" by blast
    with request_step_stats [OF r] EvResume rs show ?thesis
      by (auto simp: add_tx_def fetch_add_def split: req_state.splits)
  next
    case (EvPoll n)
    obtain r w' where p: "stream_poll conn n (s_world s) = (r, w')" by fastforce
    with EvPoll ex have "s_world s' = w'" by (auto simp: on_world_def)
    with EvPoll stream_poll_stats [OF p] show ?thesis
      by (auto simp: add_rx_def fetch_add_def split: option.splits poll.splits sum.splits)
  qed (use ex in \<open>auto simp: guarded_def on_world_def swap_bytes_tx_def swap_bytes_rx_def split: if_splits\<close>)
  then show "bytes_tx (w_stats (s_world s')) + taken_tx s e = bytes_tx (w_stats (s_world s)) + acked_bytes s e"
    and "bytes_rx (w_stats (s_world s')) + taken_rx s e = bytes_rx (w_stats (s_world s)) + polled_bytes conn s e"
    by simp_all
qed

interpretation tx: observed "exec lib conn" "\<lambda>s. bytes_tx (w_stats (s_world s))" acked_bytes taken_tx for lib conn
  by unfold_locales (rule exec_stats(1))

interpretation rx: observed "exec lib conn" "\<lambda>s. bytes_rx (w_stats (s_world s))" "polled_bytes conn" taken_rx
  for lib conn
  by unfold_locales (rule exec_stats(2))

definition over_run :: "('s \<Rightarrow> event \<Rightarrow> u64) \<Rightarrow> ('s \<times> event) list \<Rightarrow> u64" where
  "over_run f ps = sum_list (map (\<lambda>(s, e). f s e) ps)"

end
