(* ===== verification/Server_Sequential.thy ===== *)
theory Server_Sequential
  imports Server_Requests
begin

text \<open>
  Undisturbed requests: what \<open>handle_request\<close> answers and what it does to the world when
  no other task runs in between. \<open>ready w a\<close> says that the session actor \<open>a\<close> has
  started and has answered everything; \<open>frame_except a w w'\<close> that a change of the world
  is confined to actor \<open>a\<close>, its connection, its timers and the reply slots.
\<close>

section \<open>Ready actors and framed changes\<close>

definition ready :: "'u world \<Rightarrow> nat \<Rightarrow> bool" where
  "ready w a \<longleftrightarrow>
     (case phase_of w a of
        Running s \<Rightarrow> upstream_write s = a \<and> upstream_read s = a
      | _ \<Rightarrow> False) \<and>
     mail_of w a = [] \<and> upstreams w a \<noteq> None \<and> 0 < mailbox_cap w"

definition frame_except :: "nat \<Rightarrow> 'u world \<Rightarrow> 'u world \<Rightarrow> bool" where
  "frame_except a w w' \<longleftrightarrow>
     w_config w' = w_config w \<and> sessions w' = sessions w \<and> server_alive w' = server_alive w \<and>
     clock w' = clock w \<and> next_actor w' = next_actor w \<and> mailbox_cap w' = mailbox_cap w \<and>
     (\<forall>b. b \<noteq> a \<longrightarrow> phase_of w' b = phase_of w b \<and> mail_of w' b = mail_of w b \<and>
        upstreams w' b = upstreams w b \<and> read_locks w' b = read_locks w b)"

lemma frame_except_refl [simp]: "frame_except a w w"
  by (simp add: frame_except_def)

lemma frame_except_trans [trans]:
  "frame_except a w w1 \<Longrightarrow> frame_except a w1 w2 \<Longrightarrow> frame_except a w w2"
  by (simp add: frame_except_def)

lemma frame_except_sessions: "frame_except a w w' \<Longrightarrow> sessions w' = sessions w"
  by (simp add: frame_except_def)

lemma frame_except_upstreams:
  "frame_except a w w' \<Longrightarrow> b \<noteq> a \<Longrightarrow> upstreams w' b = upstreams w b"
  by (simp add: frame_except_def)

lemma frame_except_stats [simp]: "frame_except a w (w'\<lparr>w_stats := s\<rparr>) = frame_except a w w'"
  by (simp add: frame_except_def)

lemma frame_except_take_reply [simp]: "frame_except a w (take_reply r w') = frame_except a w w'"
  by (simp add: frame_except_def take_reply_def)

lemma ready_take_reply [simp]: "ready (take_reply r w) a = ready w a"
  by (simp add: ready_def take_reply_def)

lemma take_reply_fields [simp]:
  "w_stats (take_reply r w) = w_stats w" "upstreams (take_reply r w) = upstreams w"
  "streams (take_reply r w) = streams w" "read_locks (take_reply r w) = read_locks w"
  "phase_of (take_reply r w) = phase_of w" "next_stream (take_reply r w) = next_stream w"
  "mail_of (take_reply r w) = mail_of w" "sessions (take_reply r w) = sessions w"
  "w_config (take_reply r w) = w_config w" "mailbox_cap (take_reply r w) = mailbox_cap w"
  "tasks (take_reply r w) = tasks w" "clock (take_reply r w) = clock w"
  by (simp_all add: take_reply_def)

lemma ready_stats [simp]: "ready (w\<lparr>w_stats := s\<rparr>) a = ready w a"
  by (simp add: ready_def)

lemma readyE:
  assumes "ready w a"
  obtains s v where "phase_of w a = Running s" "upstream_write s = a" "upstream_read s = a"
    "mail_of w a = []" "upstreams w a = Some v" "0 < mailbox_cap w"
  using assms by (auto simp: ready_def split: phase.splits)

lemma ready_alive: "ready w a \<Longrightarrow> is_alive w a"
  by (auto elim!: readyE simp: is_alive_def)

section \<open>Asking a ready session\<close>

lemmas run_actor_unfold = run_actor.simps [of conn a w for conn a w]

lemma run_actor_quiet: "phase_of w a = Running s \<Longrightarrow> mail_of w a = [] \<Longrightarrow> run_actor conn a w = w"
  by (simp add: run_actor.simps)

lemma run_actor_turn:
  "phase_of w a = Running s \<Longrightarrow> mail_of w a \<noteq> [] \<Longrightarrow>
   run_actor conn a w = run_actor conn a (actor_handle conn a w)"
  by (simp add: run_actor.simps [of conn a w])

lemma run_actor_closed: "\<not> is_alive w a \<Longrightarrow> run_actor conn a w = w"
  by (cases "phase_of w a") (simp_all add: run_actor.simps is_alive_def)

text \<open>The reset message a successful write has left behind.\<close>

lemma run_actor_reset:
  assumes "phase_of w a = Running s" and "mail_of w a = [(SessionResetIdleTimeout, None)]"
  shows "phase_of (run_actor conn a w) a = Running (s\<lparr>idle_timeout_task := Some (next_task w)\<rparr>)"
    and "mail_of (run_actor conn a w) a = []" and "frame_except a w (run_actor conn a w)"
    and "upstreams (run_actor conn a w) = upstreams w" and "w_stats (run_actor conn a w) = w_stats w"
    and "replies (run_actor conn a w) = replies w" and "streams (run_actor conn a w) = streams w"
    and "read_locks (run_actor conn a w) = read_locks w"
    and "next_stream (run_actor conn a w) = next_stream w"
    and "tasks (run_actor conn a w) (next_task w) = Some (clock w + s_idle_timeout s, a)"
proof -
  define w1 where "w1 = actor_handle conn a w"
  note d = w1_def actor_handle_def handle_SessionResetIdleTimeout_def reset_idle_timeout_def
    actor_timeout_def abort_task_def Let_def
  have ph: "phase_of w1 a = Running (s\<lparr>idle_timeout_task := Some (next_task w)\<rparr>)" "mail_of w1 a = []"
    using assms by (simp_all add: d split: option.splits)
  have f: "frame_except a w w1" "upstreams w1 = upstreams w" "w_stats w1 = w_stats w"
    "replies w1 = replies w" "streams w1 = streams w" "read_locks w1 = read_locks w"
    "next_stream w1 = next_stream w" "tasks w1 (next_task w) = Some (clock w + s_idle_timeout s, a)"
    using assms by (simp_all add: d frame_except_def split: option.splits)
  have "run_actor conn a w = w1"
    using assms ph by (simp add: run_actor_turn run_actor_quiet flip: w1_def)
  with ph f show "phase_of (run_actor conn a w) a = Running (s\<lparr>idle_timeout_task := Some (next_task w)\<rparr>)"
    and "mail_of (run_actor conn a w) a = []" and "frame_except a w (run_actor conn a w)"
    and "upstreams (run_actor conn a w) = upstreams w" and "w_stats (run_actor conn a w) = w_stats w"
    and "replies (run_actor conn a w) = replies w" and "streams (run_actor conn a w) = streams w"
    and "read_locks (run_actor conn a w) = read_locks w"
    and "next_stream (run_actor conn a w) = next_stream w"
    and "tasks (run_actor conn a w) (next_task w) = Some (clock w + s_idle_timeout s, a)"
    by simp_all
qed

lemma ask_write_ok:
  assumes r: "ready w a" and v: "upstreams w a = Some v"
    and ok: "c_write_all conn v d = (Ok x, v')"
  shows "\<exists>w'. ask conn rid a (SessionWrite d) w = (Some WriteReply, w') \<and> ready w' a \<and>
     frame_except a w w' \<and> upstreams w' = (upstreams w)(a \<mapsto> v') \<and> w_stats w' = w_stats w \<and>
     streams w' = streams w \<and> read_locks w' = read_locks w \<and> next_stream w' = next_stream w"
proof -
  from r obtain s where s: "phase_of w a = Running s" "upstream_write s = a" "upstream_read s = a"
      "mail_of w a = []" "0 < mailbox_cap w"
    by (auto elim: readyE)
  let ?w0 = "enqueue a (SessionWrite d, Some rid) w"
  let ?w1 = "actor_handle conn a ?w0"
  have 1: "run_actor conn a ?w0 = run_actor conn a ?w1"
    using s by (simp add: run_actor_turn)
  have full: "\<not> mailbox_cap w \<le> 0" using s by simp
  have w1: "phase_of ?w1 a = Running s" "mail_of ?w1 a = [(SessionResetIdleTimeout, None)]"
      "upstreams ?w1 = (upstreams w)(a \<mapsto> v')" "w_stats ?w1 = w_stats w"
      "replies ?w1 rid = Some WriteReply" "frame_except a w ?w1"
      "streams ?w1 = streams w" "read_locks ?w1 = read_locks w" "next_stream ?w1 = next_stream w"
    using s v ok full
    by (simp_all add: actor_handle_def handle_SessionWrite_def try_send_def is_alive_def
        mailbox_full_def send_reply_def frame_except_def Let_def)
  define w2 where "w2 = run_actor conn a ?w1"
  note w2 = run_actor_reset [OF w1(1,2), of conn, folded w2_def]
  have fr: "frame_except a w w2" using w1(6) w2(3) by (rule frame_except_trans)
  have cap: "mailbox_cap w2 = mailbox_cap w" using fr by (simp add: frame_except_def)
  have "ready w2 a" using w2 s w1 cap by (simp add: ready_def)
  moreover have "is_alive w a" using s by (simp add: is_alive_def)
  ultimately show ?thesis
    using 1 w2 w1 fr by (simp add: ask_def flip: w2_def)
qed

text \<open>A failed upstream write stops the session; the answer is the same.\<close>

lemma ask_write_err:
  assumes r: "ready w a" and v: "upstreams w a = Some v"
    and err: "c_write_all conn v d = (Err e, v')"
  shows "\<exists>w' s. ask conn rid a (SessionWrite d) w = (Some WriteReply, w') \<and>
     phase_of w' a = Closing s \<and> frame_except a w w' \<and>
     upstreams w' = (upstreams w)(a \<mapsto> v') \<and> w_stats w' = w_stats w"
proof -
  from r obtain s where s: "phase_of w a = Running s" "upstream_write s = a" "mail_of w a = []"
    by (auto elim: readyE)
  let ?w0 = "enqueue a (SessionWrite d, Some rid) w"
  let ?w1 = "actor_handle conn a ?w0"
  have w1: "phase_of ?w1 a = Closing s" "upstreams ?w1 = (upstreams w)(a \<mapsto> v')"
      "w_stats ?w1 = w_stats w" "replies ?w1 rid = Some WriteReply" "frame_except a w ?w1"
    using s v err
    by (simp_all add: actor_handle_def handle_SessionWrite_def close_actor_def send_reply_def
        frame_except_def Let_def)
  have "run_actor conn a ?w0 = ?w1"
    using s w1(1) by (simp add: run_actor_turn run_actor_closed is_alive_def)
  then show ?thesis
    using w1 s by (simp add: ask_def is_alive_def)
qed

abbreviation fresh_stream :: "nat \<Rightarrow> stream_state" where
  "fresh_stream a \<equiv>
     \<lparr>st_reader = a, st_session = a, st_first = True, st_reading = False, st_tell = None,
      st_aborted = False\<rparr>"

lemma ask_turn:
  assumes "phase_of w a = Running s" "mail_of w a = []"
    and "actor_handle conn a (enqueue a (m, Some rid) w) = w1"
    and "phase_of w1 a = Running s'" "mail_of w1 a = []"
  shows "ask conn rid a m w = (replies w1 rid, take_reply rid w1)"
  using assms by (simp add: ask_def is_alive_def run_actor_turn run_actor_quiet Let_def)

lemma ask_read_free:
  assumes r: "ready w a" and free: "read_locks w a = None"
  shows "\<exists>w'. ask conn rid a SessionRead w = (Some (ReadReply (Some (next_stream w))), w') \<and>
     ready w' a \<and> frame_except a w w' \<and> upstreams w' = upstreams w \<and> w_stats w' = w_stats w \<and>
     read_locks w' = (read_locks w)(a \<mapsto> next_stream w) \<and>
     streams w' = (streams w)(next_stream w \<mapsto> fresh_stream a) \<and> next_stream w' = Suc (next_stream w)"
proof -
  from r obtain s v where s: "phase_of w a = Running s" "upstream_write s = a" "upstream_read s = a"
      "mail_of w a = []" "upstreams w a = Some v" "0 < mailbox_cap w"
    by (rule readyE)
  let ?w0 = "enqueue a (SessionRead, Some rid) w"
  define w1 where "w1 = actor_handle conn a ?w0"
  note d = w1_def actor_handle_def handle_SessionRead_def send_reply_def Let_def
  have ph: "phase_of w1 a = Running (s\<lparr>upstream_read_abort := Some (next_stream w)\<rparr>)" "mail_of w1 a = []"
    using s free by (simp_all add: d)
  have f: "upstreams w1 = upstreams w" "w_stats w1 = w_stats w" "frame_except a w w1"
      "replies w1 rid = Some (ReadReply (Some (next_stream w)))"
      "read_locks w1 = (read_locks w)(a \<mapsto> next_stream w)"
      "streams w1 = (streams w)(next_stream w \<mapsto> fresh_stream a)" "mailbox_cap w1 = mailbox_cap w"
      "next_stream w1 = Suc (next_stream w)"
    using s free by (simp_all add: d frame_except_def)
  have "ask conn rid a SessionRead w = (replies w1 rid, take_reply rid w1)"
    using s(1,4) w1_def [symmetric] ph by (rule ask_turn)
  moreover have "ready w1 a" using ph s f by (simp add: ready_def)
  ultimately show ?thesis using f by simp
qed

lemma ask_read_locked:
  assumes r: "ready w a" and locked: "read_locks w a = Some n"
  shows "\<exists>w'. ask conn rid a SessionRead w = (Some (ReadReply None), w') \<and>
     ready w' a \<and> frame_except a w w' \<and> upstreams w' = upstreams w \<and> w_stats w' = w_stats w \<and>
     read_locks w' = read_locks w \<and> streams w' = streams w"
proof -
  from r obtain s v where s: "phase_of w a = Running s" "upstream_write s = a" "upstream_read s = a"
      "mail_of w a = []" "upstreams w a = Some v" "0 < mailbox_cap w"
    by (rule readyE)
  let ?w0 = "enqueue a (SessionRead, Some rid) w"
  define w1 where "w1 = actor_handle conn a ?w0"
  note d = w1_def actor_handle_def handle_SessionRead_def send_reply_def Let_def
  have ph: "phase_of w1 a = Running s" "mail_of w1 a = []"
    using s locked by (simp_all add: d)
  have f: "upstreams w1 = upstreams w" "w_stats w1 = w_stats w" "frame_except a w w1"
      "replies w1 rid = Some (ReadReply None)" "read_locks w1 = read_locks w"
      "streams w1 = streams w" "mailbox_cap w1 = mailbox_cap w"
    using s locked by (simp_all add: d frame_except_def)
  have "ask conn rid a SessionRead w = (replies w1 rid, take_reply rid w1)"
    using s(1,4) w1_def [symmetric] ph by (rule ask_turn)
  moreover have "ready w1 a" using ph s f by (simp add: ready_def)
  ultimately show ?thesis using f by simp
qed

section \<open>Starting a session on demand\<close>

definition start_actor :: "'u connector \<Rightarrow> nat \<Rightarrow> 'u world \<Rightarrow> 'u world" where
  "start_actor conn a w = on_start_connect conn a (on_start_begin a w)"

lemma on_start_begin_enqueue:
  "phase_of w a = Spawned args \<Longrightarrow>
   on_start_begin a (enqueue a m w) = enqueue a m (on_start_begin a w)"
  by (simp add: on_start_begin_def actor_timeout_def enqueue_def set_actor_outward Let_def)

lemma on_start_connect_enqueue:
  assumes "phase_of w a = Connecting args tt it" and "c_connect conn a (a_upstream args) = Ok v"
  shows "on_start_connect conn a (enqueue a m w) = enqueue a m (on_start_connect conn a w)"
  using assms
  by (simp add: on_start_connect_def reset_idle_timeout_def actor_timeout_def abort_task_def
      enqueue_def set_actor_outward Let_def)

lemma run_actor_Spawned:
  assumes "phase_of w a = Spawned args"
  shows "run_actor conn a w = run_actor conn a (start_actor conn a w)"
proof -
  obtain tt it where "phase_of (on_start_begin a w) a = Connecting args tt it"
    using on_start_begin_phase(1) [OF assms] by blast
  with assms show ?thesis
    by (simp add: run_actor.simps [of conn a w] run_actor.simps [of conn a "on_start_begin a w"]
        start_actor_def)
qed

lemma start_actor_ok:
  assumes sp: "phase_of w a = Spawned args" and ok: "c_connect conn a (a_upstream args) = Ok v"
    and q: "mail_of w a = []" and cap: "0 < mailbox_cap w"
  shows "ready (start_actor conn a w) a" and "frame_except a w (start_actor conn a w)"
    and "upstreams (start_actor conn a w) = (upstreams w)(a \<mapsto> v)"
    and "w_stats (start_actor conn a w) = w_stats w" and "streams (start_actor conn a w) = streams w"
    and "read_locks (start_actor conn a w) = (read_locks w)(a := None)"
    and "next_stream (start_actor conn a w) = next_stream w"
  using assms
  by (simp_all add: start_actor_def on_start_begin_def on_start_connect_def reset_idle_timeout_def
      actor_timeout_def abort_task_def ready_def frame_except_def Let_def)

lemma ask_Spawned:
  assumes sp: "phase_of w a = Spawned args" and ok: "c_connect conn a (a_upstream args) = Ok v"
  shows "ask conn rid a m w = ask conn rid a m (start_actor conn a w)"
proof -
  let ?m = "(m, Some rid)"
  obtain tt it where c: "phase_of (on_start_begin a w) a = Connecting args tt it"
    using on_start_begin_phase(1) [OF sp] by blast
  have "start_actor conn a (enqueue a ?m w) = enqueue a ?m (start_actor conn a w)"
    unfolding start_actor_def
    using sp c ok by (simp add: on_start_begin_enqueue on_start_connect_enqueue)
  moreover have "run_actor conn a (enqueue a ?m w) = run_actor conn a (start_actor conn a (enqueue a ?m w))"
    using sp by (simp add: run_actor_Spawned)
  moreover obtain s where "phase_of (start_actor conn a w) a = Running s"
    using c ok unfolding start_actor_def
    by (simp add: on_start_connect_def reset_idle_timeout_def actor_timeout_def Let_def)
  ultimately show ?thesis
    using sp by (simp add: ask_def is_alive_def)
qed

text \<open>A failed connection: the actor is dead and every request to it fails.\<close>

lemma ask_Spawned_err:
  assumes sp: "phase_of w a = Spawned args" and err: "c_connect conn a (a_upstream args) = Err e"
    and slot: "replies w rid = None"
  shows "\<exists>w'. ask conn rid a m w = (None, w') \<and> phase_of w' a = Dead \<and> frame_except a w w' \<and>
    upstreams w' = upstreams w \<and> w_stats w' = w_stats w"
proof -
  let ?w0 = "enqueue a (m, Some rid) w"
  define w1 where "w1 = start_actor conn a ?w0"
  have f: "phase_of w1 a = Dead" "frame_except a w w1" "upstreams w1 = upstreams w"
      "w_stats w1 = w_stats w" "replies w1 = replies w"
    using sp err
    by (simp_all add: w1_def start_actor_def on_start_begin_def on_start_connect_def
        actor_timeout_def frame_except_def Let_def)
  have "run_actor conn a ?w0 = run_actor conn a w1"
    using sp by (simp add: run_actor_Spawned w1_def)
  also have "\<dots> = w1" using f by (simp add: run_actor_closed is_alive_def)
  finally show ?thesis
    using sp f slot by (simp add: ask_def is_alive_def)
qed

section \<open>Write requests\<close>

text \<open>Writing the chunks one after the other; \<open>None\<close> when one of the writes fails.\<close>

fun write_seq :: "'u connector \<Rightarrow> 'u \<Rightarrow> bytes list \<Rightarrow> 'u option" where
  "write_seq conn v [] = Some v"
| "write_seq conn v (d # ds) =
     (case c_write_all conn v d of (Inl e, v') \<Rightarrow> None | (Inr x, v') \<Rightarrow> write_seq conn v' ds)"

lemma write_loop_ok:
  assumes "ready w a" and "upstreams w a = Some v" and "write_seq conn v ds = Some v'"
  shows "\<exists>w'. write_loop conn rid a tot (map Ok ds) w
              = (Ok (tot + word_of_nat (length (concat ds))), w') \<and>
     ready w' a \<and> frame_except a w w' \<and> upstreams w' = (upstreams w)(a \<mapsto> v') \<and>
     w_stats w' = add_tx (length (concat ds)) (w_stats w) \<and>
     streams w' = streams w \<and> read_locks w' = read_locks w \<and> next_stream w' = next_stream w"
  using assms
proof (induction ds arbitrary: w v tot)
  case Nil
  then show ?case by (auto simp: add_tx_def fun_eq_iff)
next
  case (Cons d ds)
  from Cons.prems(3) obtain x v1 where wr: "c_write_all conn v d = (Ok x, v1)"
      and rest: "write_seq conn v1 ds = Some v'"
    by (auto split: prod.splits sum.splits)
  from ask_write_ok [OF Cons.prems(1,2) wr, of rid] obtain w1 where w1:
      "ask conn rid a (SessionWrite d) w = (Some WriteReply, w1)" "ready w1 a" "frame_except a w w1"
      "upstreams w1 = (upstreams w)(a \<mapsto> v1)" "w_stats w1 = w_stats w"
      "streams w1 = streams w" "read_locks w1 = read_locks w" "next_stream w1 = next_stream w"
    by blast
  let ?w1 = "w1\<lparr>w_stats := add_tx (length d) (w_stats w1)\<rparr>"
  have "ready ?w1 a" "upstreams ?w1 a = Some v1"
    using w1 by simp_all
  from Cons.IH [OF this rest, of "tot + word_of_nat (length d)"] obtain w2 where w2:
      "write_loop conn rid a (tot + word_of_nat (length d)) (map Ok ds) ?w1 =
         (Ok (tot + word_of_nat (length d) + word_of_nat (length (concat ds))), w2)"
      "ready w2 a" "frame_except a ?w1 w2" "upstreams w2 = (upstreams ?w1)(a \<mapsto> v')"
      "w_stats w2 = add_tx (length (concat ds)) (w_stats ?w1)"
      "streams w2 = streams ?w1" "read_locks w2 = read_locks ?w1" "next_stream w2 = next_stream ?w1"
    by blast
  have "frame_except a w ?w1" using w1(3) by simp
  then have "frame_except a w w2" using w2(3) by (rule frame_except_trans)
  with w1 w2 show ?case
    by (simp add: add_tx_def fetch_add_add add.assoc fun_eq_iff)
qed

lemma write_loop_ask_cong:
  assumes "\<And>d. ask conn rid a (SessionWrite d) w = ask conn rid a (SessionWrite d) w'"
    and "ds \<noteq> []"
  shows "write_loop conn rid a tot (map Ok ds) w = write_loop conn rid a tot (map Ok ds) w'"
  using assms by (cases ds) simp_all

section \<open>Whole requests\<close>

text \<open>
  The session a request is served by, and the world in which that session has started.
\<close>

definition resolve :: "'u connector \<Rightarrow> bool \<Rightarrow> uuid \<Rightarrow> 'u world \<Rightarrow> (nat \<times> 'u world) option" where
  "resolve conn can_create u w =
     (case find_session can_create u w of
        (Inl e, w1) \<Rightarrow> None
      | (Inr a, w1) \<Rightarrow>
          Some (a, case phase_of w1 a of Spawned _ \<Rightarrow> start_actor conn a w1 | _ \<Rightarrow> w1))"

lemma insert_session_facts:
  assumes "insert_session u w = (b, w1)"
  shows "b = next_actor w" and "sessions w1 = (sessions w)(u \<mapsto> b)"
    and "phase_of w1 b = Spawned \<lparr>a_session_id = u, a_upstream = upstream (w_config w),
           a_idle_timeout = idle_timeout (w_config w), a_total_timeout = total_timeout (w_config w)\<rparr>"
    and "mail_of w1 b = []" and "upstreams w1 = upstreams w" and "w_stats w1 = w_stats w"
    and "mailbox_cap w1 = mailbox_cap w" and "w_config w1 = w_config w"
    and "streams w1 = streams w" and "read_locks w1 = read_locks w"
    and "next_stream w1 = next_stream w" and "replies w1 = replies w"
    and "next_actor w1 = Suc (next_actor w)"
    and "c \<noteq> b \<Longrightarrow> phase_of w1 c = phase_of w c" and "c \<noteq> b \<Longrightarrow> mail_of w1 c = mail_of w c"
  using assms by (auto simp: insert_session_def new_session_def Let_def)

lemma find_session_live:
  "sessions w u = Some a \<Longrightarrow> is_alive w a \<Longrightarrow> find_session cc u w = (Ok a, w)"
  by (simp add: find_session_def)

lemma find_session_new:
  assumes "case sessions w u of None \<Rightarrow> True | Some a \<Rightarrow> \<not> is_alive w a"
  shows "find_session True u w = (let (b, w1) = insert_session u w in (Ok b, w1))"
  using assms by (auto simp: find_session_def split: option.splits)

lemma find_session_patch:
  assumes "case sessions w u of None \<Rightarrow> True | Some a \<Rightarrow> \<not> is_alive w a"
  shows "\<exists>msg. find_session False u w = (bail msg, w)"
  using assms by (auto simp: find_session_def split: option.splits)

lemma resolve_live:
  "sessions w u = Some a \<Longrightarrow> ready w a \<Longrightarrow> resolve conn cc u w = Some (a, w)"
  by (auto simp: resolve_def find_session_live ready_alive elim!: readyE)

lemma resolve_new:
  assumes free: "case sessions w u of None \<Rightarrow> True | Some a \<Rightarrow> \<not> is_alive w a"
    and ok: "c_connect conn (next_actor w) (upstream (w_config w)) = Ok v"
    and cap: "0 < mailbox_cap w"
  shows "\<exists>w1. resolve conn True u w = Some (next_actor w, w1) \<and> ready w1 (next_actor w) \<and>
     upstreams w1 = (upstreams w)(next_actor w \<mapsto> v) \<and> sessions w1 = (sessions w)(u \<mapsto> next_actor w) \<and>
     w_stats w1 = w_stats w \<and> w_config w1 = w_config w \<and> mailbox_cap w1 = mailbox_cap w \<and>
     read_locks w1 = (read_locks w)(next_actor w := None) \<and> streams w1 = streams w \<and>
     next_stream w1 = next_stream w \<and> next_actor w1 = Suc (next_actor w) \<and>
     (\<forall>c. c \<noteq> next_actor w \<longrightarrow> phase_of w1 c = phase_of w c \<and> mail_of w1 c = mail_of w c)"
proof -
  obtain b w0 where i: "insert_session u w = (b, w0)" by fastforce
  note f = insert_session_facts [OF i]
  note st = start_actor_ok [OF f(3), of conn v]
  have r: "resolve conn True u w = Some (b, start_actor conn b w0)"
    using i f(3) by (simp add: resolve_def find_session_new [OF free] Let_def)
  have c: "c_connect conn b (upstream (w_config w)) = Ok v" "0 < mailbox_cap w0"
    using ok cap f by simp_all
  have fr: "frame_except b w0 (start_actor conn b w0)" using st(2) c f by simp
  then show ?thesis
    using r st c f by (simp add: frame_except_def)
qed

text \<open>Nothing but the asks themselves depends on whether the session has started.\<close>

lemma ask_resolve:
  assumes "resolve conn cc u w = Some (a, w1)" and "ready w1 a"
    and "find_session cc u w = (Ok a, w0)"
  shows "ask conn rid a m w0 = ask conn rid a m w1"
proof (cases "phase_of w0 a")
  case (Spawned args)
  then have w1: "w1 = start_actor conn a w0"
    using assms by (simp add: resolve_def)
  obtain tt it where c: "phase_of (on_start_begin a w0) a = Connecting args tt it"
    using on_start_begin_phase(1) [OF Spawned] by blast
  have "\<exists>v. c_connect conn a (a_upstream args) = Ok v"
    using assms(2) c by (auto simp: w1 start_actor_def on_start_connect_def ready_def split: sum.splits)
  then show ?thesis
    using Spawned w1 by (auto simp: ask_Spawned)
qed (use assms in \<open>simp_all add: resolve_def\<close>)

lemma resolve_find:
  "resolve conn cc u w = Some (a, w1) \<Longrightarrow> \<exists>w0. find_session cc u w = (Ok a, w0)"
  by (auto simp: resolve_def split: prod.splits sum.splits)

lemma handle_write_resolved:
  assumes head: "parse_head lib (cfg_session_key (w_config w)) req = Ok (m, u)" and m: "m \<noteq> Get"
    and res: "resolve conn (m \<noteq> Patch) u w = Some (a, w1)" "ready w1 a"
    and body: "into_data_stream (req_body req) = map Ok ds" and ne: "ds \<noteq> []"
  shows "handle_request lib conn rid req w =
     (case write_loop conn rid a 0 (map Ok ds) w1 of
        (Inl e, w2) \<Rightarrow> (into_response e, w2)
      | (Inr tot, w2) \<Rightarrow>
          (if tot = 0 then into_response (HttpError_from ''Empty body'') else write_response, w2))"
proof -
  from resolve_find [OF res(1)] obtain w0 where w0: "find_session (m \<noteq> Patch) u w = (Ok a, w0)"
    by blast
  have "write_loop conn rid a 0 (map Ok ds) w0 = write_loop conn rid a 0 (map Ok ds) w1"
    using ask_resolve [OF res w0] ne by (rule write_loop_ask_cong)
  then show ?thesis
    using head m w0 body
    by (simp add: handle_request_def handle_request_inner_def handle_write_request_def
        split: prod.splits sum.splits)
qed

lemma handle_write_ok:
  assumes "parse_head lib (cfg_session_key (w_config w)) req = Ok (m, u)" "m \<noteq> Get"
    and "resolve conn (m \<noteq> Patch) u w = Some (a, w1)" "ready w1 a" "upstreams w1 a = Some v"
    and "into_data_stream (req_body req) = map Ok ds" "ds \<noteq> []" "write_seq conn v ds = Some v'"
  shows "\<exists>w'. handle_request lib conn rid req w =
       (if word_of_nat (length (concat ds)) = (0 :: usize)
        then into_response (HttpError_from ''Empty body'') else write_response, w') \<and>
     ready w' a \<and> frame_except a w1 w' \<and> upstreams w' = (upstreams w1)(a \<mapsto> v') \<and>
     w_stats w' = add_tx (length (concat ds)) (w_stats w1) \<and>
     streams w' = streams w1 \<and> read_locks w' = read_locks w1 \<and> next_stream w' = next_stream w1"
  using write_loop_ok [OF assms(4,5,8), of rid 0]
  by (auto simp: handle_write_resolved [OF assms(1,2,3,4,6,7)])

lemma handle_read_resolved:
  assumes head: "parse_head lib (cfg_session_key (w_config w)) req = Ok (Get, u)"
    and res: "resolve conn True u w = Some (a, w1)" "ready w1 a"
  shows "handle_request lib conn rid req w =
     (case handle_read_request conn rid a w1 of
        (Inl e, w2) \<Rightarrow> (into_response e, w2) | (Inr r, w2) \<Rightarrow> (r, w2))"
proof -
  from resolve_find [OF res(1)] obtain w0 where w0: "find_session True u w = (Ok a, w0)"
    by blast
  show ?thesis
    using head w0
    by (simp add: handle_request_def handle_request_inner_def handle_read_request_def
        ask_resolve [OF res w0])
qed

end
