(* ===== verification/Upstream_Traffic.thy ===== *)
theory Upstream_Traffic
  imports Server_Sequential
begin

text \<open>
  The interface between the server and an upstream connection, as a locale: what a
  connection has been sent and what has been read from it only grow at the end, by
  exactly the bytes of the successful writes and reads. The wrapper \<open>recorded\<close> keeps
  both as a history next to the state of an arbitrary connector and satisfies the laws,
  so the facts below hold for every connector.
\<close>

section \<open>The interface\<close>

locale upstream_traffic =
  fixes conn :: "'u connector"
    and sent :: "'u \<Rightarrow> bytes"
    and received :: "'u \<Rightarrow> bytes"
  assumes connect_fresh: "c_connect conn n a = Ok v \<Longrightarrow> sent v = [] \<and> received v = []"
    and write_appends: "c_write_all conn v bs = (Ok x, v') \<Longrightarrow>
          sent v' = sent v @ bs \<and> received v' = received v"
    and write_fails: "c_write_all conn v bs = (Err e, v') \<Longrightarrow>
          sent v' = sent v \<and> received v' = received v"
    and read_appends: "c_read_buf conn v k = (Ready (Ok bs), v') \<Longrightarrow>
          received v' = received v @ bs \<and> sent v' = sent v"
    and read_nothing: "c_read_buf conn v k = (Pending, v') \<or> c_read_buf conn v k = (Ready (Err e), v') \<Longrightarrow>
          received v' = received v \<and> sent v' = sent v"
begin

lemma write_seq_sent:
  "write_seq conn v ds = Some v' \<Longrightarrow> sent v' = sent v @ concat ds \<and> received v' = received v"
proof (induction ds arbitrary: v)
  case Nil
  then show ?case by simp
next
  case (Cons d ds)
  then obtain x v1 where "c_write_all conn v d = (Ok x, v1)" "write_seq conn v1 ds = Some v'"
    by (auto split: prod.splits sum.splits)
  with Cons.IH [of v1] write_appends [of v d x v1] show ?case by simp
qed

end

section \<open>Recording the traffic of a connector\<close>

type_synonym 'u recorded = "'u \<times> bytes \<times> bytes"

definition rec_sent :: "'u recorded \<Rightarrow> bytes" where
  "rec_sent r = fst (snd r)"

definition rec_received :: "'u recorded \<Rightarrow> bytes" where
  "rec_received r = snd (snd r)"

definition recorded :: "'u connector \<Rightarrow> 'u recorded connector" where
  "recorded c =
     \<lparr>c_connect = (\<lambda>n a. case c_connect c n a of Inl e \<Rightarrow> Err e | Inr u \<Rightarrow> Ok (u, [], [])),
      c_write_all = (\<lambda>(u, s, r) bs.
        case c_write_all c u bs of
          (Inl e, u') \<Rightarrow> (Err e, (u', s, r))
        | (Inr x, u') \<Rightarrow> (Ok x, (u', s @ bs, r))),
      c_read_buf = (\<lambda>(u, s, r) k.
        case c_read_buf c u k of
          (Ready (Inr bs), u') \<Rightarrow> (Ready (Ok bs), (u', s, r @ bs))
        | (p, u') \<Rightarrow> (p, (u', s, r)))\<rparr>"

interpretation traffic: upstream_traffic "recorded c" rec_sent rec_received for c
proof
  show "c_connect (recorded c) n a = Ok v \<Longrightarrow> rec_sent v = [] \<and> rec_received v = []" for n a v
    by (auto simp: recorded_def rec_sent_def rec_received_def split: sum.splits)
  show "c_write_all (recorded c) v bs = (Ok x, v') \<Longrightarrow>
      rec_sent v' = rec_sent v @ bs \<and> rec_received v' = rec_received v" for v bs x v'
    by (auto simp: recorded_def rec_sent_def rec_received_def split: sum.splits prod.splits)
  show "c_write_all (recorded c) v bs = (Err e, v') \<Longrightarrow>
      rec_sent v' = rec_sent v \<and> rec_received v' = rec_received v" for v bs e v'
    by (auto simp: recorded_def rec_sent_def rec_received_def split: sum.splits prod.splits)
  show "c_read_buf (recorded c) v k = (Ready (Ok bs), v') \<Longrightarrow>
      rec_received v' = rec_received v @ bs \<and> rec_sent v' = rec_sent v" for v k bs v'
    by (auto simp: recorded_def rec_sent_def rec_received_def
        split: sum.splits prod.splits poll.splits)
  show "c_read_buf (recorded c) v k = (Pending, v') \<or> c_read_buf (recorded c) v k = (Ready (Err e), v') \<Longrightarrow>
      rec_received v' = rec_received v \<and> rec_sent v' = rec_sent v" for v k e v'
    by (auto simp: recorded_def rec_sent_def rec_received_def
        split: sum.splits prod.splits poll.splits)
qed

text \<open>Recording does not change what a connector answers.\<close>

lemma recorded_answers:
  "c_write_all (recorded c) (u, s, r) bs = (x, v) \<Longrightarrow> fst (c_write_all c u bs) = x \<and> fst v = snd (c_write_all c u bs)"
  "c_read_buf (recorded c) (u, s, r) k = (p, v) \<Longrightarrow> fst (c_read_buf c u k) = p \<and> fst v = snd (c_read_buf c u k)"
  by (auto simp: recorded_def split: sum.splits prod.splits poll.splits)

end
