(* ===== verification/Plain_Http.thy ===== *)
theory Plain_Http
  imports Http_Model
begin

text \<open>
  A concrete instance of the HTTP library parameters, on which properties are exercised.
\<close>

definition bytes_of :: "string \<Rightarrow> bytes" where
  "bytes_of s = map of_char s"

text \<open>
  Headers are found by their exact name, the first one given winning; a UUID is written
  as that many strokes.
\<close>

definition plain_http_lib :: http_lib where
  "plain_http_lib =
     \<lparr>hdr_get = (\<lambda>hs k. map_of hs k),
      hdr_to_str = (\<lambda>v. Some v),
      uuid_from_str = (\<lambda>s. if s = replicate (length s) (CHR ''i'') then Some (word_of_nat (length s)) else None),
      uuid_to_string = (\<lambda>u. replicate (unat u) (CHR ''i'')),
      build_request = (\<lambda>p. Ok \<lparr>req_method = rp_method p, req_uri = rp_uri p,
                                req_headers = rp_headers p, req_body = rp_body p\<rparr>)\<rparr>"

lemma plain_http_lib_law: "session_header_law plain_http_lib key"
proof -
  have "list_all (\<lambda>h. \<not> same_header (fst h) key) hs \<Longrightarrow> map_of (hs @ [(key, v)]) key = Some v" for hs v
    by (induction hs) (auto simp: same_header_def)
  then show ?thesis by (auto simp: session_header_law_def plain_http_lib_def)
qed

end
