(* ===== verification/Test_Doubles.thy ===== *)
theory Test_Doubles
  imports Server_Sequential Plain_Http
begin

text \<open>
  The connectors and requests of the test module of \<^verbatim>\<open>src/server.rs\<close>. They instantiate the
  parameters of the model where a property is exercised on concrete inputs.
\<close>

section \<open>Mock connectors\<close>

text \<open>\<^verbatim>\<open>NullConnector\<close>: writes vanish, reads wait forever.\<close>

definition NullConnector :: "unit connector" where
  "NullConnector =
     \<lparr>c_connect = (\<lambda>n a. Ok ()), c_write_all = (\<lambda>u bs. (Ok (), ())),
      c_read_buf = (\<lambda>u cap. (Pending, ()))\<rparr>"

text \<open>\<^verbatim>\<open>SpamConnector\<close>: there is always a chunk to read.\<close>

definition SpamConnector :: "unit connector" where
  "SpamConnector =
     \<lparr>c_connect = (\<lambda>n a. Ok ()), c_write_all = (\<lambda>u bs. (Ok (), ())),
      c_read_buf = (\<lambda>u cap. (Ready (Ok (take cap (bytes_of ''hello there!''))), ()))\<rparr>"

text \<open>
  \<^verbatim>\<open>EchoConnector\<close>: the far end reads once, at most 100 bytes, answers with a greeting and
  what it read, and goes away. The pipe holds 8192 bytes, and writing to it once the far
  end is gone is an error.
\<close>

record echo =
  e_waiting :: bool
  e_buffer :: bytes

definition echo_write :: "echo \<Rightarrow> bytes \<Rightarrow> (io_error, unit) result \<times> echo" where
  "echo_write e bs =
     (if bs = [] then (Ok (), e)
      else if e_waiting e
      then (if length bs \<le> 8192 then Ok () else Err (IoOs 32),
            \<lparr>e_waiting = False,
             e_buffer = e_buffer e @ bytes_of ''general kenobi!'' @ take 100 bs\<rparr>)
      else (Err (IoOs 32), e))"

definition echo_read :: "echo \<Rightarrow> nat \<Rightarrow> (io_error, bytes) result poll \<times> echo" where
  "echo_read e cap =
     (if e_buffer e \<noteq> [] then (Ready (Ok (take cap (e_buffer e))), e\<lparr>e_buffer := drop cap (e_buffer e)\<rparr>)
      else if e_waiting e then (Pending, e)
      else (Ready (Ok []), e))"

definition EchoConnector :: "echo connector" where
  "EchoConnector =
     \<lparr>c_connect = (\<lambda>n a. Ok \<lparr>e_waiting = True, e_buffer = []\<rparr>),
      c_write_all = echo_write, c_read_buf = echo_read\<rparr>"

section \<open>Requests of the tests\<close>

abbreviation local_addr :: socket_addr where
  "local_addr \<equiv> \<lparr>sa_ip = V4 2130706433, sa_port = 1234\<rparr>"

text \<open>\<^verbatim>\<open>get\<close> and \<^verbatim>\<open>post\<close> of the test module, and a \<^verbatim>\<open>PATCH\<close>.\<close>

definition test_request :: "http_method \<Rightarrow> string \<Rightarrow> nat \<Rightarrow> bytes list \<Rightarrow> server_body http_request" where
  "test_request m key n ds =
     \<lparr>req_method = m, req_uri = ''/'', req_headers = [(key, replicate n (CHR ''i''))],
      req_body = map (\<lambda>d. Ok (DataFrame d)) ds\<rparr>"

definition test_get :: "'u connector \<Rightarrow> nat \<Rightarrow> nat \<Rightarrow> 'u world \<Rightarrow> response \<times> 'u world" where
  "test_get conn rid n w =
     handle_request plain_http_lib conn rid (test_request GET (cfg_session_key (w_config w)) n []) w"

definition test_post :: "'u connector \<Rightarrow> nat \<Rightarrow> nat \<Rightarrow> string \<Rightarrow> 'u world \<Rightarrow> response \<times> 'u world" where
  "test_post conn rid n body w =
     handle_request plain_http_lib conn rid
       (test_request POST (cfg_session_key (w_config w)) n [bytes_of body]) w"

text \<open>\<^verbatim>\<open>reader.collect()\<close>: poll the response stream until it ends.\<close>

fun collect :: "'u connector \<Rightarrow> nat \<Rightarrow> nat \<Rightarrow> 'u world \<Rightarrow> frame list option \<times> 'u world" where
  "collect conn 0 n w = (None, w)"
| "collect conn (Suc fuel) n w =
     (case stream_poll conn n w of
        (Pending, w1) \<Rightarrow> collect conn fuel n w1
      | (Ready None, w1) \<Rightarrow> (Some [], w1)
      | (Ready (Some f), w1) \<Rightarrow>
          (case collect conn fuel n w1 of (r, w2) \<Rightarrow> (map_option (Cons f) r, w2)))"

text \<open>The test server of the witnesses: one mailbox slot, timeouts of 5.\<close>

definition test_server :: "'u world" where
  "test_server = with_connector 1 (Config_new local_addr 5 5)"

text \<open>A server with one session, opened by a \<^verbatim>\<open>POST\<close> of \<open>n\<close> strokes as its ID.\<close>

definition opened_server :: "'u connector \<Rightarrow> nat \<Rightarrow> 'u world" where
  "opened_server conn n = snd (test_post conn 0 n ''hi'' test_server)"

text \<open>A connector nobody answers.\<close>

definition RefusingConnector :: "unit connector" where
  "RefusingConnector = NullConnector\<lparr>c_connect := (\<lambda>n a. Err (IoOs 111))\<rparr>"

end
