(* ===== verification/Server_Correct.thy ===== *)
theory Server_Correct
  imports Upstream_Traffic Test_Doubles
begin

text \<open>
  Properties of undisturbed requests: which status code is answered when, what reaches
  the upstream connection, which requests open sessions, and what happens when the
  upstream fails.
\<close>

section \<open>What an actor's work leaves alone\<close>

definition same_globals :: "'u world \<Rightarrow> 'u world \<Rightarrow> bool" where
  "same_globals w w' \<longleftrightarrow>
     w_config w' = w_config w \<and> sessions w' = sessions w \<and> server_alive w' = server_alive w \<and>
     clock w' = clock w \<and> next_actor w' = next_actor w \<and> mailbox_cap w' = mailbox_cap w \<and>
     w_stats w' = w_stats w"

lemma same_globals_refl [simp]: "same_globals w w"
  by (simp add: same_globals_def)

lemma same_globals_trans: "same_globals w w1 \<Longrightarrow> same_globals w1 w2 \<Longrightarrow> same_globals w w2"
  by (simp add: same_globals_def)

lemma same_globals_simps [simp]:
  "same_globals w (set_actor a p q w') = same_globals w w'"
  "same_globals w (enqueue a m w') = same_globals w w'"
  "same_globals w (w'\<lparr>tasks := ts\<rparr>) = same_globals w w'"
  "same_globals w (w'\<lparr>next_task := n\<rparr>) = same_globals w w'"
  "same_globals w (w'\<lparr>upstreams := us\<rparr>) = same_globals w w'"
  "same_globals w (w'\<lparr>read_locks := ls\<rparr>) = same_globals w w'"
  "same_globals w (w'\<lparr>streams := ss\<rparr>) = same_globals w w'"
  "same_globals w (w'\<lparr>next_stream := n\<rparr>) = same_globals w w'"
  "same_globals w (w'\<lparr>replies := rs\<rparr>) = same_globals w w'"
  by (simp_all add: same_globals_def)

lemma same_globals_ops [simp]:
  "same_globals w (abort_task t w') = same_globals w w'"
  "same_globals w (send_reply r v w') = same_globals w w'"
  "same_globals w (close_actor a w') = same_globals w w'"
  "same_globals w (try_send a m w') = same_globals w w'"
  by (simp_all add: abort_task_def send_reply_def close_actor_def try_send_def
      split: option.splits phase.splits)

lemma same_globals_reset: "same_globals w (snd (reset_idle_timeout a s w))"
  by (simp add: reset_idle_timeout_def actor_timeout_def Let_def)

lemma same_globals_write: "same_globals w (snd (handle_SessionWrite conn a s bs w))"
  by (simp add: handle_SessionWrite_def Let_def split: prod.splits sum.splits)

lemma same_globals_read: "same_globals w (snd (snd (handle_SessionRead a s w)))"
  by (simp add: handle_SessionRead_def Let_def split: option.splits)

lemma same_globals_set_actor_trans:
  "same_globals (set_actor a p q w) w' \<Longrightarrow> same_globals w w'"
  by (simp add: same_globals_def)

lemma same_globals_handle: "same_globals w (actor_handle conn a w)"
proof (cases "phase_of w a")
  case (Running s)
  show ?thesis
  proof (cases "mail_of w a")
    case (Cons x q)
    then obtain m slot where x: "mail_of w a = (m, slot) # q" by (cases x) auto
    let ?w0 = "set_actor a (Running s) q w"
    show ?thesis
    proof (cases m)
      case SessionRead
      with x Running show ?thesis
        using same_globals_read [of ?w0 a s]
        by (auto simp: actor_handle_def Let_def dest: same_globals_set_actor_trans split: prod.splits)
    next
      case (SessionWrite bs)
      with x Running show ?thesis
        using same_globals_write [of ?w0 conn a s bs]
        by (auto simp: actor_handle_def Let_def dest: same_globals_set_actor_trans split: prod.splits)
    next
      case SessionResetIdleTimeout
      with x Running show ?thesis
        using same_globals_reset [of ?w0 a s]
        by (auto simp: actor_handle_def handle_SessionResetIdleTimeout_def Let_def
            dest: same_globals_set_actor_trans split: prod.splits)
    qed
  qed (simp add: actor_handle_def Running)
qed (simp_all add: actor_handle_def)

lemma same_globals_start:
  "same_globals w (on_start_begin a w)" "same_globals w (on_start_connect conn a w)"
  by (simp_all add: on_start_begin_def on_start_connect_def reset_idle_timeout_def actor_timeout_def
      Let_def split: phase.splits sum.splits)

lemma same_globals_run: "same_globals w (run_actor conn a w)"
proof (induction conn a w rule: run_actor.induct)
  case (1 conn a w)
  then show ?case
    by (subst run_actor.simps)
      (auto split: phase.splits intro: same_globals_trans same_globals_start same_globals_handle)
qed

lemma same_globals_ask: "ask conn rid a m w = (r, w') \<Longrightarrow> same_globals w w'"
  using same_globals_run [of "enqueue a (m, Some rid) w" conn a]
  by (auto simp: ask_def same_globals_def take_reply_def Let_def split: if_splits)

lemma write_loop_globals:
  "write_loop conn rid a tot ds w = (r, w') \<Longrightarrow>
   w_config w' = w_config w \<and> sessions w' = sessions w \<and> next_actor w' = next_actor w"
proof (induction conn rid a tot ds w rule: write_loop.induct)
  case (3 conn rid a tot d ds w)
  then show ?case
    by (fastforce dest: same_globals_ask simp: same_globals_def
        split: prod.splits option.splits reply.splits)
qed auto

section \<open>Which status code is answered\<close>

lemma parse_head_Ok:
  "parse_head lib key req = Ok (m, u) \<Longrightarrow>
   parse_method (req_method req) = Ok m \<and> request_session_id lib key req = Some u"
  by (cases "parse_method (req_method req)") (auto simp: parse_head_def split: option.splits)

lemma parse_head_Err:
  "parse_head lib key req = Err e \<Longrightarrow> he_code e = BAD_REQUEST"
  by (cases "req_method req") (auto simp: parse_head_def HttpError_from_def split: option.splits)

lemma parse_method_simps:
  "parse_method hm = Ok Get \<longleftrightarrow> hm = GET"
  "parse_method hm = Ok Post \<longleftrightarrow> hm = POST"
  "parse_method hm = Ok Patch \<longleftrightarrow> hm = PATCH"
  by (cases hm; simp)+

lemma find_session_Err: "find_session cc u w = (Inl e, w1) \<Longrightarrow> he_code e = BAD_REQUEST \<and> w1 = w"
  by (auto simp: find_session_def HttpError_from_def Let_def split: option.splits if_splits prod.splits)

lemma write_loop_Err: "write_loop conn rid a tot ds w = (Inl e, w') \<Longrightarrow> he_code e = BAD_REQUEST"
  by (induction conn rid a tot ds w rule: write_loop.induct)
    (auto simp: HttpError_from_def split: prod.splits option.splits reply.splits)

lemma handle_write_request_codes:
  "handle_write_request conn rid body a w = (r, w') \<Longrightarrow>
   r = Ok write_response \<or> (\<exists>e. r = Err e \<and> he_code e = BAD_REQUEST)"
  by (auto simp: handle_write_request_def HttpError_from_def dest: write_loop_Err
      split: prod.splits sum.splits if_splits)

lemma handle_read_request_codes:
  "handle_read_request conn rid a w = (r, w') \<Longrightarrow>
   (\<exists>n. r = Ok (read_response n)) \<or> (\<exists>e. r = Err e \<and> he_code e \<in> {BAD_REQUEST, TOO_MANY_REQUESTS})"
  by (auto simp: handle_read_request_def HttpError_from_def HttpError_code_def
      split: prod.splits option.splits reply.splits)

text \<open>C23: every answer of the server is one of \<^verbatim>\<open>200\<close>, \<^verbatim>\<open>204\<close>, \<^verbatim>\<open>400\<close> and \<^verbatim>\<open>429\<close>, for every
  request, library and state of the server: a \<^verbatim>\<open>GET\<close> is answered by \<^verbatim>\<open>200\<close> with a streamed
  body, \<^verbatim>\<open>429\<close> or \<^verbatim>\<open>400\<close>, a \<^verbatim>\<open>POST\<close> or \<^verbatim>\<open>PATCH\<close> by \<^verbatim>\<open>204\<close> or \<^verbatim>\<open>400\<close> with an empty body, and
  any other method by \<^verbatim>\<open>400\<close> without a change of the server.\<close>

theorem handle_request_status:
  assumes "handle_request lib conn rid req w = (r, w')"
  shows "(case req_method req of
      GET \<Rightarrow> (rsp_status r = STATUS_OK \<and> (\<exists>n. rsp_body r = StreamBody n)) \<or>
             (rsp_status r \<in> {TOO_MANY_REQUESTS, BAD_REQUEST} \<and> rsp_body r = EmptyBody)
    | OtherMethod _ \<Rightarrow> rsp_status r = BAD_REQUEST \<and> rsp_body r = EmptyBody \<and> w' = w
    | _ \<Rightarrow> rsp_status r \<in> {NO_CONTENT, BAD_REQUEST} \<and> rsp_body r = EmptyBody)"
proof (cases "parse_head lib (cfg_session_key (w_config w)) req")
  case (Inl e)
  then show ?thesis
    using assms parse_head_Err [OF Inl]
    by (auto simp: handle_request_def handle_request_inner_def into_response_def
        split: http_method.splits)
next
  case (Inr mu)
  then obtain m u where head: "parse_head lib (cfg_session_key (w_config w)) req = Ok (m, u)"
    by (cases mu) auto
  note m = parse_head_Ok [OF head, THEN conjunct1]
  obtain x w1 where f: "find_session (m \<noteq> Patch) u w = (x, w1)" by fastforce
  show ?thesis
  proof (cases x)
    case (Inl e)
    then show ?thesis
      using assms head f m find_session_Err [OF f [unfolded Inl]]
      by (auto simp: handle_request_def handle_request_inner_def into_response_def
          split: http_method.splits)
  next
    case (Inr a)
    show ?thesis
    proof (cases "m = Get")
      case True
      obtain y w2 where h: "handle_read_request conn rid a w1 = (y, w2)" by fastforce
      from handle_read_request_codes [OF h] True m assms head f Inr h show ?thesis
        by (auto simp: handle_request_def handle_request_inner_def into_response_def
            read_response_def parse_method_simps split: http_method.splits)
    next
      case False
      obtain y w2 where h: "handle_write_request conn rid (req_body req) a w1 = (y, w2)" by fastforce
      from handle_write_request_codes [OF h] False m assms head f Inr h show ?thesis
        by (auto simp: handle_request_def handle_request_inner_def into_response_def
            write_response_def parse_method_simps split: http_method.splits)
    qed
  qed
qed

theorem handle_request_status_witness:
  "let (r, w') = handle_request plain_http_lib NullConnector 0 (test_request GET ''X-Session'' 1 [])
         (with_connector 1 (Config_new local_addr 5 5))
   in rsp_status r = STATUS_OK \<or> rsp_status r \<in> {TOO_MANY_REQUESTS, BAD_REQUEST}"
proof -
  obtain r w' where e: "handle_request plain_http_lib NullConnector 0 (test_request GET ''X-Session'' 1 [])
         (with_connector 1 (Config_new local_addr 5 5)) = (r, w')"
    by fastforce
  from handle_request_status [OF e] show ?thesis
    unfolding e by (auto simp: test_request_def)
qed

section \<open>Who opens sessions\<close>

lemma handle_read_request_globals:
  "handle_read_request conn rid a w = (r, w') \<Longrightarrow>
   sessions w' = sessions w \<and> next_actor w' = next_actor w"
  by (auto simp: handle_read_request_def same_globals_def dest: same_globals_ask
      split: prod.splits option.splits reply.splits)

lemma handle_write_request_globals:
  "handle_write_request conn rid body a w = (r, w') \<Longrightarrow>
   sessions w' = sessions w \<and> next_actor w' = next_actor w"
  by (auto simp: handle_write_request_def dest: write_loop_globals
      split: prod.splits sum.splits if_splits)

text \<open>C9: a \<^verbatim>\<open>PATCH\<close> request never opens a session: it spawns no actor and leaves the
  table of sessions as it is; and when its session ID is unknown or its session is no
  longer alive, the answer is \<^verbatim>\<open>400\<close> and nothing in the server changes.\<close>

theorem patch_never_opens_session:
  assumes "req_method req = PATCH" and "handle_request lib conn rid req w = (r, w')"
  shows "next_actor w' = next_actor w \<and> sessions w' = sessions w \<and>
    ((case request_session_id lib (cfg_session_key (w_config w)) req of
        None \<Rightarrow> True
      | Some u \<Rightarrow> (case sessions w u of None \<Rightarrow> True | Some a \<Rightarrow> \<not> is_alive w a))
     \<longrightarrow> rsp_status r = BAD_REQUEST \<and> w' = w)"
proof (cases "request_session_id lib (cfg_session_key (w_config w)) req")
  case None
  then show ?thesis
    using assms by (auto simp: handle_request_def handle_request_inner_def parse_head_def
        into_response_def HttpError_from_def)
next
  case (Some u)
  then have head: "parse_head lib (cfg_session_key (w_config w)) req = Ok (Patch, u)"
    using assms(1) by (simp add: parse_head_def)
  show ?thesis
  proof (cases "case sessions w u of None \<Rightarrow> True | Some a \<Rightarrow> \<not> is_alive w a")
    case True
    from find_session_patch [OF True] obtain msg where "find_session False u w = (bail msg, w)" ..
    then show ?thesis
      using assms head by (auto simp: handle_request_def handle_request_inner_def into_response_def
          HttpError_from_def)
  next
    case False
    then obtain a where a: "sessions w u = Some a" "is_alive w a"
      by (auto split: option.splits)
    obtain y w2 where h: "handle_write_request conn rid (req_body req) a w = (y, w2)" by fastforce
    from a have "find_session False u w = (Ok a, w)" by (rule find_session_live)
    then have "w' = w2"
      using assms(2) head h by (auto simp: handle_request_def handle_request_inner_def split: sum.splits)
    with handle_write_request_globals [OF h] False Some show ?thesis by simp
  qed
qed

theorem patch_never_opens_session_witness:
  "let w = with_connector 1 (Config_new local_addr 5 5);
       (r, w') = handle_request plain_http_lib NullConnector 0 (test_request PATCH ''X-Session'' 1 [[7]]) w
   in rsp_status r = BAD_REQUEST \<and> w' = w"
proof -
  let ?w = "with_connector 1 (Config_new local_addr 5 5) :: unit world"
  let ?q = "test_request PATCH ''X-Session'' 1 [[7]]"
  obtain r w' where e: "handle_request plain_http_lib NullConnector 0 ?q ?w = (r, w')" by fastforce
  have m: "req_method ?q = PATCH" by (simp add: test_request_def)
  have "sessions ?w u = None" for u by (simp add: with_connector_def)
  with patch_never_opens_session [OF m e] show ?thesis
    unfolding e Let_def by (auto split: option.splits)
qed

text \<open>C21: the first \<^verbatim>\<open>GET\<close> or \<^verbatim>\<open>POST\<close> for a session ID that is unknown, or whose session has
  died, opens exactly one session: one actor and one upstream connection are new, the ID
  is bound to it, every other session and every other connection is as before. The
  request is then answered by that session (\<^verbatim>\<open>200\<close> for a \<^verbatim>\<open>GET\<close>; \<^verbatim>\<open>204\<close> for a \<^verbatim>\<open>POST\<close> whose
  chunks can all be written, which reach the new connection in order).\<close>

theorem first_request_opens_session:
  assumes head: "parse_head lib (cfg_session_key (w_config w)) req = Ok (m, u)" and m: "m \<noteq> Patch"
    and free: "case sessions w u of None \<Rightarrow> True | Some b \<Rightarrow> \<not> is_alive w b"
    and conn: "c_connect conn (next_actor w) (upstream (w_config w)) = Ok v" and cap: "0 < mailbox_cap w"
    and body: "m = Get \<or> (into_data_stream (req_body req) = map Ok ds \<and>
                 word_of_nat (length (concat ds)) \<noteq> (0 :: usize) \<and> write_seq conn v ds = Some v')"
  shows "\<exists>w'. handle_request lib conn rid req w =
       (if m = Get then read_response (next_stream w) else write_response, w') \<and>
     next_actor w' = Suc (next_actor w) \<and> sessions w' = (sessions w)(u \<mapsto> next_actor w) \<and>
     upstreams w' = (upstreams w)(next_actor w \<mapsto> if m = Get then v else v') \<and>
     ready w' (next_actor w) \<and>
     (\<forall>c. c \<noteq> next_actor w \<longrightarrow> phase_of w' c = phase_of w c \<and> mail_of w' c = mail_of w c)"
proof -
  let ?a = "next_actor w"
  from resolve_new [OF free conn cap] obtain w1 where res: "resolve conn True u w = Some (?a, w1)"
      and r1: "ready w1 ?a" and u1: "upstreams w1 = (upstreams w)(?a \<mapsto> v)"
      and s1: "sessions w1 = (sessions w)(u \<mapsto> ?a)" and l1: "read_locks w1 ?a = None"
      and n1: "next_stream w1 = next_stream w" and na: "next_actor w1 = Suc ?a"
      and oth: "\<And>c. c \<noteq> ?a \<Longrightarrow> phase_of w1 c = phase_of w c \<and> mail_of w1 c = mail_of w c"
    by auto
  have up: "upstreams w1 ?a = Some v" by (simp add: u1)
  show ?thesis
  proof (cases "m = Get")
    case True
    from ask_read_free [OF r1 l1, of conn rid] obtain w' where w':
        "ask conn rid ?a SessionRead w1 = (Some (ReadReply (Some (next_stream w1))), w')"
        "ready w' ?a" "frame_except ?a w1 w'" "upstreams w' = upstreams w1"
      by blast
    have "handle_request lib conn rid req w = (read_response (next_stream w), w')"
      using w'(1) n1 head True
      by (subst handle_read_resolved [OF _ res r1]) (simp_all add: handle_read_request_def)
    then show ?thesis
      using w' True s1 u1 na oth by (simp add: frame_except_def)
  next
    case False
    with body have b: "into_data_stream (req_body req) = map Ok ds" "write_seq conn v ds = Some v'"
        "word_of_nat (length (concat ds)) \<noteq> (0 :: usize)" "ds \<noteq> []"
      by auto
    have res': "resolve conn (m \<noteq> Patch) u w = Some (?a, w1)" using res m by simp
    from handle_write_ok [OF head False res' r1 up b(1,4,2), of rid] obtain w' where w':
        "handle_request lib conn rid req w = (write_response, w')" "ready w' ?a"
        "frame_except ?a w1 w'" "upstreams w' = (upstreams w1)(?a \<mapsto> v')"
      using b(3) by auto
    then show ?thesis
      using False s1 u1 na oth by (auto simp: frame_except_def fun_eq_iff)
  qed
qed

theorem first_request_opens_session_witness:
  "\<exists>w'. handle_request plain_http_lib NullConnector 0 (test_request POST ''X-Session'' 3 [[1, 2], [3]])
      (test_server :: unit world) = (write_response, w') \<and> sessions w' 3 = Some 0 \<and> next_actor w' = 1"
proof -
  let ?w = "test_server :: unit world"
  let ?q = "test_request POST ''X-Session'' 3 [[1, 2], [3]]"
  have head: "parse_head plain_http_lib (cfg_session_key (w_config ?w)) ?q = Ok (Post, 3)" by code_simp
  have free: "case sessions ?w 3 of None \<Rightarrow> True | Some b \<Rightarrow> \<not> is_alive ?w b" by code_simp
  have conn: "c_connect NullConnector (next_actor ?w) (upstream (w_config ?w)) = Ok ()" by code_simp
  have cap: "0 < mailbox_cap ?w" by code_simp
  have body: "Post = Get \<or> (into_data_stream (req_body ?q) = map Ok [[1, 2], [3]] \<and>
      word_of_nat (length (concat [[1, 2], [3 :: byte]])) \<noteq> (0 :: usize) \<and>
      write_seq NullConnector () [[1, 2], [3]] = Some ())" by code_simp
  have n: "next_actor ?w = 0" by code_simp
  from first_request_opens_session [OF head _ free conn cap body, of 0] n show ?thesis by auto
qed

text \<open>C8: a \<^verbatim>\<open>POST\<close> or \<^verbatim>\<open>PATCH\<close> with a non-empty body for a live session is answered by \<^verbatim>\<open>204\<close>,
  and what the upstream connection has been sent grows by exactly the concatenation of
  the body's chunks, in order; the counter \<^verbatim>\<open>bytes_tx\<close> grows by their length; no other
  connection and no table of sessions changes. This holds for every connector, its
  traffic being recorded, as long as it accepts the chunks.\<close>

theorem write_request_delivers:
  assumes "parse_head lib (cfg_session_key (w_config w)) req = Ok (m, u)" "m \<noteq> Get"
    and "sessions w u = Some a" "ready w a" "upstreams w a = Some v"
    and "into_data_stream (req_body req) = map Ok ds"
    and "word_of_nat (length (concat ds)) \<noteq> (0 :: usize)"
    and "write_seq (recorded c) v ds = Some v'"
  shows "\<exists>w'. handle_request lib (recorded c) rid req w = (write_response, w') \<and>
     upstreams w' = (upstreams w)(a \<mapsto> v') \<and> rec_sent v' = rec_sent v @ concat ds \<and>
     rec_received v' = rec_received v \<and>
     w_stats w' = add_tx (length (concat ds)) (w_stats w) \<and>
     sessions w' = sessions w \<and> next_actor w' = next_actor w \<and> ready w' a"
proof -
  have ne: "ds \<noteq> []" using assms(7) by auto
  have res: "resolve (recorded c) (m \<noteq> Patch) u w = Some (a, w)"
    using assms(3,4) by (rule resolve_live)
  from handle_write_ok [OF assms(1,2) res assms(4,5,6) ne assms(8), of rid] assms(7)
    traffic.write_seq_sent [OF assms(8)]
  show ?thesis by (auto simp: frame_except_def)
qed

theorem write_request_delivers_witness:
  "\<exists>w' v'. handle_request plain_http_lib (recorded NullConnector) 1
      (test_request PATCH ''X-Session'' 3 [[1, 2], [3]]) (opened_server (recorded NullConnector) 3)
      = (write_response, w') \<and>
     upstreams w' 0 = Some v' \<and> rec_sent v' = bytes_of ''hi'' @ [1, 2, 3]"
proof -
  let ?c = "recorded NullConnector"
  let ?w = "opened_server ?c 3"
  let ?q = "test_request PATCH ''X-Session'' 3 [[1, 2], [3]]"
  let ?v = "((), bytes_of ''hi'', [])"
  have head: "parse_head plain_http_lib (cfg_session_key (w_config ?w)) ?q = Ok (Patch, 3)" by code_simp
  have s: "sessions ?w 3 = Some 0" by code_simp
  have r: "ready ?w 0" by code_simp
  have v: "upstreams ?w 0 = Some ?v" by code_simp
  have d: "into_data_stream (req_body ?q) = map Ok [[1, 2], [3]]" by code_simp
  have t: "word_of_nat (length (concat [[1, 2], [3 :: byte]])) \<noteq> (0 :: usize)" by simp
  have wr: "write_seq ?c ?v [[1, 2], [3]] = Some ((), bytes_of ''hi'' @ [1, 2, 3], [])" by code_simp
  show ?thesis
    using write_request_delivers [OF head _ s r v d t wr, of 1] by (auto simp: rec_sent_def)
qed

section \<open>Concurrent reads\<close>

text \<open>C22: while a response stream of a session is open, its connection's read half being
  locked, a second \<^verbatim>\<open>GET\<close> for the session is answered by \<^verbatim>\<open>429\<close> with an empty body; the open
  stream, the lock, the connections and the counters stay as they are.\<close>

theorem concurrent_get_rejected:
  assumes head: "parse_head lib (cfg_session_key (w_config w)) req = Ok (Get, u)"
    and "sessions w u = Some a" "ready w a" and "read_locks w a = Some n"
  shows "\<exists>w'. handle_request lib conn rid req w =
       (\<lparr>rsp_status = TOO_MANY_REQUESTS, rsp_headers = [], rsp_body = EmptyBody\<rparr>, w') \<and>
     streams w' = streams w \<and> read_locks w' = read_locks w \<and> upstreams w' = upstreams w \<and>
     w_stats w' = w_stats w \<and> sessions w' = sessions w \<and> ready w' a"
proof -
  have res: "resolve conn True u w = Some (a, w)" using assms(2,3) by (rule resolve_live)
  from ask_read_locked [OF assms(3,4), of conn rid] obtain w' where
      "ask conn rid a SessionRead w = (Some (ReadReply None), w')" "ready w' a" "frame_except a w w'"
      "upstreams w' = upstreams w" "w_stats w' = w_stats w" "read_locks w' = read_locks w"
      "streams w' = streams w"
    by blast
  then show ?thesis
    by (simp add: handle_read_resolved [OF head res assms(3)] handle_read_request_def
        into_response_def HttpError_code_def frame_except_def)
qed

theorem concurrent_get_rejected_witness:
  "let w = snd (test_get NullConnector 1 3 (opened_server NullConnector 3))
   in \<exists>w'. handle_request plain_http_lib NullConnector 2 (test_request GET ''X-Session'' 3 []) w
      = (\<lparr>rsp_status = TOO_MANY_REQUESTS, rsp_headers = [], rsp_body = EmptyBody\<rparr>, w') \<and>
     streams w' = streams w"
proof -
  let ?w = "snd (test_get NullConnector 1 3 (opened_server NullConnector 3))"
  let ?q = "test_request GET ''X-Session'' 3 []"
  have head: "parse_head plain_http_lib (cfg_session_key (w_config ?w)) ?q = Ok (Get, 3)" by code_simp
  have s: "sessions ?w 3 = Some 0" by code_simp
  have r: "ready ?w 0" by code_simp
  have l: "read_locks ?w 0 = Some 0" by code_simp
  show ?thesis
    using concurrent_get_rejected [OF head s r l, of NullConnector 2] by (auto simp: Let_def)
qed

section \<open>Failures of the upstream\<close>

text \<open>C33: when the upstream refuses the bytes of a \<^verbatim>\<open>POST\<close> or \<^verbatim>\<open>PATCH\<close> (one non-empty chunk),
  the session is stopped, but the request is still answered by \<^verbatim>\<open>204\<close> and its bytes are
  counted as transmitted: the error of \<^verbatim>\<open>write_all\<close> is only logged and the reply to
  \<^verbatim>\<open>SessionWrite\<close> is \<^verbatim>\<open>()\<close> either way.\<close>

theorem failed_write_is_acknowledged:
  assumes head: "parse_head lib (cfg_session_key (w_config w)) req = Ok (m, u)" "m \<noteq> Get"
    and ses: "sessions w u = Some a" "ready w a" "upstreams w a = Some v"
    and body: "into_data_stream (req_body req) = [Ok d]" "word_of_nat (length d) \<noteq> (0 :: usize)"
    and err: "c_write_all conn v d = (Err e, v')"
  shows "\<exists>w'. handle_request lib conn rid req w = (write_response, w') \<and>
     w_stats w' = add_tx (length d) (w_stats w) \<and> \<not> is_alive w' a \<and>
     upstreams w' = (upstreams w)(a \<mapsto> v')"
proof -
  have res: "resolve conn (m \<noteq> Patch) u w = Some (a, w)" using ses(1,2) by (rule resolve_live)
  from ask_write_err [OF ses(2,3) err, of rid] obtain w1 s where w1:
      "ask conn rid a (SessionWrite d) w = (Some WriteReply, w1)" "phase_of w1 a = Closing s"
      "upstreams w1 = (upstreams w)(a \<mapsto> v')" "w_stats w1 = w_stats w"
    by blast
  have b: "into_data_stream (req_body req) = map Ok [d]" using body by simp
  show ?thesis
    using w1 body(2) by (simp add: handle_write_resolved [OF head res ses(2) b] is_alive_def)
qed

theorem failed_write_is_acknowledged_witness:
  "\<exists>w'. handle_request plain_http_lib EchoConnector 1 (test_request PATCH ''X-Session'' 3 [[7]])
      (opened_server EchoConnector 3) = (write_response, w') \<and>
     w_stats w' = \<lparr>bytes_tx = 3, bytes_rx = 0\<rparr> \<and> \<not> is_alive w' 0"
proof -
  let ?w = "opened_server EchoConnector 3"
  let ?q = "test_request PATCH ''X-Session'' 3 [[7]]"
  let ?v = "\<lparr>e_waiting = False, e_buffer = bytes_of ''general kenobi!hi''\<rparr>"
  have head: "parse_head plain_http_lib (cfg_session_key (w_config ?w)) ?q = Ok (Patch, 3)" by code_simp
  have s: "sessions ?w 3 = Some 0" by code_simp
  have r: "ready ?w 0" by code_simp
  have v: "upstreams ?w 0 = Some ?v" by code_simp
  have d: "into_data_stream (req_body ?q) = [Ok [7]]" by code_simp
  have t: "word_of_nat (length [7 :: byte]) \<noteq> (0 :: usize)" by simp
  have e: "c_write_all EchoConnector ?v [7] = (Err (IoOs 32), ?v)" by code_simp
  have st: "add_tx (length [7 :: byte]) (w_stats ?w) = \<lparr>bytes_tx = 3, bytes_rx = 0\<rparr>" by code_simp
  show ?thesis
    using failed_write_is_acknowledged [OF head _ s r v d t e, of 1] st by auto
qed

text \<open>C34: when the connection of a new session cannot be opened, the request is answered by
  \<^verbatim>\<open>400\<close> and the actor is dead, yet its ID stays bound to it in the table of sessions: no
  \<^verbatim>\<open>Session\<close> value was made, so no \<^verbatim>\<open>Drop\<close> removes it. A following \<^verbatim>\<open>PATCH\<close> is answered by
  \<^verbatim>\<open>400\<close>; the stale entry is only replaced by the next \<^verbatim>\<open>GET\<close> or \<^verbatim>\<open>POST\<close> for the same ID.\<close>

theorem failed_connect_leaves_stale_entry:
  assumes head: "parse_head lib (cfg_session_key (w_config w)) req = Ok (Get, u)"
    and free: "sessions w u = None" and slot: "replies w rid = None"
    and err: "c_connect conn (next_actor w) (upstream (w_config w)) = Err e"
  shows "\<exists>w'. handle_request lib conn rid req w =
       (into_response (HttpError_from ''Session actor is dead''), w') \<and>
     sessions w' = (sessions w)(u \<mapsto> next_actor w) \<and> phase_of w' (next_actor w) = Dead \<and>
     upstreams w' = upstreams w \<and> session_drop (next_actor w) w' = w' \<and>
     resolve conn False u w' = None"
proof -
  let ?a = "next_actor w"
  obtain b w0 where i: "insert_session u w = (b, w0)" by fastforce
  note f = insert_session_facts [OF i]
  have fs: "find_session True u w = (Ok ?a, w0)"
    using i f(1) free by (simp add: find_session_def)
  have "\<exists>w'. ask conn rid ?a SessionRead w0 = (None, w') \<and> phase_of w' ?a = Dead \<and>
      frame_except ?a w0 w' \<and> upstreams w' = upstreams w0 \<and> w_stats w' = w_stats w0"
    using f err slot by (intro ask_Spawned_err) auto
  then obtain w' where w': "ask conn rid ?a SessionRead w0 = (None, w')" "phase_of w' ?a = Dead"
      "frame_except ?a w0 w'" "upstreams w' = upstreams w0"
    by blast
  have h: "handle_request lib conn rid req w = (into_response (HttpError_from ''Session actor is dead''), w')"
    using head fs w'(1)
    by (simp add: handle_request_def handle_request_inner_def handle_read_request_def)
  have ses: "sessions w' = (sessions w)(u \<mapsto> ?a)"
    using w'(3) f by (simp add: frame_except_def)
  have "resolve conn False u w' = None"
    using ses w'(2) by (simp add: resolve_def find_session_def is_alive_def)
  moreover have "session_drop ?a w' = w'" using w'(2) by (simp add: session_drop_def)
  ultimately show ?thesis
    using h ses w' f by simp
qed

theorem failed_connect_leaves_stale_entry_witness:
  "\<exists>w'. handle_request plain_http_lib RefusingConnector 0 (test_request GET ''X-Session'' 3 []) test_server
      = (into_response (HttpError_from ''Session actor is dead''), w') \<and> sessions w' 3 = Some 0"
proof -
  let ?w = "test_server :: unit world"
  let ?q = "test_request GET ''X-Session'' 3 []"
  have head: "parse_head plain_http_lib (cfg_session_key (w_config ?w)) ?q = Ok (Get, 3)" by code_simp
  have s: "sessions ?w 3 = None" by code_simp
  have r: "replies ?w 0 = None" by code_simp
  have e: "c_connect RefusingConnector (next_actor ?w) (upstream (w_config ?w)) = Err (IoOs 111)"
    by code_simp
  have n: "next_actor ?w = 0" by code_simp
  show ?thesis
    using failed_connect_leaves_stale_entry [OF head s r e] n by auto
qed

end
