(* ===== verification/Server_Safety.thy ===== *)
theory Server_Safety
  imports Server_Deadlines Server_Stats Server_Correct
begin

text \<open>
  What holds in every reachable state of the server, whatever the order in which its
  tasks run: the invariant, one reader per connection, dead sessions that stay silent,
  the bounds that the two timeouts put on the life of a session, the causes a session can
  end by, exact traffic counters, and one race that the code does not exclude.
\<close>

section \<open>Short runs to exercise the properties on\<close>

definition demo_post :: "nat \<Rightarrow> string \<Rightarrow> server_body http_request" where
  "demo_post n body = test_request POST DEFAULT_SESSION_KEY n [bytes_of body]"

definition demo_get :: "nat \<Rightarrow> server_body http_request" where
  "demo_get n = test_request GET DEFAULT_SESSION_KEY n []"

definition demo_init :: "'u sys" where
  "demo_init = init_sys 1 (Config_new local_addr 9 5)"

abbreviation demo_exec :: "event \<Rightarrow> echo sys \<Rightarrow> echo sys option" where
  "demo_exec \<equiv> exec plain_http_lib EchoConnector"

definition demo_run :: "event list \<Rightarrow> echo sys" where
  "demo_run es = the (run demo_exec es demo_init)"

definition demo_write :: "event list" where
  "demo_write = [EvRequest (demo_post 3 ''hello''), EvResume 0, EvStart 0, EvConnect 0, EvHandle 0]"

definition demo_read :: "event list" where
  "demo_read = [EvRequest (demo_get 3), EvResume 0, EvStart 0, EvConnect 0, EvHandle 0]"

definition demo_late :: "event list" where
  "demo_late = [EvRequest (demo_get 3), EvStart 0, EvConnect 0, EvTick 9]"

definition demo_race :: "event list" where
  "demo_race = demo_late @ [EvTimer 0, EvRequest (demo_get 3), EvStart 1]"

definition demo_stats :: "event list" where
  "demo_stats = demo_write @ [EvResume 0, EvTakeTx]"

lemma Some_the: "\<not> Option.is_none x \<Longrightarrow> x = Some (the x)"
  by (cases x) simp_all

lemma demo_reachable:
  assumes "\<not> Option.is_none (run demo_exec es demo_init)"
  shows "run demo_exec es demo_init = Some (demo_run es)"
    and "reachable plain_http_lib EchoConnector (demo_run es)"
  using assms by (auto simp: demo_run_def demo_init_def Option.is_none_def intro: reachable_run [OF reachable_init])

section \<open>Reachable states\<close>

text \<open>C10: in every state that the server can reach, for any interleaving of requests, session
  actors, timers, stream polls and drops, the parts fit together: a running session has
  its connection and its two timeout tasks, a locked read half has exactly the open
  stream that holds it, a running session's stream is not aborted and a dead one's is, a
  mailbox never exceeds its capacity and is empty once closed, the table of sessions
  binds an ID only to actors of that ID, and every sleeping timeout task of a live
  session is one of the two it holds.\<close>

theorem server_invariant:
  assumes "run (exec lib conn) es (init_sys cap cfg) = Some s"
  shows "server_wf (s_world s) \<and> (\<forall>a. tasks_owned (s_world s) a)"
  using ok.run_inv [OF init_ok assms] by (simp add: sys_ok_def)

theorem server_invariant_witness:
  "\<exists>s. run demo_exec demo_read demo_init = Some s \<and> server_wf (s_world s)"
proof -
  have "\<not> Option.is_none (run demo_exec demo_read demo_init)" by code_simp
  note s = demo_reachable(1) [OF this]
  from server_invariant [OF s [unfolded demo_init_def]] s show ?thesis by blast
qed

text \<open>C11: at most one response stream reads from a connection: two open streams of the same
  connection are the same stream, it holds the lock of the connection's read half, and it
  reports to the session that owns the connection.\<close>

theorem single_reader:
  assumes "reachable lib conn s" and "streams (s_world s) n = Some st" and "streams (s_world s) m = Some st'"
    and "st_reader st = st_reader st'"
  shows "n = m \<and> read_locks (s_world s) (st_reader st) = Some n \<and> st_session st = st_reader st"
  using server_wfD(3) [OF reachable_wf [OF assms(1)]] assms(2-4) unfolding streams_wf_def
  by (metis option.inject)

theorem single_reader_witness:
  "\<exists>st. streams (s_world (demo_run demo_read)) 0 = Some st \<and>
     read_locks (s_world (demo_run demo_read)) (st_reader st) = Some 0"
proof -
  let ?s = "demo_run demo_read"
  have "\<not> Option.is_none (run demo_exec demo_read demo_init)" by code_simp
  note re = demo_reachable(2) [OF this]
  have "\<not> Option.is_none (streams (s_world ?s) 0)" by code_simp
  then obtain st where "streams (s_world ?s) 0 = Some st" by (auto simp: Option.is_none_def)
  with single_reader [OF re this this refl] show ?thesis by simp
qed

text \<open>C19: once the \<^verbatim>\<open>Session\<close> of an actor has been dropped (or was never made), the actor stays
  dead and its upstream connection is never written to or read from again, whatever
  events follow; in particular a response stream that is still being polled has been cut
  off from it.\<close>

theorem dropped_session_is_silent:
  assumes "reachable lib conn s" and "a < next_actor (s_world s)" and "phase_of (s_world s) a = Dead"
    and "run (exec lib conn) es s = Some s'"
  shows "phase_of (s_world s') a = Dead \<and> upstreams (s_world s') a = upstreams (s_world s) a"
  using gone.run_inv [of a "upstreams (s_world s) a" s lib conn es s'] reachable_ok [OF assms(1)] assms(2-4)
  by (simp add: gone_def)

theorem dropped_session_is_silent_witness:
  "\<exists>s s'. run demo_exec (demo_late @ [EvTimer 0, EvDrop 0]) demo_init = Some s \<and>
     demo_exec (EvRequest (demo_get 3)) s = Some s' \<and>
     phase_of (s_world s') 0 = Dead \<and> upstreams (s_world s') 0 = upstreams (s_world s) 0"
proof -
  let ?s = "demo_run (demo_late @ [EvTimer 0, EvDrop 0])"
  let ?e = "EvRequest (demo_get 3)"
  have "\<not> Option.is_none (run demo_exec (demo_late @ [EvTimer 0, EvDrop 0]) demo_init)" by code_simp
  note s = demo_reachable [OF this]
  have a: "0 < next_actor (s_world ?s)" by code_simp
  have b: "phase_of (s_world ?s) 0 = Dead" by code_simp
  have "\<not> Option.is_none (demo_exec ?e ?s)" by code_simp
  note c = Some_the [OF this]
  from dropped_session_is_silent [OF s(2) a b run_single [of demo_exec ?e, OF c]] s(1) c show ?thesis by blast
qed

section \<open>Timeouts\<close>

text \<open>C15: no session outlives its total timeout. When an actor starts, and from then on the
  runtime wakes each timer in time, then as long as the actor is alive the clock has not
  passed the start by more than the total timeout, whatever traffic there is.\<close>

theorem total_timeout_bound:
  assumes re: "reachable lib conn s" and sp: "phase_of (s_world s) a = Spawned args"
    and st: "exec lib conn (EvStart a) s = Some s1" and ru: "run (exec lib conn) es s1 = Some s2"
    and ti: "timely_run lib conn es s1"
  shows "is_alive (s_world s2) a \<longrightarrow> clock (s_world s2) \<le> clock (s_world s) + a_total_timeout args"
  using start_deadline [OF reachable_ok [OF re] sp st ru ti] by (auto simp: closed_def)

theorem total_timeout_bound_witness:
  "\<exists>s1 s2. demo_exec (EvStart 0) (demo_run [EvRequest (demo_get 3)]) = Some s1 \<and>
     run demo_exec [EvConnect 0, EvTick 5] s1 = Some s2 \<and>
     is_alive (s_world s2) 0 \<and> clock (s_world s2) \<le> 0 + 9"
proof -
  let ?s = "demo_run [EvRequest (demo_get 3)]"
  let ?es = "[EvConnect 0, EvTick 5]"
  let ?s1 = "the (demo_exec (EvStart 0) ?s)"
  let ?s2 = "the (run demo_exec ?es ?s1)"
  have "\<not> Option.is_none (run demo_exec [EvRequest (demo_get 3)] demo_init)" by code_simp
  note re = demo_reachable(2) [OF this]
  have sp: "phase_of (s_world ?s) 0 = Spawned \<lparr>a_session_id = 3, a_upstream = local_addr,
      a_idle_timeout = 5, a_total_timeout = 9\<rparr>" by code_simp
  have "\<not> Option.is_none (demo_exec (EvStart 0) ?s)" by code_simp
  note s1 = Some_the [OF this]
  have "\<not> Option.is_none (run demo_exec ?es ?s1)" by code_simp
  note s2 = Some_the [OF this]
  have ti: "timely_run plain_http_lib EchoConnector ?es ?s1" by code_simp
  have al: "is_alive (s_world ?s2) 0" by code_simp
  have cl: "clock (s_world ?s) = 0" by code_simp
  from total_timeout_bound [OF re sp s1 s2 ti] al cl s1 s2 show ?thesis
    by (metis session_args.select_convs(4))
qed

text \<open>C16: a session that stays idle is closed in time. Once its actor has handled a
  \<^verbatim>\<open>SessionResetIdleTimeout\<close>, and handles no further message, it is alive for at most the
  idle timeout from then on, if the runtime wakes each timer in time.\<close>

theorem idle_timeout_bound:
  assumes re: "reachable lib conn s" and rn: "phase_of (s_world s) a = Running ss"
    and ml: "mail_of (s_world s) a = (SessionResetIdleTimeout, slot) # q"
    and st: "exec lib conn (EvHandle a) s = Some s1" and ru: "run (exec lib conn) es s1 = Some s2"
    and ti: "timely_run lib conn es s1" and no: "EvHandle a \<notin> set es"
  shows "is_alive (s_world s2) a \<longrightarrow> clock (s_world s2) \<le> clock (s_world s) + s_idle_timeout ss"
proof -
  let ?D = "clock (s_world s) + s_idle_timeout ss"
  have w1: "s_world s1 = actor_handle conn a (s_world s)"
    using st rn ml by (auto simp: guarded_def on_world_def)
  note f = actor_handle_reset [OF rn ml refl, where conn = conn]
  have "idle_deadline a ?D (s_world s1) \<and> clock (s_world s1) \<le> ?D"
    by (simp add: w1 f idle_deadline_def)
  moreover have "(t, e) \<in> set (passed (exec lib conn) es s1) \<Longrightarrow> timely t e \<and> e \<noteq> EvHandle a" for t e
    using ti no passed_events [of t e "exec lib conn" es s1] by (auto simp: timely_run_def list_all_iff)
  ultimately have "(idle_deadline a ?D (s_world s2) \<and> clock (s_world s2) \<le> ?D) \<or> closed a s2"
    using idle.run_until [of s1 a ?D lib conn es s2] exec_ok [OF reachable_ok [OF re] st] ru by blast
  then show ?thesis by (auto simp: closed_def)
qed

theorem idle_timeout_bound_witness:
  "\<exists>s1 s2. demo_exec (EvHandle 0) (demo_run demo_write) = Some s1 \<and> run demo_exec [EvTick 5] s1 = Some s2 \<and>
     is_alive (s_world s2) 0 \<and> clock (s_world s2) \<le> 0 + 5"
proof -
  let ?s = "demo_run demo_write"
  let ?s1 = "the (demo_exec (EvHandle 0) ?s)"
  let ?s2 = "the (run demo_exec [EvTick 5] ?s1)"
  have "\<not> Option.is_none (run demo_exec demo_write demo_init)" by code_simp
  note re = demo_reachable(2) [OF this]
  have "case phase_of (s_world ?s) 0 of Running ss \<Rightarrow> s_idle_timeout ss = 5 | _ \<Rightarrow> False" by code_simp
  then obtain ss where rn: "phase_of (s_world ?s) 0 = Running ss" "s_idle_timeout ss = 5"
    by (cases "phase_of (s_world ?s) 0") auto
  have ml: "mail_of (s_world ?s) 0 = [(SessionResetIdleTimeout, None)]" by code_simp
  have "\<not> Option.is_none (demo_exec (EvHandle 0) ?s)" by code_simp
  note s1 = Some_the [OF this]
  have "\<not> Option.is_none (run demo_exec [EvTick 5] ?s1)" by code_simp
  note s2 = Some_the [OF this]
  have ti: "timely_run plain_http_lib EchoConnector [EvTick 5] ?s1" by code_simp
  have al: "is_alive (s_world ?s2) 0" by code_simp
  have cl: "clock (s_world ?s) = 0" by code_simp
  have "EvHandle 0 \<notin> set [EvTick 5]" by simp
  from idle_timeout_bound [OF re rn(1) ml s1 s2 ti this] rn(2) al cl s1 s2 show ?thesis by metis
qed

text \<open>C18: a running session ends only for a reason: one of its own two timeout tasks wakes up
  at or after its deadline (in the middle of a write, too), or the upstream refuses a write. No request, no other
  session, no read error and no event of another actor ends it.\<close>

theorem session_end_causes:
  assumes re: "reachable lib conn s" and rn: "phase_of (s_world s) a = Running ss"
    and ex: "exec lib conn e s = Some s'" and cl: "\<not> is_alive (s_world s') a"
  shows "(\<exists>t d. (e = EvTimer t \<or> (\<exists>k. e = EvTimerInWrite t k)) \<and> tasks (s_world s) t = Some (d, a) \<and> d \<le> clock (s_world s) \<and>
            (total_timeout_task ss = Some t \<or> idle_timeout_task ss = Some t)) \<or>
         (\<exists>bs slot q v err v'. e = EvHandle a \<and> mail_of (s_world s) a = (SessionWrite bs, slot) # q \<and>
            upstreams (s_world s) a = Some v \<and> c_write_all conn v bs = (Err err, v'))"
proof -
  have ok: "sys_ok s" and wf: "server_wf (s_world s)"
    using reachable_ok [OF re] by (simp_all add: sys_ok_def)
  have "a < next_actor (s_world s)" using wf_actor_lt [OF wf, of a] rn by simp
  then have c: "concerns (s_world s) e = Some a"
    using exec_untouched [OF wf ex, of a] cl rn by (fastforce simp: untouched_def is_alive_def)
  have own: "total_timeout_task ss = Some t \<or> idle_timeout_task ss = Some t" if "tasks (s_world s) t = Some (d, a)" for t d
    using ok that rn by (fastforce simp: sys_ok_def tasks_owned_def)
  from ex c show ?thesis
  proof (cases rule: concernedE)
    case (timer t d)
    with own [OF timer(2)] show ?thesis by blast
  next
    case (cut t k d ss' bs slot q r u')
    with own [OF cut(2)] show ?thesis by blast
  next
    case (read ss' slot q)
    with actor_handle_read(1) [OF read(2-4)] cl show ?thesis by (auto simp: is_alive_def)
  next
    case (writes ss' bs slot q r v')
    obtain v where v: "upstreams (s_world s) a = Some v" "upstream_write ss = a"
      using server_wfD(1) [OF wf, of a] rn by auto
    have "\<not> is_ok r" using actor_handle_write(1) [OF writes(2-5), of a] cl writes(2) by (auto simp: is_alive_def split: if_splits)
    then obtain err where "r = Err err" by (cases r) auto
    with writes v rn show ?thesis by auto
  next
    case (reset ss' slot q)
    with actor_handle_reset(1) [OF reset(2-4), of a] cl show ?thesis by (simp add: is_alive_def)
  next
    case (poll n st r)
    with stream_poll_fields(1) [OF poll(4)] cl rn show ?thesis by (simp add: is_alive_def)
  qed (use rn in simp_all)
qed

theorem session_end_causes_witness:
  "\<exists>s s' t d. run demo_exec demo_late demo_init = Some s \<and> demo_exec (EvTimer t) s = Some s' \<and>
     \<not> is_alive (s_world s') 0 \<and> tasks (s_world s) t = Some (d, 0) \<and> d \<le> clock (s_world s)"
proof -
  let ?s = "demo_run demo_late"
  have "\<not> Option.is_none (run demo_exec demo_late demo_init)" by code_simp
  note s = demo_reachable [OF this]
  have "case phase_of (s_world ?s) 0 of Running ss \<Rightarrow> True | _ \<Rightarrow> False" by code_simp
  then obtain ss where rn: "phase_of (s_world ?s) 0 = Running ss"
    by (cases "phase_of (s_world ?s) 0") auto
  have "\<not> Option.is_none (demo_exec (EvTimer 0) ?s)" by code_simp
  note s' = Some_the [OF this]
  have al: "\<not> is_alive (s_world (the (demo_exec (EvTimer 0) ?s))) 0" by code_simp
  from session_end_causes [OF s(2) rn s' al] s(1) s' al show ?thesis by blast
qed

text \<open>A running session has exactly two sleeping timeout tasks, its total and its idle
  one: resetting the idle timeout never leaves an old task behind.\<close>

lemma timer_tasks_exact:
  assumes re: "reachable lib conn s" and rn: "phase_of (s_world s) a = Running ss"
  shows "\<exists>t1 t2. total_timeout_task ss = Some t1 \<and> idle_timeout_task ss = Some t2 \<and> t1 \<noteq> t2 \<and>
     {t. \<exists>d. tasks (s_world s) t = Some (d, a)} = {t1, t2}"
proof -
  have ok: "tasks_owned (s_world s) a" and wf: "server_wf (s_world s)"
    using reachable_ok [OF re] by (simp_all add: sys_ok_def)
  from server_wfD(1) [OF wf, of a] rn
  have "timers_ok (s_world s) a (total_timeout_task ss) (idle_timeout_task ss)" by simp
  then obtain t1 t2 where t: "total_timeout_task ss = Some t1" "idle_timeout_task ss = Some t2" "t1 \<noteq> t2"
      "\<exists>d. tasks (s_world s) t1 = Some (d, a)" "\<exists>d. tasks (s_world s) t2 = Some (d, a)"
    by (auto simp: timers_ok_def task_for_iff)
  moreover have "{t. \<exists>d. tasks (s_world s) t = Some (d, a)} = {t1, t2}"
    using ok t rn by (auto simp: tasks_owned_def)
  ultimately show ?thesis by blast
qed

section \<open>Counters\<close>

text \<open>C20: the counters lose and invent nothing, with arithmetic modulo $2^{64}$: what
  \<^verbatim>\<open>take_stats\<close> has handed out plus what the counters still hold is what request tasks have
  had acknowledged by their session (\<^verbatim>\<open>bytes_tx\<close>) and what response streams have read from
  upstream (\<^verbatim>\<open>bytes_rx\<close>), for every interleaving, also of the two swaps with other tasks.\<close>

theorem stats_conserved:
  assumes "run (exec lib conn) es (init_sys cap cfg) = Some s"
  shows "let ps = passed (exec lib conn) es (init_sys cap cfg)
    in bytes_tx (w_stats (s_world s)) + over_run taken_tx ps = over_run acked_bytes ps \<and>
       bytes_rx (w_stats (s_world s)) + over_run taken_rx ps = over_run (polled_bytes conn) ps"
  using tx.run_amount [OF assms] rx.run_amount [OF assms]
  by (simp add: over_run_def init_sys_def with_connector_def stats_default_def)

theorem stats_conserved_witness:
  "\<exists>s. run demo_exec demo_stats demo_init = Some s \<and>
     (let ps = passed demo_exec demo_stats demo_init
      in over_run taken_tx ps = 5 \<and>
         bytes_tx (w_stats (s_world s)) + over_run taken_tx ps = over_run acked_bytes ps)"
proof -
  have r: "\<not> Option.is_none (run demo_exec demo_stats demo_init)" by code_simp
  note s = demo_reachable(1) [OF r]
  have v: "over_run taken_tx (passed demo_exec demo_stats demo_init) = 5"
    by code_simp
  from stats_conserved [OF s [unfolded demo_init_def]] v s show ?thesis
    by (auto simp: Let_def demo_init_def)
qed

section \<open>A race\<close>

text \<open>C31: a \<^verbatim>\<open>Session\<close> is dropped after its mailbox is closed, and its \<^verbatim>\<open>Drop\<close> removes its ID from the
  table without looking at which actor is bound to it. When a request has replaced the
  closed session meanwhile, the drop unregisters the new, live session: a \<^verbatim>\<open>PATCH\<close> for the
  ID is then refused although the session lives. The state is reachable.\<close>

theorem drop_unregisters_successor:
  assumes "phase_of w a = Closing ss" and "server_alive w" and "sessions w (session_id ss) = Some b"
    and "is_alive w b" and "parse_head lib (cfg_session_key (w_config w)) req = Ok (Patch, session_id ss)"
  shows "let w' = session_drop a w
    in is_alive w' b \<and> sessions w' (session_id ss) = None \<and>
       handle_request lib conn rid req w' = (into_response (HttpError_from ''No session''), w')"
proof -
  have ab: "b \<noteq> a" using assms(1,4) by (auto simp: is_alive_def)
  have cfg: "w_config (session_drop a w) = w_config w"
    using assms(1) by (simp add: session_drop_def abort_task_def abort_stream_def remove_session_def Let_def
        split: option.splits)
  note f = session_drop_fields [OF assms(1) refl]
  show ?thesis
    using ab assms(2,4,5)
    by (simp add: Let_def is_alive_def f cfg handle_request_def handle_request_inner_def find_session_def)
qed

theorem drop_unregisters_successor_witness:
  "\<exists>s. run demo_exec demo_race demo_init = Some s \<and> is_alive (session_drop 0 (s_world s)) 1 \<and>
     sessions (session_drop 0 (s_world s)) 3 = None"
proof -
  let ?s = "demo_run demo_race"
  let ?req = "test_request PATCH DEFAULT_SESSION_KEY 3 []"
  have r: "\<not> Option.is_none (run demo_exec demo_race demo_init)" by code_simp
  have p: "(case phase_of (s_world ?s) 0 of Closing ss \<Rightarrow> session_id ss = 3 | _ \<Rightarrow> False)" by code_simp
  then obtain ss where ss: "phase_of (s_world ?s) 0 = Closing ss" "session_id ss = 3"
    by (cases "phase_of (s_world ?s) 0") auto
  have a: "server_alive (s_world ?s)" by code_simp
  have b: "sessions (s_world ?s) 3 = Some 1" by code_simp
  have c: "is_alive (s_world ?s) 1" by code_simp
  have d: "parse_head plain_http_lib (cfg_session_key (w_config (s_world ?s))) ?req = Ok (Patch, 3)" by code_simp
  from drop_unregisters_successor [OF ss(1) a, of 1 plain_http_lib ?req] b c d ss(2)
    demo_reachable(1) [OF r] show ?thesis by (auto simp: Let_def)
qed

end
