(* ===== verification/Server_Refinement.thy ===== *)
theory Server_Refinement
  imports Server_Safety
begin

text \<open>
  The two readings of a request agree: \<open>handle_request\<close>, in which only the session works
  while the handler waits, is one of the schedules of the event system \<open>exec\<close>.
\<close>

section \<open>An actor at work is a sequence of events\<close>

definition actor_events :: "nat \<Rightarrow> event set" where
  "actor_events a = {EvStart a, EvConnect a, EvHandle a}"

lemma run_actor_events:
  assumes "s_world s = w"
  shows "\<exists>es. run (exec lib conn) es s = Some (s\<lparr>s_world := run_actor conn a w\<rparr>) \<and> set es \<subseteq> actor_events a"
  using assms
proof (induction conn a w arbitrary: s rule: run_actor.induct)
  case (1 conn a w)
  have go: ?case if e: "exec lib conn e s = Some (s\<lparr>s_world := w1\<rparr>)" "e \<in> actor_events a"
      and r: "run_actor conn a w = run_actor conn a w1"
      and ih: "\<And>s. s_world s = w1 \<Longrightarrow>
        \<exists>es. run (exec lib conn) es s = Some (s\<lparr>s_world := run_actor conn a w1\<rparr>) \<and> set es \<subseteq> actor_events a"
    for e w1
  proof -
    from ih [of "s\<lparr>s_world := w1\<rparr>"] obtain es
      where "run (exec lib conn) es (s\<lparr>s_world := w1\<rparr>) = Some (s\<lparr>s_world := run_actor conn a w1\<rparr>)"
        "set es \<subseteq> actor_events a" by auto
    with e r show ?thesis by (intro exI [of _ "e # es"]) simp
  qed
  have stay: ?case if "run_actor conn a w = w"
    using that 1(4) by (intro exI [of _ "[]"]) simp
  show ?case
  proof (cases "phase_of w a")
    case (Spawned args)
    with 1(4) show ?thesis
      by (intro go [of "EvStart a" "on_start_begin a w"] 1(1) [OF Spawned])
         (simp_all add: guarded_def on_world_def actor_events_def run_actor.simps [of conn a w])
  next
    case (Connecting args tt it)
    with 1(4) show ?thesis
      by (intro go [of "EvConnect a" "on_start_connect conn a w"] 1(2) [OF Connecting])
         (simp_all add: guarded_def on_world_def actor_events_def run_actor.simps [of conn a w])
  next
    case (Running ss)
    show ?thesis
    proof (cases "mail_of w a = []")
      case True
      with Running show ?thesis by (intro stay) (simp add: run_actor.simps [of conn a w])
    next
      case False
      with 1(4) Running show ?thesis
        by (intro go [of "EvHandle a" "actor_handle conn a w"] 1(3) [OF Running False])
           (simp_all add: guarded_def on_world_def actor_events_def run_actor.simps [of conn a w])
    qed
  next
    case (Closing ss)
    then show ?thesis by (intro stay) (simp add: run_actor.simps [of conn a w])
  next
    case Dead
    then show ?thesis by (intro stay) (simp add: run_actor.simps [of conn a w])
  qed
qed

section \<open>An ask is answered unless its actor dies\<close>

fun answers :: "message \<Rightarrow> reply \<Rightarrow> bool" where
  "answers SessionRead (ReadReply _) = True"
| "answers (SessionWrite _) WriteReply = True"
| "answers _ _ = False"

definition asked :: "nat \<Rightarrow> nat \<Rightarrow> message \<Rightarrow> 'u world \<Rightarrow> bool" where
  "asked rid a m w \<longleftrightarrow>
     m \<noteq> SessionResetIdleTimeout \<and>
     (\<forall>m' slot. (m', slot) \<in> set (mail_of w a) \<longrightarrow> slot = Some rid \<longrightarrow> m' = m) \<and>
     (is_alive w a \<or> mail_of w a = []) \<and>
     (\<forall>r. replies w rid = Some r \<longrightarrow> answers m r) \<and>
     (replies w rid = None \<longrightarrow> is_alive w a \<longrightarrow> (m, Some rid) \<in> set (mail_of w a))"

lemma asked_start:
  assumes "asked rid a m w" and "phase_of w a = Spawned args"
  shows "asked rid a m (on_start_begin a w)"
proof -
  have "replies (on_start_begin a w) = replies w"
    using assms(2) by (simp add: on_start_begin_def actor_timeout_def Let_def)
  moreover have "is_alive w a" "is_alive (on_start_begin a w) a"
    using assms(2) on_start_begin_fields(1) [OF assms(2) refl] by (simp_all add: is_alive_def)
  ultimately show ?thesis
    using assms(1) on_start_begin_fields(2) [OF assms(2) refl] by (simp add: asked_def)
qed

lemma asked_connect:
  assumes as: "asked rid a m w" and ph: "phase_of w a = Connecting args tt it"
  shows "asked rid a m (on_start_connect conn a w)"
proof -
  let ?w = "on_start_connect conn a w"
  have r: "replies ?w = replies w"
    using ph by (simp add: on_start_connect_def reset_idle_timeout_def actor_timeout_def abort_task_def
        Let_def split: sum.splits)
  have al: "is_alive w a" using ph by (simp add: is_alive_def)
  from on_start_connect_phase [OF ph, of conn] show ?thesis
  proof
    assume "phase_of ?w a = Dead \<and> mail_of ?w a = []"
    with as r show ?thesis by (simp add: asked_def is_alive_def)
  next
    assume "(\<exists>s. phase_of ?w a = Running s) \<and> mail_of ?w a = mail_of w a"
    then have "is_alive ?w a" "mail_of ?w a = mail_of w a" by (auto simp: is_alive_def)
    with as r al show ?thesis by (simp add: asked_def)
  qed
qed

definition replied :: "nat option \<Rightarrow> reply \<Rightarrow> (nat \<Rightarrow> reply option) \<Rightarrow> nat \<Rightarrow> reply option" where
  "replied slot v rs = (case slot of None \<Rightarrow> rs | Some n \<Rightarrow> rs(n \<mapsto> v))"

lemma send_reply_replies [simp]:
  "replies (send_reply slot v w) = replied slot v (replies w)"
  "mailbox_cap (send_reply slot v w) = mailbox_cap w"
  "is_alive (send_reply slot v w) a = is_alive w a"
  by (simp_all add: send_reply_def replied_def is_alive_def split: option.splits)

lemma handle_read_mail:
  assumes "phase_of w a = Running ss" and "mail_of w a = (SessionRead, slot) # q" and "w' = actor_handle conn a w"
  shows "mail_of w' a = q" "is_alive w' a" "mailbox_cap w' = mailbox_cap w"
    "\<exists>x. replies w' = replied slot (ReadReply x) (replies w)"
  using assms(1,2)
  by (auto simp: assms(3) actor_handle_def handle_SessionRead_def Let_def is_alive_def split: option.splits)

lemma handle_write_mail:
  assumes "phase_of w a = Running ss" and "mail_of w a = (SessionWrite bs, slot) # q"
    and "w' = actor_handle conn a w"
  shows "set (mail_of w' a) \<subseteq> insert (SessionResetIdleTimeout, None) (set q)"
    "is_alive w' a \<Longrightarrow> set q \<subseteq> set (mail_of w' a)"
    "is_alive w' a \<or> mail_of w' a = []" "mailbox_cap w' = mailbox_cap w"
    "replies w' = replied slot WriteReply (replies w)"
proof -
  let ?w0 = "set_actor a (Running ss) q w"
  obtain r u' where c: "c_write_all conn (the (upstreams w (upstream_write ss))) bs = (r, u')" by fastforce
  let ?w1 = "?w0\<lparr>upstreams := (upstreams w)(upstream_write ss \<mapsto> u')\<rparr>"
  have w': "w' = send_reply slot WriteReply
      (case r of Inl e \<Rightarrow> close_actor a ?w1 | Inr _ \<Rightarrow> try_send a SessionResetIdleTimeout ?w1)"
    using assms(1,2) c by (simp add: assms(3) actor_handle_def handle_SessionWrite_def split: sum.splits)
  have t: "mail_of (try_send a SessionResetIdleTimeout ?w1) a = q \<or>
      mail_of (try_send a SessionResetIdleTimeout ?w1) a = q @ [(SessionResetIdleTimeout, None)]"
    "is_alive (try_send a SessionResetIdleTimeout ?w1) a"
    "replies (try_send a SessionResetIdleTimeout ?w1) = replies w"
    "mailbox_cap (try_send a SessionResetIdleTimeout ?w1) = mailbox_cap w"
    by (simp_all add: try_send_def is_alive_def)
  have cl: "mail_of (close_actor a ?w1) a = []" "\<not> is_alive (close_actor a ?w1) a"
    "replies (close_actor a ?w1) = replies w" "mailbox_cap (close_actor a ?w1) = mailbox_cap w"
    by (simp_all add: close_actor_def is_alive_def)
  show "set (mail_of w' a) \<subseteq> insert (SessionResetIdleTimeout, None) (set q)"
    "is_alive w' a \<Longrightarrow> set q \<subseteq> set (mail_of w' a)"
    "is_alive w' a \<or> mail_of w' a = []" "mailbox_cap w' = mailbox_cap w"
    "replies w' = replied slot WriteReply (replies w)"
    using t cl by (cases r; auto simp: w')+
qed

lemma handle_reset_mail:
  assumes "phase_of w a = Running ss" and "mail_of w a = (SessionResetIdleTimeout, slot) # q"
    and "w' = actor_handle conn a w"
  shows "mail_of w' a = q" "is_alive w' a" "replies w' = replies w" "mailbox_cap w' = mailbox_cap w"
  using assms(1,2)
  by (simp_all add: assms(3) actor_handle_def handle_SessionResetIdleTimeout_def reset_idle_timeout_def
      actor_timeout_def abort_task_def Let_def is_alive_def split: option.splits)

lemma asked_handle:
  assumes as: "asked rid a m w" and ru: "phase_of w a = Running ss" and q: "mail_of w a = (m', slot) # q"
  shows "asked rid a m (actor_handle conn a w)"
proof -
  let ?w = "actor_handle conn a w"
  have al: "is_alive w a" using ru by (simp add: is_alive_def)
  have same: "slot = Some rid \<Longrightarrow> m' = m"
    "\<And>m'' sl. (m'', sl) \<in> set q \<Longrightarrow> sl = Some rid \<Longrightarrow> m'' = m"
    "m \<noteq> SessionResetIdleTimeout"
    using as q by (auto simp: asked_def)
  have old: "replies w rid = Some r \<Longrightarrow> answers m r" for r using as by (auto simp: asked_def)
  have wait: "replies w rid = None \<Longrightarrow> slot \<noteq> Some rid \<Longrightarrow> (m, Some rid) \<in> set q"
    using as q al by (auto simp: asked_def)
  have new: "asked rid a m ?w"
    if "\<And>x. x \<in> set (mail_of ?w a) \<Longrightarrow> x = (SessionResetIdleTimeout, None) \<or> x \<in> set q"
      and "is_alive ?w a \<Longrightarrow> set q \<subseteq> set (mail_of ?w a)" and "is_alive ?w a \<or> mail_of ?w a = []"
      and "replies ?w = replied slot v (replies w)" and "slot = Some rid \<Longrightarrow> answers m v" for v
    unfolding asked_def
  proof (intro conjI allI impI)
    show "is_alive ?w a \<or> mail_of ?w a = []" by (rule that(3))
    show "(m'', sl) \<in> set (mail_of ?w a) \<Longrightarrow> sl = Some rid \<Longrightarrow> m'' = m" for m'' sl
      using that(1) same(2) by blast
    show "replies ?w rid = Some r \<Longrightarrow> answers m r" for r
      using that(4,5) old by (auto simp: replied_def split: option.splits if_splits)
    show "replies ?w rid = None \<Longrightarrow> is_alive ?w a \<Longrightarrow> (m, Some rid) \<in> set (mail_of ?w a)"
      using that(2,4) wait by (auto simp: replied_def split: option.splits if_splits)
  qed (rule same(3))
  show ?thesis
  proof (cases m')
    case SessionRead
    note f = handle_read_mail [OF ru q [unfolded SessionRead] refl, where conn = conn]
    from f(4) obtain x where "replies ?w = replied slot (ReadReply x) (replies w)" ..
    with f(1,2) same(1) SessionRead show ?thesis by (intro new) auto
  next
    case (SessionWrite bs)
    note f = handle_write_mail [OF ru q [unfolded SessionWrite] refl, where conn = conn]
    show ?thesis
      by (rule new [OF _ f(2,3,5)]) (use f(1) same(1) SessionWrite in auto)
  next
    case SessionResetIdleTimeout
    note f = handle_reset_mail [OF ru q [unfolded SessionResetIdleTimeout] refl, where conn = conn]
    have "slot \<noteq> Some rid" using same(1,3) SessionResetIdleTimeout by auto
    with f same(2,3) old wait show ?thesis by (auto simp: asked_def)
  qed
qed

lemma run_actor_asked:
  assumes "asked rid a m w"
  shows "asked rid a m (run_actor conn a w) \<and> mail_of (run_actor conn a w) a = []"
  using assms
proof (induction conn a w rule: run_actor.induct)
  case (1 conn a w)
  show ?case
  proof (cases "phase_of w a")
    case (Spawned args)
    with 1(1) [OF Spawned asked_start [OF 1(4) Spawned]] show ?thesis
      by (simp add: run_actor.simps [of conn a w])
  next
    case (Connecting args tt it)
    with 1(2) [OF Connecting asked_connect [OF 1(4) Connecting]] show ?thesis
      by (simp add: run_actor.simps [of conn a w])
  next
    case (Running ss)
    show ?thesis
    proof (cases "mail_of w a")
      case Nil
      with Running 1(4) show ?thesis by (simp add: run_actor.simps [of conn a w])
    next
      case (Cons x q)
      obtain m' slot where x: "x = (m', slot)" by fastforce
      have "mail_of w a \<noteq> []" by (simp add: Cons)
      from 1(3) [OF Running this asked_handle [OF 1(4) Running Cons [unfolded x]]] Running Cons show ?thesis
        by (simp add: run_actor.simps [of conn a w])
    qed
  next
    case (Closing ss)
    with 1(4) show ?thesis by (simp add: run_actor.simps [of conn a w] asked_def is_alive_def)
  next
    case Dead
    with 1(4) show ?thesis by (simp add: run_actor.simps [of conn a w] asked_def is_alive_def)
  qed
qed

lemma run_actor_cap: "mailbox_cap (run_actor conn a w) = mailbox_cap w"
  using same_globals_run [of w conn a] by (simp add: same_globals_def)

section \<open>An undisturbed request is one of the schedules\<close>

lemma take_reply_none: "replies w rid = None \<Longrightarrow> take_reply rid w = w"
  by (simp add: take_reply_def fun_upd_idem)

text \<open>An ask of an actor with nothing to do: what comes back, and that the slot is free again.\<close>

lemma ask_cases:
  assumes al: "is_alive w a" and q: "mail_of w a = []" and rep: "replies w rid = None"
    and m: "m \<noteq> SessionResetIdleTimeout" and ask: "ask conn rid a m w = (r, w')"
  shows "let w1 = run_actor conn a (enqueue a (m, Some rid) w)
    in replies w1 rid = r \<and> w' = take_reply rid w1 \<and> replies w' rid = None \<and> mail_of w' a = [] \<and>
       mailbox_cap w' = mailbox_cap w \<and> (case r of None \<Rightarrow> \<not> is_alive w1 a \<and> w' = w1 | Some v \<Rightarrow> answers m v)"
proof -
  define w1 where "w1 = run_actor conn a (enqueue a (m, Some rid) w)"
  have "asked rid a m (enqueue a (m, Some rid) w)"
    using assms(1-4) by (auto simp: asked_def is_alive_def)
  from run_actor_asked [OF this, of conn] have as: "asked rid a m w1" "mail_of w1 a = []"
    by (simp_all add: w1_def)
  have w': "r = replies w1 rid" "w' = take_reply rid w1"
    using ask al by (auto simp: ask_def w1_def Let_def)
  have "mailbox_cap w1 = mailbox_cap w" by (simp add: w1_def run_actor_cap)
  with as w' show ?thesis
    by (auto simp: Let_def w1_def [symmetric] asked_def take_reply_none split: option.splits)
       (simp_all add: take_reply_def)
qed

definition at_request :: "nat \<Rightarrow> req_state \<Rightarrow> 'u world \<Rightarrow> 'u sys \<Rightarrow> 'u sys" where
  "at_request rid rs w s = s\<lparr>s_world := w, s_reqs := (s_reqs s)(rid \<mapsto> rs)\<rparr>"

lemma at_request_simps [simp]:
  "s_world (at_request rid rs w s) = w" "s_reqs (at_request rid rs w s) = (s_reqs s)(rid \<mapsto> rs)"
  "s_next_req (at_request rid rs w s) = s_next_req s"
  "at_request rid rs w (at_request rid rs' w' s) = at_request rid rs w s"
  "(at_request rid rs w s)\<lparr>s_world := w'\<rparr> = at_request rid rs w' s"
  by (simp_all add: at_request_def)

lemma resume_run:
  assumes "request_step rid rs w = Some (rs', w')"
  shows "\<exists>es. run (exec lib conn) es (at_request rid rs w s) = Some (at_request rid rs' w' s)"
  using assms by (intro exI [of _ "[EvResume rid]"]) (simp add: at_request_def)

lemma resume:
  assumes "request_step rid rs w = Some (rs', w')"
  shows "exec lib conn (EvResume rid) (at_request rid rs w s) = Some (at_request rid rs' w' s)"
  using assms by (simp add: at_request_def)

text \<open>Send the message, let the actor work, take what came back.\<close>

lemma ask_schedule:
  assumes "request_step rid rs w = Some (rs1, enqueue a (m, Some rid) w)"
    and "request_step rid rs1 (run_actor conn a (enqueue a (m, Some rid) w)) = Some (rs2, w2)"
  shows "\<exists>es. run (exec lib conn) es (at_request rid rs w s) = Some (at_request rid rs2 w2 s)"
proof -
  let ?w = "enqueue a (m, Some rid) w"
  from run_actor_events [of "at_request rid rs1 ?w s" ?w lib conn a] obtain es where
      es: "run (exec lib conn) es (at_request rid rs1 ?w s) = Some (at_request rid rs1 (run_actor conn a ?w) s)"
    by auto
  have "run (exec lib conn) (EvResume rid # es @ [EvResume rid]) (at_request rid rs w s)
      = Some (at_request rid rs2 w2 s)"
    using resume [OF assms(1), of lib conn s] resume [OF assms(2), of lib conn s] es by (simp add: run_append)
  then show ?thesis by blast
qed

lemma answered_cases:
  "answers m r \<Longrightarrow> (m = SessionRead \<and> (\<exists>x. r = ReadReply x)) \<or> (\<exists>bs. m = SessionWrite bs \<and> r = WriteReply)"
  by (cases m; cases r) auto

lemma read_schedule:
  assumes q: "mail_of w a = []" and cap: "0 < mailbox_cap w" and rep: "replies w rid = None"
    and h: "handle_read_request conn rid a w = (r, w')"
  shows "\<exists>es. run (exec lib conn) es (at_request rid (ReqRead a) w s)
     = Some (at_request rid (ReqDone (case r of Inl e \<Rightarrow> into_response e | Inr x \<Rightarrow> x)) w' s)"
proof (cases "is_alive w a")
  case False
  then have "request_step rid (ReqRead a) w = Some (req_error ''Session actor is dead'', w)" by simp
  moreover have "r = bail ''Session actor is dead''" "w' = w"
    using False h by (auto simp: handle_read_request_def ask_def)
  ultimately show ?thesis
    using resume_run [of rid "ReqRead a" w "req_error ''Session actor is dead''" w lib conn s]
    by (simp add: req_error_def)
next
  case True
  obtain x wx where ask: "ask conn rid a SessionRead w = (x, wx)" by fastforce
  let ?w1 = "run_actor conn a (enqueue a (SessionRead, Some rid) w)"
  note c = ask_cases [OF True q rep _ ask, simplified Let_def, simplified]
  have s1: "request_step rid (ReqRead a) w = Some (ReqReadWait a, enqueue a (SessionRead, Some rid) w)"
    using True q cap by (simp add: mailbox_full_def)
  have "request_step rid (ReqReadWait a) ?w1
      = Some (ReqDone (case r of Inl e \<Rightarrow> into_response e | Inr x \<Rightarrow> x), w')"
  proof (cases x)
    case None
    with c ask h show ?thesis by (auto simp: handle_read_request_def req_error_def)
  next
    case (Some v)
    with c answered_cases [of SessionRead v] obtain y where "v = ReadReply y" by auto
    with Some c ask h show ?thesis
      by (auto simp: handle_read_request_def read_result_def split: option.splits)
  qed
  from ask_schedule [OF s1 this] show ?thesis .
qed


text \<open>One chunk: it is acknowledged, or the session has died.\<close>

lemma chunk_schedule:
  assumes al: "is_alive w a" and q: "mail_of w a = []" and cap: "0 < mailbox_cap w" and rep: "replies w rid = None"
    and ask: "ask conn rid a (SessionWrite d) w = (y, w1)"
  shows "mail_of w1 a = [] \<and> mailbox_cap w1 = mailbox_cap w \<and> replies w1 rid = None \<and>
    (case y of
       None \<Rightarrow> \<exists>es. run (exec lib conn) es (at_request rid (ReqWrite a tot (Inr d # ds)) w s)
                 = Some (at_request rid (req_error ''actor stopped'') w1 s)
     | Some v \<Rightarrow> v = WriteReply \<and>
         (\<exists>es. run (exec lib conn) es (at_request rid (ReqWrite a tot (Inr d # ds)) w s)
            = Some (at_request rid (ReqWrite a (tot + word_of_nat (length d)) ds)
                      (w1\<lparr>w_stats := add_tx (length d) (w_stats w1)\<rparr>) s)))"
proof -
  let ?w = "run_actor conn a (enqueue a (SessionWrite d, Some rid) w)" and ?tot = "tot + word_of_nat (length d)"
  note c = ask_cases [OF al q rep _ ask, simplified Let_def, simplified]
  have k: "mail_of w1 a = []" "mailbox_cap w1 = mailbox_cap w" "replies w1 rid = None" using c by blast+
  have s1: "request_step rid (ReqWrite a tot (Inr d # ds)) w
      = Some (ReqWriteWait a (length d) ?tot ds, enqueue a (SessionWrite d, Some rid) w)"
    using al q cap by (simp add: mailbox_full_def)
  show ?thesis
  proof (cases y)
    case None
    with c have "request_step rid (ReqWriteWait a (length d) ?tot ds) ?w = Some (req_error ''actor stopped'', ?w)" by simp
    note sched = ask_schedule [OF s1 this, of lib s]
    from None c have e: "?w = w1" by auto
    from sched [unfolded e] None k show ?thesis by simp
  next
    case (Some v)
    with c answered_cases [of "SessionWrite d" v] have v: "v = WriteReply" by auto
    with Some c have "request_step rid (ReqWriteWait a (length d) ?tot ds) ?w
        = Some (ReqWrite a ?tot ds, w1\<lparr>w_stats := add_tx (length d) (w_stats w1)\<rparr>)" by (simp add: Let_def)
    from ask_schedule [OF s1 this, of lib s] Some v k show ?thesis by simp
  qed
qed

lemma write_schedule:
  assumes "mail_of w a = []" and "0 < mailbox_cap w" and "replies w rid = None"
    and "write_loop conn rid a tot ds w = (r, w')"
  shows "\<exists>es. run (exec lib conn) es (at_request rid (ReqWrite a tot ds) w s)
     = Some (at_request rid (case r of Inl e \<Rightarrow> ReqDone (into_response e) | Inr n \<Rightarrow> finish_write n) w' s)"
  using assms
proof (induction ds arbitrary: tot w)
  case Nil
  then show ?case
    using resume_run [of rid "ReqWrite a tot []" w "finish_write tot" w lib conn s] by auto
next
  case (Cons x ds)
  show ?case
  proof (cases x)
    case (Inl e)
    with Cons.prems show ?thesis
      using resume_run [of rid "ReqWrite a tot (x # ds)" w "req_error ''body error''" w lib conn s]
      by (auto simp: req_error_def)
  next
    case (Inr d)
    let ?tot = "tot + word_of_nat (length d)"
    show ?thesis
    proof (cases "is_alive w a")
      case False
      with Cons.prems(4) Inr have "r = bail ''actor not running''" "w' = w" by (auto simp: ask_def)
      with False Inr show ?thesis
        using resume_run [of rid "ReqWrite a tot (x # ds)" w "req_error ''actor not running''" w lib conn s]
        by (auto simp: req_error_def)
    next
      case True
      obtain y w1 where ask: "ask conn rid a (SessionWrite d) w = (y, w1)" by fastforce
      note c = chunk_schedule [OF True Cons.prems(1-3) ask, of lib tot ds s]
      show ?thesis
      proof (cases y)
        case None
        with c ask Cons.prems(4) Inr show ?thesis by (auto simp: req_error_def into_response_def HttpError_from_def)
      next
        case (Some v)
        let ?w = "w1\<lparr>w_stats := add_tx (length d) (w_stats w1)\<rparr>"
        from c Some obtain es1 where v: "v = WriteReply" and es1: "run (exec lib conn) es1 (at_request rid (ReqWrite a tot (Inr d # ds)) w s)
            = Some (at_request rid (ReqWrite a ?tot ds) ?w s)" by auto
        have "write_loop conn rid a ?tot ds ?w = (r, w')" using Cons.prems(4) Inr ask Some v by simp
        with Cons.IH [of ?w ?tot] c Cons.prems(2) obtain es2 where
            "run (exec lib conn) es2 (at_request rid (ReqWrite a ?tot ds) ?w s)
               = Some (at_request rid (case r of Inl e \<Rightarrow> ReqDone (into_response e) | Inr n \<Rightarrow> finish_write n) w' s)"
          by auto
        with es1 Inr show ?thesis by (intro exI [of _ "es1 @ es2"]) (simp add: run_append)
      qed
    qed
  qed
qed

lemma find_session_quiet:
  assumes "find_session c u w = (Ok a, w1)" and "\<And>b. mail_of w b = []"
  shows "mail_of w1 a = []" "mailbox_cap w1 = mailbox_cap w" "replies w1 = replies w"
  using assms
  by (auto simp: find_session_def insert_session_def new_session_def Let_def split: option.splits if_splits)

lemma begun_schedule:
  assumes cap: "0 < mailbox_cap w" and q: "\<And>a. mail_of w a = []" and rep: "replies w rid = None"
    and h: "handle_request lib conn rid req w = (r, w')" and b: "request_begin lib req w = (rs, w1)"
  shows "\<exists>es. run (exec lib conn) es (at_request rid rs w1 s) = Some (at_request rid (ReqDone r) w' s)"
proof (cases "parse_head lib (cfg_session_key (w_config w)) req")
  case (Inl e)
  with h b show ?thesis
    by (intro exI [of _ "[]"]) (auto simp: handle_request_def handle_request_inner_def request_begin_def)
next
  case (Inr mu)
  obtain m u where mu: "mu = (m, u)" by fastforce
  obtain x w2 where fs: "find_session (m \<noteq> Patch) u w = (x, w2)" by fastforce
  show ?thesis
  proof (cases x)
    case (Inl e)
    with h b Inr mu fs show ?thesis
      by (intro exI [of _ "[]"]) (auto simp: handle_request_def handle_request_inner_def request_begin_def)
  next
    case ok: (Inr a)
    note f = find_session_quiet [OF fs [unfolded ok] q]
    have rq: "rs = (if m = Get then ReqRead a else ReqWrite a 0 (into_data_stream (req_body req)))" "w1 = w2"
      using b Inr mu fs ok by (auto simp: request_begin_def)
    show ?thesis
    proof (cases "m = Get")
      case True
      obtain x' w3 where hr: "handle_read_request conn rid a w2 = (x', w3)" by fastforce
      with h Inr mu fs ok True have "r = (case x' of Inl e \<Rightarrow> into_response e | Inr y \<Rightarrow> y)" "w' = w3"
        by (auto simp: handle_request_def handle_request_inner_def split: sum.splits)
      with read_schedule [OF f(1) _ _ hr, of lib s] cap rep f True rq show ?thesis by simp
    next
      case False
      obtain x' w3 where wl: "write_loop conn rid a 0 (into_data_stream (req_body req)) w2 = (x', w3)"
        by fastforce
      with h Inr mu fs ok False have
          "ReqDone r = (case x' of Inl e \<Rightarrow> ReqDone (into_response e) | Inr n \<Rightarrow> finish_write n)" "w' = w3"
        by (auto simp: handle_request_def handle_request_inner_def handle_write_request_def finish_write_def
            req_error_def split: sum.splits if_splits)
      with write_schedule [OF f(1) _ _ wl, of lib s] cap rep f False rq show ?thesis by simp
    qed
  qed
qed

text \<open>The direct reading of \<^verbatim>\<open>Server::handle_request\<close> refines the concurrent server. On a
  server whose actors have nothing to do, \<open>handle_request\<close> has the same answer and leaves
  the same world as one schedule of events that begins with the request's arrival, for
  every request, library and connector: all that is shown of undisturbed requests holds
  of runs of the event system.\<close>

lemma handle_request_is_a_schedule:
  assumes up: "server_alive (s_world s)" and cap: "0 < mailbox_cap (s_world s)"
    and q: "\<And>a. mail_of (s_world s) a = []" and rep: "replies (s_world s) (s_next_req s) = None"
    and h: "handle_request lib conn (s_next_req s) req (s_world s) = (r, w')"
  shows "\<exists>es. run (exec lib conn) (EvRequest req # es) s =
     Some \<lparr>s_world = w', s_reqs = (s_reqs s)(s_next_req s \<mapsto> ReqDone r), s_next_req = Suc (s_next_req s)\<rparr>"
proof -
  let ?rid = "s_next_req s" and ?s = "s\<lparr>s_next_req := Suc (s_next_req s)\<rparr>"
  obtain rs w1 where b: "request_begin lib req (s_world s) = (rs, w1)" by fastforce
  have start: "exec lib conn (EvRequest req) s = Some (at_request ?rid rs w1 ?s)"
    using up b by (simp add: guarded_def at_request_def)
  from begun_schedule [OF cap q rep h b, of ?s] obtain es where
      "run (exec lib conn) es (at_request ?rid rs w1 ?s) = Some (at_request ?rid (ReqDone r) w' ?s)" ..
  with start have "run (exec lib conn) (EvRequest req # es) s = Some (at_request ?rid (ReqDone r) w' ?s)" by simp
  moreover have "at_request ?rid (ReqDone r) w' ?s =
      \<lparr>s_world = w', s_reqs = (s_reqs s)(?rid \<mapsto> ReqDone r), s_next_req = Suc ?rid\<rparr>"
    by (simp add: at_request_def)
  ultimately show ?thesis by (intro exI [of _ es]) simp
qed

lemma handle_request_is_a_schedule_witness:
  "\<exists>es s'. run demo_exec (EvRequest (demo_get 3) # es) demo_init = Some s' \<and>
     s_reqs s' 0 = Some (ReqDone (read_response 0))"
proof -
  let ?h = "handle_request plain_http_lib EchoConnector (s_next_req (demo_init :: echo sys)) (demo_get 3)
    (s_world demo_init)"
  have "fst ?h = read_response 0" by code_simp
  then have h: "?h = (read_response 0, snd ?h)" by (metis prod.collapse)
  have w: "server_alive (s_world (demo_init :: echo sys))" "0 < mailbox_cap (s_world (demo_init :: echo sys))"
    "replies (s_world (demo_init :: echo sys)) (s_next_req (demo_init :: echo sys)) = None"
    "s_next_req (demo_init :: echo sys) = 0" "\<And>a. mail_of (s_world (demo_init :: echo sys)) a = []"
    by (simp_all add: demo_init_def init_sys_def with_connector_def mail_of_def)
  from handle_request_is_a_schedule [OF w(1,2,5,3) h] obtain es where
    "run demo_exec (EvRequest (demo_get 3) # es) demo_init = Some \<lparr>s_world = snd ?h,
       s_reqs = (s_reqs (demo_init :: echo sys))(0 \<mapsto> ReqDone (read_response 0)), s_next_req = Suc 0\<rparr>"
    unfolding w(4) by blast
  then show ?thesis by (intro exI conjI) (assumption, simp only: sys.simps fun_upd_same)
qed

end
