(* ===== verification/Server_Spec.thy ===== *)
theory Server_Spec
  imports Server_Refinement
begin

text \<open>
  What the server promises, without actors, mailboxes, reply slots, locks and timers: a
  table of open tunnels, one upstream connection each. \<open>spec_request\<close> says what a request
  does to it and which status it is answered with, on every branch; \<open>tunnels\<close> is the
  abstraction of a world, and the refinement shows that \<open>handle_request\<close> implements the
  specification.
\<close>

section \<open>The specification\<close>

record 'u tunnel =
  t_up :: 'u
  t_reading :: bool

record 'u tunnels =
  tn_next :: nat
  tn_table :: "uuid \<Rightarrow> 'u tunnel option"
  tn_stats :: stats

text \<open>
  Writing a request body to the upstream \<open>up\<close>, which is \<open>None\<close> once a write has failed:
  that write itself is still counted and acknowledged.
\<close>

fun spec_write ::
  "'u connector \<Rightarrow> 'u option \<Rightarrow> usize \<Rightarrow> (hyper_error, bytes) result list \<Rightarrow> stats
   \<Rightarrow> status_code \<times> 'u option \<times> stats" where
  "spec_write conn up tot [] st = (if tot = 0 then BAD_REQUEST else NO_CONTENT, up, st)"
| "spec_write conn up tot (Inl e # ds) st = (BAD_REQUEST, up, st)"
| "spec_write conn None tot (Inr d # ds) st = (BAD_REQUEST, None, st)"
| "spec_write conn (Some v) tot (Inr d # ds) st =
     (case c_write_all conn v d of (r, v') \<Rightarrow>
        spec_write conn (if is_ok r then Some v' else None) (tot + word_of_nat (length d)) ds
          (add_tx (length d) st))"

definition spec_serve ::
  "'u connector \<Rightarrow> meth \<Rightarrow> (hyper_error, bytes) result list \<Rightarrow> 'u tunnel \<Rightarrow> stats
   \<Rightarrow> status_code \<times> 'u tunnel option \<times> stats" where
  "spec_serve conn m ds t st =
     (if m = Get
      then (if t_reading t then (TOO_MANY_REQUESTS, Some t, st) else (STATUS_OK, Some (t\<lparr>t_reading := True\<rparr>), st))
      else (case spec_write conn (Some (t_up t)) 0 ds st of
              (c, up, st') \<Rightarrow> (c, map_option (\<lambda>v. t\<lparr>t_up := v\<rparr>) up, st')))"

definition spec_open :: "'u connector \<Rightarrow> socket_addr \<Rightarrow> nat \<Rightarrow> 'u tunnel option" where
  "spec_open conn dst n =
     (case c_connect conn n dst of Inl e \<Rightarrow> None | Inr v \<Rightarrow> Some \<lparr>t_up = v, t_reading = False\<rparr>)"

text \<open>
  A request finds the tunnel of its session ID, or opens one unless it is a \<^verbatim>\<open>PATCH\<close>.
\<close>

definition spec_find :: "'u connector \<Rightarrow> socket_addr \<Rightarrow> bool \<Rightarrow> uuid \<Rightarrow> 'u tunnels \<Rightarrow> 'u tunnel option \<times> nat" where
  "spec_find conn dst can_create u tn =
     (case tn_table tn u of
        Some t \<Rightarrow> (Some t, tn_next tn)
      | None \<Rightarrow> if can_create then (spec_open conn dst (tn_next tn), Suc (tn_next tn)) else (None, tn_next tn))"

definition spec_request ::
  "http_lib \<Rightarrow> config \<Rightarrow> 'u connector \<Rightarrow> server_body http_request \<Rightarrow> 'u tunnels \<Rightarrow> status_code \<times> 'u tunnels" where
  "spec_request lib cfg conn req tn =
     (case parse_head lib (cfg_session_key cfg) req of
        Inl e \<Rightarrow> (BAD_REQUEST, tn)
      | Inr (m, u) \<Rightarrow>
          (case spec_find conn (upstream cfg) (m \<noteq> Patch) u tn of
             (None, n) \<Rightarrow> (BAD_REQUEST, tn\<lparr>tn_next := n\<rparr>)
           | (Some t, n) \<Rightarrow>
               (case spec_serve conn m (into_data_stream (req_body req)) t (tn_stats tn) of
                  (c, t', st) \<Rightarrow>
                    (c, \<lparr>tn_next = n, tn_table = (tn_table tn)(u := t'), tn_stats = st\<rparr>))))"

section \<open>The abstraction\<close>

definition tunnel_of :: "'u world \<Rightarrow> nat \<Rightarrow> 'u tunnel option" where
  "tunnel_of w a =
     (if is_alive w a
      then Some \<lparr>t_up = the (upstreams w a), t_reading = (read_locks w a \<noteq> None)\<rparr> else None)"

definition tunnels :: "'u world \<Rightarrow> 'u tunnels" where
  "tunnels w =
     \<lparr>tn_next = next_actor w, tn_table = (\<lambda>u. Option.bind (sessions w u) (tunnel_of w)), tn_stats = w_stats w\<rparr>"

text \<open>
  A world at rest: the registered sessions have started and answered everything, or are
  closed, and no two IDs share a session.
\<close>

definition at_rest :: "'u world \<Rightarrow> bool" where
  "at_rest w \<longleftrightarrow>
     0 < mailbox_cap w \<and> (\<forall>rid. replies w rid = None) \<and>
     (\<forall>u a. sessions w u = Some a \<longrightarrow> a < next_actor w \<and> (ready w a \<or> \<not> is_alive w a)) \<and>
     (\<forall>u u' a. sessions w u = Some a \<longrightarrow> sessions w u' = Some a \<longrightarrow> u = u')"

text \<open>After a request, its session gets the time to start if it has not yet.\<close>

definition settle :: "http_lib \<Rightarrow> 'u connector \<Rightarrow> server_body http_request \<Rightarrow> 'u world \<Rightarrow> 'u world" where
  "settle lib conn req w =
     (case parse_head lib (cfg_session_key (w_config w)) req of
        Inl e \<Rightarrow> w
      | Inr (m, u) \<Rightarrow> (case sessions w u of None \<Rightarrow> w | Some a \<Rightarrow> run_actor conn a w))"

section \<open>Refinement of the parts\<close>

lemma write_loop_dead:
  assumes "\<not> is_alive w a"
  shows "\<exists>r. write_loop conn rid a tot ds w = (r, w) \<and>
     spec_write conn None tot ds st =
       ((case r of Inl e \<Rightarrow> BAD_REQUEST | Inr n \<Rightarrow> if n = 0 then BAD_REQUEST else NO_CONTENT), None, st)"
proof (cases ds)
  case (Cons x xs)
  with assms show ?thesis by (cases x) (auto simp: ask_def)
qed simp

definition writes_as :: "nat \<Rightarrow> 'u world \<Rightarrow> 'u world \<Rightarrow> 'u option \<Rightarrow> bool" where
  "writes_as a w w' up \<longleftrightarrow>
     frame_except a w w' \<and>
     (case up of
        None \<Rightarrow> \<not> is_alive w' a
      | Some v \<Rightarrow> ready w' a \<and> upstreams w' a = Some v \<and> read_locks w' a = read_locks w a)"

lemma write_loop_refines:
  assumes "ready w a" and "upstreams w a = Some v" and "spec_write conn (Some v) tot ds (w_stats w) = (c, up, st)"
  shows "\<exists>r w'. write_loop conn rid a tot ds w = (r, w') \<and> w_stats w' = st \<and> writes_as a w w' up \<and>
     c = (case r of Inl e \<Rightarrow> BAD_REQUEST | Inr n \<Rightarrow> if n = 0 then BAD_REQUEST else NO_CONTENT)"
  using assms
proof (induction ds arbitrary: w v tot)
  case Nil
  then show ?case by (auto simp: writes_as_def split: option.splits)
next
  case (Cons x ds)
  show ?case
  proof (cases x)
    case (Inl e)
    with Cons.prems show ?thesis by (auto simp: writes_as_def split: option.splits)
  next
    case (Inr d)
    obtain y v1 where wr: "c_write_all conn v d = (y, v1)" by fastforce
    let ?tot = "tot + word_of_nat (length d)"
    show ?thesis
    proof (cases y)
      case ok: (Inr z)
      from ask_write_ok [OF Cons.prems(1,2) wr [unfolded ok], of rid] obtain w1 where w1:
          "ask conn rid a (SessionWrite d) w = (Some WriteReply, w1)" "ready w1 a" "frame_except a w w1"
          "upstreams w1 = (upstreams w)(a \<mapsto> v1)" "w_stats w1 = w_stats w" "read_locks w1 = read_locks w" by blast
      let ?w = "w1\<lparr>w_stats := add_tx (length d) (w_stats w1)\<rparr>"
      have "spec_write conn (Some v1) ?tot ds (w_stats ?w) = (c, up, st)"
        using Cons.prems(3) Inr wr ok w1(5) by simp
      from Cons.IH [OF _ _ this] w1(2,4) obtain r w' where
          r: "write_loop conn rid a ?tot ds ?w = (r, w')" "w_stats w' = st" "writes_as a ?w w' up"
          "c = (case r of Inl e \<Rightarrow> BAD_REQUEST | Inr n \<Rightarrow> if n = 0 then BAD_REQUEST else NO_CONTENT)" by auto
      have fr: "frame_except a w ?w" using w1(3) by simp
      have "frame_except a ?w w'" using r(3) by (simp add: writes_as_def)
      from frame_except_trans [OF fr this] r(3) w1(6) have "writes_as a w w' up"
        by (simp add: writes_as_def split: option.splits)
      with r w1(1) Inr show ?thesis by simp
    next
      case err: (Inl e)
      from ask_write_err [OF Cons.prems(1,2) wr [unfolded err], of rid] obtain w1 s where w1:
          "ask conn rid a (SessionWrite d) w = (Some WriteReply, w1)" "phase_of w1 a = Closing s"
          "frame_except a w w1" "w_stats w1 = w_stats w" by blast
      let ?w = "w1\<lparr>w_stats := add_tx (length d) (w_stats w1)\<rparr>"
      have "\<not> is_alive ?w a" using w1(2) by (simp add: is_alive_def)
      from write_loop_dead [OF this, of conn rid ?tot ds "w_stats ?w"] obtain r where
          r: "write_loop conn rid a ?tot ds ?w = (r, ?w)" "spec_write conn None ?tot ds (w_stats ?w) =
            ((case r of Inl e \<Rightarrow> BAD_REQUEST | Inr n \<Rightarrow> if n = 0 then BAD_REQUEST else NO_CONTENT), None, w_stats ?w)"
        by blast
      have "spec_write conn None ?tot ds (w_stats ?w) = (c, up, st)"
        using Cons.prems(3) Inr wr err w1(4) by simp
      with r w1 Inr \<open>\<not> is_alive ?w a\<close> show ?thesis by (auto simp: writes_as_def)
    qed
  qed
qed

text \<open>What a session does with a request, and what the answer's status is.\<close>

definition served ::
  "'u connector \<Rightarrow> nat \<Rightarrow> meth \<Rightarrow> server_body \<Rightarrow> nat \<Rightarrow> 'u world \<Rightarrow> (http_err, response) result \<times> 'u world" where
  "served conn rid m body a w =
     (if m = Get then handle_read_request conn rid a w else handle_write_request conn rid body a w)"

fun status_of :: "(http_err, response) result \<Rightarrow> status_code" where
  "status_of (Inl e) = he_code e"
| "status_of (Inr r) = rsp_status r"

definition calm_actor :: "'u world \<Rightarrow> nat \<Rightarrow> bool" where
  "calm_actor w a \<longleftrightarrow> ready w a \<or> \<not> is_alive w a"

lemma run_actor_calm: "calm_actor w a \<Longrightarrow> run_actor conn a w = w"
  unfolding calm_actor_def by (auto elim!: readyE simp: run_actor_quiet run_actor_closed)

lemma handle_request_served:
  "handle_request lib conn rid req w =
     (case parse_head lib (cfg_session_key (w_config w)) req of
        Inl e \<Rightarrow> (into_response e, w)
      | Inr (m, u) \<Rightarrow>
          (case find_session (m \<noteq> Patch) u w of
             (Inl e, w1) \<Rightarrow> (into_response e, w1)
           | (Inr a, w1) \<Rightarrow>
               (case served conn rid m (req_body req) a w1 of
                  (Inl e, w2) \<Rightarrow> (into_response e, w2) | (Inr r, w2) \<Rightarrow> (r, w2))))"
  by (auto simp: handle_request_def handle_request_inner_def served_def split: sum.splits prod.splits)

lemma served_globals:
  assumes "served conn rid m body a w = (x, w')"
  shows "sessions w' = sessions w \<and> w_config w' = w_config w"
  using assms
  by (auto simp: served_def handle_read_request_def handle_write_request_def same_globals_def
      dest: same_globals_ask write_loop_globals split: prod.splits option.splits reply.splits sum.splits if_splits)

text \<open>The reply slots are free again once a request has been served.\<close>

lemma run_actor_replies:
  assumes "\<forall>x \<in> set (mail_of w a). snd x \<in> {None, Some rid}" and "rid' \<noteq> rid"
  shows "replies (run_actor conn a w) rid' = replies w rid'"
  using assms
proof (induction conn a w rule: run_actor.induct)
  case (1 conn a w)
  show ?case
  proof (cases "phase_of w a")
    case (Spawned args)
    have "replies (on_start_begin a w) = replies w" "mail_of (on_start_begin a w) a = mail_of w a"
      using Spawned by (simp_all add: on_start_begin_def actor_timeout_def Let_def)
    with 1(1) [OF Spawned] 1(4,5) Spawned show ?thesis by (simp add: run_actor.simps [of conn a w])
  next
    case (Connecting args tt it)
    have "replies (on_start_connect conn a w) = replies w"
      "set (mail_of (on_start_connect conn a w) a) \<subseteq> set (mail_of w a)"
      using Connecting by (auto simp: on_start_connect_def reset_idle_timeout_def actor_timeout_def abort_task_def
          Let_def split: sum.splits)
    with 1(2) [OF Connecting] 1(4,5) Connecting show ?thesis by (auto simp: run_actor.simps [of conn a w])
  next
    case (Running ss)
    show ?thesis
    proof (cases "mail_of w a")
      case Nil
      with Running show ?thesis by (simp add: run_actor.simps [of conn a w])
    next
      case (Cons y q)
      obtain m slot where y: "y = (m, slot)" by fastforce
      note ru = Running Cons [unfolded y]
      let ?w = "actor_handle conn a w"
      have sub: "set (mail_of ?w a) \<subseteq> insert (SessionResetIdleTimeout, None) (set q)"
        using handle_read_mail(1) [OF Running _ refl, of slot q conn] handle_reset_mail(1) [OF Running _ refl, of slot q conn]
          handle_write_mail(1) [OF Running _ refl, of _ slot q conn] ru(2) by (cases m) auto
      have ok: "\<forall>x \<in> set (mail_of ?w a). snd x \<in> {None, Some rid}" using sub 1(4) ru(2) by auto
      have "replies ?w rid' = replies w rid'"
        using handle_read_mail(4) [OF Running _ refl, of slot q conn] handle_reset_mail(3) [OF Running _ refl, of slot q conn]
          handle_write_mail(5) [OF Running _ refl, of _ slot q conn] ru(2) 1(4,5)
        by (cases m; cases slot) (auto simp: replied_def)
      then show ?thesis
        using 1(3) [OF Running _ ok 1(5)] ru by (simp add: run_actor.simps [of conn a w])
    qed
  qed (simp_all add: run_actor.simps [of conn a w])
qed

lemma run_actor_no_mail: "mail_of w a = [] \<Longrightarrow> replies w = Map.empty \<Longrightarrow> replies (run_actor conn a w) = Map.empty"
  using run_actor_replies [of w a _ _ conn] by (metis empty_iff empty_set ext n_not_Suc_n)

definition slots_free :: "nat \<Rightarrow> 'u world \<Rightarrow> bool" where
  "slots_free a w \<longleftrightarrow> mail_of w a = [] \<and> replies w = Map.empty"

lemma ask_slots_free:
  assumes ask: "ask conn rid a m w = (r, w')" and free: "slots_free a w" and m: "m \<noteq> SessionResetIdleTimeout"
  shows "slots_free a w'"
proof (cases "is_alive w a")
  case True
  let ?w = "run_actor conn a (enqueue a (m, Some rid) w)"
  from free have q: "mail_of w a = []" and rep: "replies w rid = None" by (simp_all add: slots_free_def)
  note c = ask_cases [OF True q rep m ask, unfolded Let_def]
  have "replies ?w rid' = None" if "rid' \<noteq> rid" for rid'
    using run_actor_replies [of "enqueue a (m, Some rid) w" a rid rid' conn] free that by (simp add: slots_free_def)
  moreover have "mail_of w' a = []" "w' = take_reply rid ?w" using c by auto
  ultimately show ?thesis by (auto simp: slots_free_def take_reply_def)
qed (use assms in \<open>simp add: ask_def\<close>)

lemma write_loop_slots_free:
  "write_loop conn rid a tot ds w = (r, w') \<Longrightarrow> slots_free a w \<Longrightarrow> slots_free a w'"
proof (induction conn rid a tot ds w rule: write_loop.induct)
  case (3 conn rid a tot d ds w)
  obtain x w1 where ask: "ask conn rid a (SessionWrite d) w = (x, w1)" by fastforce
  have "slots_free a w1" using ask_slots_free [OF ask 3(3)] by simp
  moreover have "slots_free a (w1\<lparr>w_stats := st\<rparr>) = slots_free a w1" for st by (simp add: slots_free_def)
  ultimately show ?case using 3 ask by (auto split: option.splits reply.splits)
qed auto

lemma served_slots_free:
  assumes "served conn rid m body a w = (x, w')" and "slots_free a w"
  shows "slots_free a w'" and "replies (run_actor conn a w') = Map.empty"
proof -
  show f: "slots_free a w'"
    using assms by (auto simp: served_def handle_read_request_def handle_write_request_def
        dest: ask_slots_free write_loop_slots_free split: prod.splits option.splits reply.splits sum.splits if_splits)
  then show "replies (run_actor conn a w') = Map.empty" by (simp add: slots_free_def run_actor_no_mail)
qed

lemma served_ready:
  assumes rd: "ready w a" and v: "upstreams w a = Some v"
    and t: "t = \<lparr>t_up = v, t_reading = (read_locks w a \<noteq> None)\<rparr>"
    and sp: "spec_serve conn m (into_data_stream body) t (w_stats w) = (c, t', st)"
    and sv: "served conn rid m body a w = (x, w')"
  shows "status_of x = c \<and> w_stats w' = st \<and> frame_except a w w' \<and> tunnel_of w' a = t' \<and> calm_actor w' a"
proof (cases "m = Get")
  case True
  show ?thesis
  proof (cases "read_locks w a")
    case None
    from ask_read_free [OF rd None, of conn rid] True sv sp t v None show ?thesis
      by (auto simp: served_def handle_read_request_def spec_serve_def read_response_def tunnel_of_def
          calm_actor_def ready_alive)
  next
    case (Some n)
    from ask_read_locked [OF rd Some, of conn rid] True sv sp t v Some show ?thesis
      by (auto simp: served_def handle_read_request_def spec_serve_def HttpError_code_def tunnel_of_def
          calm_actor_def ready_alive)
  qed
next
  case False
  obtain c' up st' where sw: "spec_write conn (Some v) 0 (into_data_stream body) (w_stats w) = (c', up, st')"
    by (metis prod_cases3)
  with sp False t have s: "c = c'" "t' = map_option (\<lambda>v. t\<lparr>t_up := v\<rparr>) up" "st = st'"
    by (auto simp: spec_serve_def)
  from write_loop_refines [OF rd v sw, of rid] obtain r w1 where r: "write_loop conn rid a 0 (into_data_stream body) w = (r, w1)"
      "w_stats w1 = st'" "writes_as a w w1 up"
      "c' = (case r of Inl e \<Rightarrow> BAD_REQUEST | Inr n \<Rightarrow> if n = 0 then BAD_REQUEST else NO_CONTENT)" by blast
  have "status_of x = c" "w' = w1"
    using sv r False s(1) write_loop_Err [of conn rid a 0 "into_data_stream body" w]
    by (auto simp: served_def handle_write_request_def HttpError_from_def write_response_def split: sum.splits if_splits)
  with r s t show ?thesis
    by (cases up) (auto simp: writes_as_def tunnel_of_def calm_actor_def ready_alive)
qed

text \<open>A session that has not started yet serves the request as if it had.\<close>

lemma served_Spawned:
  assumes sp: "phase_of w a = Spawned args" and q: "mail_of w a = []" and cap: "0 < mailbox_cap w"
    and ok: "c_connect conn a (a_upstream args) = Ok v" and sv: "served conn rid m body a (start_actor conn a w) = (x, w')"
  shows "\<exists>w1. served conn rid m body a w = (x, w1) \<and> run_actor conn a w1 = w'"
proof -
  let ?w = "start_actor conn a w"
  note st = start_actor_ok [OF sp ok q cap]
  have "upstreams ?w a = Some v" using st(3) by simp
  then have calm: "calm_actor w' a" using served_ready [OF st(1) _ refl _ sv] by (metis prod_cases3)
  have ask: "ask conn rid a msg w = ask conn rid a msg ?w" for msg by (rule ask_Spawned [OF sp ok])
  show ?thesis
  proof (cases "m = Get \<or> (\<exists>d ds. into_data_stream body = Inr d # ds)")
    case True
    then have "served conn rid m body a w = served conn rid m body a ?w"
      by (auto simp: served_def handle_read_request_def handle_write_request_def ask)
    with sv calm show ?thesis by (simp add: run_actor_calm)
  next
    case False
    then have "into_data_stream body = [] \<or> (\<exists>e ds. into_data_stream body = Inl e # ds)"
      by (cases "into_data_stream body") (auto, metis old.sum.exhaust)
    with False sv have "served conn rid m body a w = (x, w)" "w' = ?w"
      by (auto simp: served_def handle_write_request_def)
    moreover have "run_actor conn a w = ?w"
      using st(1) by (simp add: run_actor_Spawned [OF sp] run_actor_calm calm_actor_def)
    ultimately show ?thesis by simp
  qed
qed

lemma served_unconnected:
  assumes sp: "phase_of w a = Spawned args" and err: "c_connect conn a (a_upstream args) = Err e"
    and rep: "replies w rid = None" and sv: "served conn rid m body a w = (x, w1)"
  shows "status_of x = BAD_REQUEST \<and> \<not> is_alive (run_actor conn a w1) a \<and> frame_except a w (run_actor conn a w1) \<and>
     w_stats (run_actor conn a w1) = w_stats w"
proof (cases "m = Get \<or> (\<exists>d ds. into_data_stream body = Inr d # ds)")
  case True
  obtain msg where msg: "msg = SessionRead \<and> m = Get \<or> (\<exists>d ds. m \<noteq> Get \<and> msg = SessionWrite d \<and> into_data_stream body = Inr d # ds)"
    using True by blast
  from ask_Spawned_err [OF sp err rep, of msg] obtain w' where w': "ask conn rid a msg w = (None, w')"
      "phase_of w' a = Dead" "frame_except a w w'" "w_stats w' = w_stats w" by blast
  have "w1 = w'" "status_of x = BAD_REQUEST"
    using msg w'(1) sv by (auto simp: served_def handle_read_request_def handle_write_request_def HttpError_from_def)
  moreover have "\<not> is_alive w' a" using w'(2) by (simp add: is_alive_def)
  ultimately show ?thesis using w' by (simp add: run_actor_closed)
next
  case False
  then have "into_data_stream body = [] \<or> (\<exists>e ds. into_data_stream body = Inl e # ds)"
    by (cases "into_data_stream body") (auto, metis old.sum.exhaust)
  with False sv have x: "w1 = w" "status_of x = BAD_REQUEST"
    by (auto simp: served_def handle_write_request_def HttpError_from_def)
  have f: "phase_of (start_actor conn a w) a = Dead" "frame_except a w (start_actor conn a w)"
      "w_stats (start_actor conn a w) = w_stats w"
    using sp err by (simp_all add: start_actor_def on_start_begin_def on_start_connect_def actor_timeout_def
        frame_except_def Let_def)
  then have d: "\<not> is_alive (start_actor conn a w) a" by (simp add: is_alive_def)
  have "run_actor conn a w = start_actor conn a w" using d by (simp add: run_actor_Spawned [OF sp] run_actor_closed)
  with x f d show ?thesis by simp
qed

section \<open>Refinement of the server\<close>

lemma run_actor_config [simp]: "w_config (run_actor conn a w) = w_config w"
  using same_globals_run [of w conn a] by (simp add: same_globals_def)

lemma at_restD:
  assumes "at_rest w" and "sessions w u = Some a"
  shows "a < next_actor w" "calm_actor w a" "sessions w u' = Some a \<Longrightarrow> u' = u"
  using assms by (auto simp: at_rest_def calm_actor_def)

text \<open>The table after a request that worked on the session \<open>a\<close> of ID \<open>u\<close> only.\<close>

lemma tunnels_after:
  assumes others: "\<And>u' b. u' \<noteq> u \<Longrightarrow> sessions w u' = Some b \<Longrightarrow> b \<noteq> a \<and> b < next_actor w \<and> calm_actor w b"
    and inj: "\<And>u1 u2 b. u1 \<noteq> u \<Longrightarrow> sessions w u1 = Some b \<Longrightarrow> sessions w u2 = Some b \<Longrightarrow> u1 = u2"
    and here: "sessions w u = Some a" "a < next_actor w" and cap: "0 < mailbox_cap w"
    and fr: "frame_except a w w'" and calm: "calm_actor w' a" and rep: "replies w' = Map.empty"
  shows "tunnels w' = \<lparr>tn_next = next_actor w, tn_table = (tn_table (tunnels w))(u := tunnel_of w' a), tn_stats = w_stats w'\<rparr>"
    and "at_rest w'"
proof -
  have f: "sessions w' = sessions w" "next_actor w' = next_actor w" "mailbox_cap w' = mailbox_cap w"
    using fr by (simp_all add: frame_except_def)
  have same: "tunnel_of w' b = tunnel_of w b" "calm_actor w' b = calm_actor w b" if "b \<noteq> a" for b
    using fr that by (simp_all add: frame_except_def tunnel_of_def calm_actor_def ready_def is_alive_def)
  have "Option.bind (sessions w u') (tunnel_of w') = ((tn_table (tunnels w))(u := tunnel_of w' a)) u'" for u'
    using here(1) others [of u'] same(1) by (cases "sessions w u'") (auto simp: tunnels_def)
  then show "tunnels w' = \<lparr>tn_next = next_actor w, tn_table = (tn_table (tunnels w))(u := tunnel_of w' a), tn_stats = w_stats w'\<rparr>"
    by (simp add: tunnels_def f fun_eq_iff)
  show "at_rest w'"
    unfolding at_rest_def f
  proof (intro conjI allI impI)
    show "b < next_actor w" if "sessions w u' = Some b" for u' b
      using that others here by (cases "u' = u") auto
    show "ready w' b \<or> \<not> is_alive w' b" if "sessions w u' = Some b" for u' b
      using that others [of u' b] here calm same(2) [of b] by (cases "u' = u") (auto simp: calm_actor_def)
    show "u1 = u2" if "sessions w u1 = Some b" "sessions w u2 = Some b" for u1 u2 b
      using that inj by (cases "u1 = u"; cases "u2 = u") auto
  qed (use cap rep in simp_all)
qed

lemma insert_session_frame:
  assumes "insert_session u w = (b, w1)" and "c \<noteq> b"
  shows "tunnel_of w1 c = tunnel_of w c" "calm_actor w1 c = calm_actor w c"
  using insert_session_facts [OF assms(1)] assms(2)
  by (simp_all add: tunnel_of_def calm_actor_def ready_def is_alive_def)

lemma served_response:
  "(case (x, w) of (Inl e, w2) \<Rightarrow> (into_response e, w2) | (Inr r, w2) \<Rightarrow> (r, w2)) = (r', w') \<Longrightarrow>
   rsp_status r' = status_of x \<and> w' = w"
  by (auto simp: into_response_def split: sum.splits)

lemma request_live:
  assumes rest: "at_rest w" and s: "sessions w u = Some a" "is_alive w a"
    and sv: "served conn rid m body a w = (x, w1)"
  shows "at_rest (run_actor conn a w1) \<and>
     (case spec_serve conn m (into_data_stream body) (the (tunnel_of w a)) (w_stats w) of
       (c, t', st) \<Rightarrow> status_of x = c \<and>
          tunnels (run_actor conn a w1) = \<lparr>tn_next = next_actor w, tn_table = (tn_table (tunnels w))(u := t'), tn_stats = st\<rparr>) \<and>
     sessions w1 = sessions w \<and> w_config w1 = w_config w"
proof -
  obtain c t' st where sp: "spec_serve conn m (into_data_stream body) (the (tunnel_of w a)) (w_stats w) = (c, t', st)"
    by (metis prod_cases3)
  have rd: "ready w a" using at_restD(2) [OF rest s(1)] s(2) by (simp add: calm_actor_def)
  then obtain v where v: "upstreams w a = Some v" by (auto elim: readyE)
  have t: "the (tunnel_of w a) = \<lparr>t_up = v, t_reading = (read_locks w a \<noteq> None)\<rparr>"
    using s(2) v by (simp add: tunnel_of_def)
  from served_ready [OF rd v t sp sv] have f: "status_of x = c" "w_stats w1 = st" "frame_except a w w1"
      "tunnel_of w1 a = t'" "calm_actor w1 a" by simp_all
  have o: "b \<noteq> a \<and> b < next_actor w \<and> calm_actor w b" if "u' \<noteq> u" "sessions w u' = Some b" for u' b
    using at_restD [OF rest that(2)] that(1) s(1) by auto
  have inj: "u1 = u2" if "sessions w u1 = Some b" "sessions w u2 = Some b" for u1 u2 b
    using at_restD(3) [OF rest that(1)] that(2) by auto
  have "0 < mailbox_cap w" using rest by (simp add: at_rest_def)
  moreover have "slots_free a w" using rd rest by (auto simp: slots_free_def at_rest_def elim: readyE)
  note rep = served_slots_free(2) [OF sv this, unfolded run_actor_calm [OF f(5)]]
  moreover have "tunnels w1 = \<lparr>tn_next = next_actor w, tn_table = (tn_table (tunnels w))(u := tunnel_of w1 a), tn_stats = w_stats w1\<rparr>"
    "at_rest w1"
    by (rule tunnels_after; use o inj s(1) at_restD(1) [OF rest s(1)] calculation f(3,5) in blast)+
  ultimately show ?thesis using f sp by (simp add: run_actor_calm frame_except_def)
qed

text \<open>The table after a request for which the session \<open>a\<close> has been opened.\<close>

lemma inserted_after:
  assumes rest: "at_rest w" and ins: "insert_session u w = (a, w0)"
    and fr: "frame_except a w0 w'" and calm: "calm_actor w' a" and free: "replies w' = Map.empty"
  shows "tunnels w' = \<lparr>tn_next = Suc (next_actor w), tn_table = (tn_table (tunnels w))(u := tunnel_of w' a), tn_stats = w_stats w'\<rparr>"
    and "at_rest w'"
proof -
  note f = insert_session_facts [OF ins] and same = insert_session_frame [OF ins]
  have cap: "0 < mailbox_cap w0" using rest f(7) by (simp add: at_rest_def)
  have o: "b \<noteq> a \<and> b < next_actor w0 \<and> calm_actor w0 b" if "u' \<noteq> u" "sessions w0 u' = Some b" for u' b
    using at_restD(1,2) [OF rest, of u' b] that f(1,2,13) same(2) [of b] by auto
  have inj: "u1 = u2" if "u1 \<noteq> u" "sessions w0 u1 = Some b" "sessions w0 u2 = Some b" for u1 u2 b
    using at_restD(3) [OF rest, of u1 b u2] o [OF that(1,2)] that f(2) by (auto split: if_splits)
  have here: "sessions w0 u = Some a" "a < next_actor w0" using f(1,2,13) by simp_all
  have tab: "(tn_table (tunnels w0))(u := t) = (tn_table (tunnels w))(u := t)" for t
  proof (rule ext)
    fix u'
    show "((tn_table (tunnels w0))(u := t)) u' = ((tn_table (tunnels w))(u := t)) u'"
      using o [of u'] f(2) same(1) by (cases "u' = u"; cases "sessions w u'") (auto simp: tunnels_def)
  qed
  have "tunnels w' = \<lparr>tn_next = next_actor w0, tn_table = (tn_table (tunnels w0))(u := tunnel_of w' a), tn_stats = w_stats w'\<rparr>"
      "at_rest w'"
    by (rule tunnels_after; use o inj here cap fr calm free in blast)+
  with tab f(13) show "tunnels w' = \<lparr>tn_next = Suc (next_actor w), tn_table = (tn_table (tunnels w))(u := tunnel_of w' a), tn_stats = w_stats w'\<rparr>"
    and "at_rest w'" by simp_all
qed

lemma request_new:
  assumes rest: "at_rest w" and dead: "case sessions w u of None \<Rightarrow> True | Some a \<Rightarrow> \<not> is_alive w a"
    and rep: "replies w rid = None" and ins: "insert_session u w = (a, w0)"
    and sv: "served conn rid m body a w0 = (x, w1)"
  shows "at_rest (run_actor conn a w1) \<and>
     (case spec_open conn (upstream (w_config w)) (next_actor w) of
        None \<Rightarrow> status_of x = BAD_REQUEST \<and> tunnels (run_actor conn a w1) = (tunnels w)\<lparr>tn_next := Suc (next_actor w)\<rparr>
      | Some t \<Rightarrow>
          (case spec_serve conn m (into_data_stream body) t (w_stats w) of
             (c, t', st) \<Rightarrow> status_of x = c \<and> tunnels (run_actor conn a w1) =
                \<lparr>tn_next = Suc (next_actor w), tn_table = (tn_table (tunnels w))(u := t'), tn_stats = st\<rparr>)) \<and>
     sessions w1 u = Some a \<and> w_config w1 = w_config w"
proof -
  note f = insert_session_facts [OF ins]
  let ?args = "\<lparr>a_session_id = u, a_upstream = upstream (w_config w), a_idle_timeout = idle_timeout (w_config w),
     a_total_timeout = total_timeout (w_config w)\<rparr>" and ?w = "run_actor conn a w1"
  have "slots_free a w0" using rest f(4,12) by (auto simp: slots_free_def at_rest_def)
  note free = served_slots_free(2) [OF sv this] and af = inserted_after [OF rest ins, where w' = ?w]
  have cfg: "sessions w1 u = Some a" "w_config w1 = w_config w" using served_globals [OF sv] f(2,8) by simp_all
  show ?thesis
  proof (cases "c_connect conn a (upstream (w_config w))")
    case (Inl e)
    then have "c_connect conn a (a_upstream ?args) = Err e" by simp
    from served_unconnected [OF f(3) this _ sv] rep f(12) have
        r: "status_of x = BAD_REQUEST" "\<not> is_alive ?w a" "frame_except a w0 ?w" "w_stats ?w = w_stats w0" by simp_all
    have c: "calm_actor ?w a" "tunnel_of ?w a = None" using r(2) by (simp_all add: calm_actor_def tunnel_of_def)
    have "(tn_table (tunnels w))(u := None) = tn_table (tunnels w)"
      using dead by (auto simp: tunnels_def tunnel_of_def fun_eq_iff split: option.splits)
    with af(1) [OF r(3) c(1) free] c(2) r(4) f(6) have "tunnels ?w = (tunnels w)\<lparr>tn_next := Suc (next_actor w)\<rparr>"
      by (simp add: tunnels_def)
    with af(2) [OF r(3) c(1) free] r(1) Inl f(1) cfg show ?thesis by (simp add: spec_open_def)
  next
    case (Inr v)
    then have ok: "c_connect conn a (a_upstream ?args) = Ok v" by simp
    let ?w2 = "start_actor conn a w0" and ?t = "\<lparr>t_up = v, t_reading = False\<rparr>"
    have "0 < mailbox_cap w0" using rest f(7) by (simp add: at_rest_def)
    note st = start_actor_ok [OF f(3) ok f(4) this] and sp = served_Spawned [OF f(3,4) this ok]
    obtain c t' s where ss: "spec_serve conn m (into_data_stream body) ?t (w_stats w) = (c, t', s)"
      by (metis prod_cases3)
    obtain x' w2 where sv': "served conn rid m body a ?w2 = (x', w2)" by fastforce
    have u: "upstreams ?w2 a = Some v" "?t = \<lparr>t_up = v, t_reading = (read_locks ?w2 a \<noteq> None)\<rparr>" "w_stats ?w2 = w_stats w"
      using st f(6) by simp_all
    from served_ready [OF st(1) u(1,2) ss [folded u(3)] sv'] have r: "status_of x' = c" "w_stats w2 = s"
        "frame_except a ?w2 w2" "tunnel_of w2 a = t'" "calm_actor w2 a" by simp_all
    from sp [OF sv'] sv have x: "x = x'" "?w = w2" by auto
    have "frame_except a w0 ?w" using frame_except_trans [OF st(2) r(3)] x(2) by simp
    from af [OF this] free r x Inr f(1) cfg ss show ?thesis by (simp add: spec_open_def)
  qed
qed

text \<open>One request, by what the session table says about its ID.\<close>

definition refines_request :: "http_lib \<Rightarrow> 'u connector \<Rightarrow> server_body http_request \<Rightarrow> 'u world \<Rightarrow> response \<Rightarrow> 'u world \<Rightarrow> bool" where
  "refines_request lib conn req w r w1 \<longleftrightarrow>
     spec_request lib (w_config w) conn req (tunnels w) = (rsp_status r, tunnels (settle lib conn req w1)) \<and>
     at_rest (settle lib conn req w1) \<and> w_config (settle lib conn req w1) = w_config w"

lemma refines_live:
  assumes rest: "at_rest w" and h: "handle_request lib conn rid req w = (r, w1)"
    and head: "parse_head lib (cfg_session_key (w_config w)) req = Ok (m, u)"
    and s: "sessions w u = Some a" "is_alive w a"
  shows "refines_request lib conn req w r w1"
proof -
  obtain x w2 where sv: "served conn rid m (req_body req) a w = (x, w2)" by fastforce
  have r: "rsp_status r = status_of x" "w1 = w2"
    using h head sv find_session_live [OF s] served_response [of x w2 r w1]
    by (simp_all add: handle_request_served)
  note l = request_live [OF rest s sv]
  have "settle lib conn req w1 = run_actor conn a w2" using l head s(1) r(2) by (simp add: settle_def)
  moreover have "spec_find conn dst cc u (tunnels w) = (Some (the (tunnel_of w a)), next_actor w)" for dst cc
    using s by (simp add: spec_find_def tunnels_def tunnel_of_def)
  moreover have "tn_stats (tunnels w) = w_stats w" by (simp add: tunnels_def)
  ultimately show ?thesis using l head r by (auto simp: refines_request_def spec_request_def split: prod.splits)
qed

lemma dead_no_tunnel:
  "(case sessions w u of None \<Rightarrow> True | Some a \<Rightarrow> \<not> is_alive w a) \<Longrightarrow> tn_table (tunnels w) u = None"
  by (auto simp: tunnels_def tunnel_of_def split: option.splits)

lemma refines_patch:
  assumes rest: "at_rest w" and h: "handle_request lib conn rid req w = (r, w1)"
    and head: "parse_head lib (cfg_session_key (w_config w)) req = Ok (Patch, u)"
    and dead: "case sessions w u of None \<Rightarrow> True | Some a \<Rightarrow> \<not> is_alive w a"
  shows "refines_request lib conn req w r w1"
proof -
  from find_session_patch [OF dead] obtain msg where "find_session False u w = (bail msg, w)" by blast
  with head h have "rsp_status r = BAD_REQUEST" "w1 = w"
    by (auto simp: handle_request_served into_response_def HttpError_from_def)
  moreover have "settle lib conn req w = w"
    using head at_restD(2) [OF rest] by (auto simp: settle_def run_actor_calm split: option.splits)
  ultimately show ?thesis
    using head dead_no_tunnel [OF dead] rest by (simp add: refines_request_def spec_request_def spec_find_def)
qed

lemma refines_new:
  assumes rest: "at_rest w" and h: "handle_request lib conn rid req w = (r, w1)"
    and head: "parse_head lib (cfg_session_key (w_config w)) req = Ok (m, u)" "m \<noteq> Patch"
    and dead: "case sessions w u of None \<Rightarrow> True | Some a \<Rightarrow> \<not> is_alive w a"
  shows "refines_request lib conn req w r w1"
proof -
  have n: "tn_next (tunnels w) = next_actor w" "tn_stats (tunnels w) = w_stats w" by (simp_all add: tunnels_def)
  obtain a w0 where ins: "insert_session u w = (a, w0)" by fastforce
  obtain x w2 where sv: "served conn rid m (req_body req) a w0 = (x, w2)" by fastforce
  have r: "rsp_status r = status_of x" "w1 = w2"
    using h head sv ins find_session_new [OF dead] served_response [of x w2 r w1]
    by (simp_all add: handle_request_served)
  have rep: "replies w rid = None" using rest by (simp add: at_rest_def)
  note l = request_new [OF rest dead rep ins sv]
  have "settle lib conn req w1 = run_actor conn a w2" using l head r(2) by (simp add: settle_def)
  with l head r dead_no_tunnel [OF dead] n show ?thesis
    by (auto simp: refines_request_def spec_request_def spec_find_def split: prod.splits option.splits)
qed

lemma handle_request_refines:
  assumes rest: "at_rest w" and h: "handle_request lib conn rid req w = (r, w1)"
  shows "refines_request lib conn req w r w1"
proof (cases "parse_head lib (cfg_session_key (w_config w)) req")
  case (Inl e)
  then have "he_code e = BAD_REQUEST" using parse_head_Err by blast
  with Inl h rest show ?thesis
    by (auto simp: refines_request_def handle_request_served spec_request_def settle_def into_response_def)
next
  case (Inr mu)
  obtain m u where mu: "mu = (m, u)" by fastforce
  note head = Inr [unfolded mu]
  show ?thesis
  proof (cases "\<exists>a. sessions w u = Some a \<and> is_alive w a")
    case True
    then show ?thesis using refines_live [OF rest h head] by blast
  next
    case False
    then have "case sessions w u of None \<Rightarrow> True | Some a \<Rightarrow> \<not> is_alive w a" by (auto split: option.splits)
    with refines_patch [OF rest h] refines_new [OF rest h head] head show ?thesis by (cases "m = Patch") simp_all
  qed
qed

text \<open>A server that handles one request after the other; \<open>rid\<close> is the reply slot of a request.\<close>

definition serve ::
  "http_lib \<Rightarrow> 'u connector \<Rightarrow> nat \<times> server_body http_request \<Rightarrow> 'u world \<Rightarrow> status_code \<times> 'u world" where
  "serve lib conn q w =
     (case q of (rid, req) \<Rightarrow>
        (case handle_request lib conn rid req w of (r, w1) \<Rightarrow> (rsp_status r, settle lib conn req w1)))"

definition serve_spec ::
  "http_lib \<Rightarrow> config \<Rightarrow> 'u connector \<Rightarrow> nat \<times> server_body http_request \<Rightarrow> 'u tunnels \<Rightarrow> status_code \<times> 'u tunnels" where
  "serve_spec lib cfg conn q tn = spec_request lib cfg conn (snd q) tn"

definition resting :: "config \<Rightarrow> 'u world \<Rightarrow> bool" where
  "resting cfg w \<longleftrightarrow> at_rest w \<and> w_config w = cfg"

interpretation sp: refines "serve lib conn" "serve_spec lib cfg conn" tunnels "resting cfg" for lib cfg conn
proof
  fix s q r s'
  assume rest: "resting cfg s" and st: "serve lib conn q s = (r, s')"
  obtain rid req where q: "q = (rid, req)" by fastforce
  obtain x w1 where h: "handle_request lib conn rid req s = (x, w1)" by fastforce
  have s': "r = rsp_status x" "s' = settle lib conn req w1" using st q h by (simp_all add: serve_def)
  have "at_rest s" "w_config s = cfg" using rest by (simp_all add: resting_def)
  from handle_request_refines [OF this(1) h] this(2) show "serve_spec lib cfg conn q (tunnels s) = (r, tunnels s') \<and> resting cfg s'"
    by (simp add: refines_request_def serve_spec_def q s' resting_def)
qed

definition no_tunnels :: "'u tunnels" where
  "no_tunnels = \<lparr>tn_next = 0, tn_table = Map.empty, tn_stats = stats_default\<rparr>"

lemma start_resting:
  "0 < cap \<Longrightarrow> resting cfg (with_connector cap cfg)" "tunnels (with_connector cap cfg) = no_tunnels"
  by (simp_all add: resting_def at_rest_def with_connector_def tunnels_def no_tunnels_def)

text \<open>C3: the server implements its specification. For every HTTP library, connector and sequence
  of requests, a fresh \<^verbatim>\<open>Server\<close> gives the status codes that \<open>spec_request\<close> gives, which
  knows of no actors, mailboxes, locks or timers, and its sessions afterwards are the
  tunnels of the specification: the same session IDs, upstream connections in the same
  state, being read or not, and the same traffic counters. Malformed requests, unknown, live
  and dead sessions, connections that succeed or fail, bodies that are empty, break off or
  are refused by the upstream in the middle, and reads of a session that is being read are
  all covered.\<close>

theorem server_refines_spec:
  assumes "0 < cap" and "replies_to (serve lib conn) qs (with_connector cap cfg) = (cs, w')"
  shows "replies_to (serve_spec lib cfg conn) qs no_tunnels = (cs, tunnels w')"
  using sp.sequence_refines [OF start_resting(1) [OF assms(1)] assms(2)] by (simp add: start_resting(2))

theorem server_refines_spec_witness:
  "fst (replies_to (serve plain_http_lib EchoConnector)
      [(0, demo_get 3), (1, demo_get 3), (2, demo_post 3 ''hi''), (3, demo_post 3 ''ho''), (4, test_request PATCH DEFAULT_SESSION_KEY 3 [[7]])]
      (with_connector 1 (Config_new local_addr 9 5)))
     = [STATUS_OK, TOO_MANY_REQUESTS, NO_CONTENT, NO_CONTENT, BAD_REQUEST]"
proof -
  let ?qs = "[(0, demo_get 3), (1, demo_get 3), (2, demo_post 3 ''hi''), (3, demo_post 3 ''ho''), (4, test_request PATCH DEFAULT_SESSION_KEY 3 [[7]])]"
  let ?cfg = "Config_new local_addr 9 5"
  obtain cs w' where r: "replies_to (serve plain_http_lib EchoConnector) ?qs (with_connector 1 ?cfg) = (cs, w')" by fastforce
  have "fst (replies_to (serve_spec plain_http_lib ?cfg EchoConnector) ?qs no_tunnels)
      = [STATUS_OK, TOO_MANY_REQUESTS, NO_CONTENT, NO_CONTENT, BAD_REQUEST]" by code_simp
  moreover from server_refines_spec [OF _ r] have
    "replies_to (serve_spec plain_http_lib ?cfg EchoConnector) ?qs no_tunnels = (cs, tunnels w')" by simp
  ultimately show ?thesis using r by simp
qed

end
