(* ===== verification/Server_Progress.thy ===== *)
theory Server_Progress
  imports Server_Refinement
begin

text \<open>
  The tasks of the server do not block each other. The invariant \<open>asks_ok\<close> ties every waiting request to exactly
  one thing: its message in the mailbox of the session it asked, or the reply in its slot,
  or a session that is no longer alive; it is kept by every event. From it follows that in
  every reachable state a request is answered by letting its own session work.
\<close>

section \<open>Where the message of a request is\<close>

definition slot_mails :: "'u world \<Rightarrow> nat \<Rightarrow> nat \<Rightarrow> mail list" where
  "slot_mails w rid a = filter (\<lambda>m. snd m = Some rid) (mail_of w a)"

fun awaits :: "req_state \<Rightarrow> (nat \<times> bool) option" where
  "awaits (ReqReadWait a) = Some (a, True)"
| "awaits (ReqWriteWait a n tot ds) = Some (a, False)"
| "awaits (ReqRead a) = None"
| "awaits (ReqWrite a tot ds) = None"
| "awaits (ReqDone r) = None"

fun asks_for :: "bool \<Rightarrow> message \<Rightarrow> bool" where
  "asks_for k SessionRead = k"
| "asks_for k (SessionWrite bs) = (\<not> k)"
| "asks_for k SessionResetIdleTimeout = False"

fun reply_for :: "bool \<Rightarrow> reply \<Rightarrow> bool" where
  "reply_for k (ReadReply x) = k"
| "reply_for k WriteReply = (\<not> k)"

definition idle_slot :: "'u world \<Rightarrow> nat \<Rightarrow> bool" where
  "idle_slot w rid \<longleftrightarrow> replies w rid = None \<and> (\<forall>b. slot_mails w rid b = [])"

definition waiting_slot :: "'u world \<Rightarrow> nat \<Rightarrow> nat \<Rightarrow> bool \<Rightarrow> bool" where
  "waiting_slot w rid a k \<longleftrightarrow>
     a < next_actor w \<and> (\<forall>b. b \<noteq> a \<longrightarrow> slot_mails w rid b = []) \<and>
     (\<forall>r. replies w rid = Some r \<longrightarrow> slot_mails w rid a = [] \<and> reply_for k r) \<and>
     (replies w rid = None \<longrightarrow> is_alive w a \<longrightarrow> (\<exists>m. slot_mails w rid a = [(m, Some rid)] \<and> asks_for k m))"

definition slot_ok :: "'u world \<Rightarrow> nat \<Rightarrow> req_state \<Rightarrow> bool" where
  "slot_ok w rid rs \<longleftrightarrow>
     (awaits rs = None \<longrightarrow> idle_slot w rid) \<and> (\<forall>a k. awaits rs = Some (a, k) \<longrightarrow> waiting_slot w rid a k)"

lemma slot_okD:
  "slot_ok w rid rs \<Longrightarrow> awaits rs = None \<Longrightarrow> idle_slot w rid"
  "slot_ok w rid rs \<Longrightarrow> awaits rs = Some (a, k) \<Longrightarrow> waiting_slot w rid a k"
  unfolding slot_ok_def by auto

lemma slot_okI:
  "awaits rs = None \<Longrightarrow> idle_slot w rid \<Longrightarrow> slot_ok w rid rs"
  "awaits rs = Some (a, k) \<Longrightarrow> waiting_slot w rid a k \<Longrightarrow> slot_ok w rid rs"
  unfolding slot_ok_def by auto

lemma awaits_done [simp]:
  "awaits (req_error msg) = None" "awaits (read_result r) = None" "awaits (finish_write n) = None"
  by (simp_all add: req_error_def read_result_def finish_write_def split: option.splits)

lemma slot_ok_states [simp]:
  "slot_ok w rid (ReqRead a) = idle_slot w rid" "slot_ok w rid (ReqWrite a tot ds) = idle_slot w rid"
  "slot_ok w rid (req_error msg) = idle_slot w rid" "slot_ok w rid (read_result x) = idle_slot w rid"
  "slot_ok w rid (finish_write tot) = idle_slot w rid" "slot_ok w rid (ReqDone r) = idle_slot w rid"
  "slot_ok w rid (ReqReadWait a) = waiting_slot w rid a True"
  "slot_ok w rid (ReqWriteWait a n tot ds) = waiting_slot w rid a False"
  using slot_okI slot_okD by (metis awaits.simps awaits_done)+

definition asks_ok :: "'u sys \<Rightarrow> bool" where
  "asks_ok s \<longleftrightarrow>
     (\<forall>rid rs. s_reqs s rid = Some rs \<longrightarrow> slot_ok (s_world s) rid rs) \<and>
     (\<forall>rid. s_next_req s \<le> rid \<longrightarrow> s_reqs s rid = None \<and> idle_slot (s_world s) rid)"

section \<open>Changes that leave the asks alone\<close>

definition calm :: "nat \<Rightarrow> 'u world \<Rightarrow> 'u world \<Rightarrow> bool" where
  "calm rid w w' \<longleftrightarrow>
     replies w' rid = replies w rid \<and> next_actor w \<le> next_actor w' \<and>
     (\<forall>b. is_alive w' b \<longrightarrow> slot_mails w' rid b = slot_mails w rid b) \<and>
     (\<forall>b. b < next_actor w \<longrightarrow> is_alive w' b \<longrightarrow> is_alive w b)"

lemma dead_slot_mails:
  "server_wf w \<Longrightarrow> \<not> is_alive w b \<Longrightarrow> slot_mails w rid b = []"
  by (simp add: slot_mails_def server_wf_def mail_wf_def)

lemma alive_bound: "server_wf w \<Longrightarrow> is_alive w a \<Longrightarrow> a < next_actor w"
  using wf_actor_lt is_alive_phase by blast

lemma calm_idle: "server_wf w' \<Longrightarrow> calm rid w w' \<Longrightarrow> idle_slot w rid \<Longrightarrow> idle_slot w' rid"
  by (metis calm_def idle_slot_def dead_slot_mails)

lemma calm_waiting:
  assumes "server_wf w'" and "calm rid w w'" and "waiting_slot w rid a k"
  shows "waiting_slot w' rid a k"
  unfolding waiting_slot_def
proof (intro conjI allI impI)
  show "a < next_actor w'" using assms(2,3) by (simp add: calm_def waiting_slot_def)
  show "slot_mails w' rid b = []" if "b \<noteq> a" for b
    using assms that dead_slot_mails [of w' b rid] by (cases "is_alive w' b") (auto simp: calm_def waiting_slot_def)
  show "slot_mails w' rid a = []" if "replies w' rid = Some r" for r
    using assms that dead_slot_mails [of w' a rid] by (cases "is_alive w' a") (auto simp: calm_def waiting_slot_def)
  show "reply_for k r" if "replies w' rid = Some r" for r
    using assms that by (auto simp: calm_def waiting_slot_def)
  show "\<exists>m. slot_mails w' rid a = [(m, Some rid)] \<and> asks_for k m" if "replies w' rid = None" "is_alive w' a"
    using assms that by (auto simp: calm_def waiting_slot_def)
qed

lemma calm_slot_ok: "server_wf w' \<Longrightarrow> calm rid w w' \<Longrightarrow> slot_ok w rid rs \<Longrightarrow> slot_ok w' rid rs"
  using calm_idle calm_waiting by (fastforce simp: slot_ok_def)

lemma calm_same:
  assumes "replies w' rid = replies w rid" "next_actor w' = next_actor w"
    and "\<And>b. is_alive w' b \<Longrightarrow> is_alive w b"
    and "\<And>b. is_alive w' b \<Longrightarrow> slot_mails w' rid b = slot_mails w rid b"
  shows "calm rid w w'"
  using assms by (simp add: calm_def)

text \<open>One event at a time.\<close>

lemma calm_fields:
  "phase_of w' = phase_of w \<Longrightarrow> mail_of w' = mail_of w \<Longrightarrow> replies w' = replies w \<Longrightarrow>
   next_actor w' = next_actor w \<Longrightarrow> calm rid w w'"
  by (rule calm_same) (simp_all add: is_alive_def slot_mails_def)

lemma calm_close:
  "calm rid w (close_actor a w)"
  by (rule calm_same) (auto simp: close_actor_def is_alive_def slot_mails_def split: phase.splits if_splits)

lemma calm_after:
  assumes "calm rid w1 w2" and "phase_of w1 = phase_of w" "mail_of w1 = mail_of w" "replies w1 = replies w"
    "next_actor w1 = next_actor w"
  shows "calm rid w w2"
  using assms by (simp add: calm_def is_alive_def slot_mails_def)

lemma calm_timer: "calm rid w (timer_fire t w)"
proof (cases "tasks w t")
  case None
  then show ?thesis by (simp add: timer_fire_def calm_fields)
next
  case (Some x)
  show ?thesis
    using Some by (auto simp: timer_fire_def split: prod.splits intro: calm_after [OF calm_close])
qed

lemma calm_timer_in_write: "calm rid w (timer_fire_in_write conn k t w)"
  by (auto simp: timer_fire_in_write_def calm_fields split: option.splits intro: calm_after [OF calm_timer])

lemma calm_drop: "calm rid w (session_drop a w)"
  by (rule calm_same)
     (auto simp: session_drop_def is_alive_def slot_mails_def abort_task_def abort_stream_def
       remove_session_def Let_def split: phase.splits option.splits if_splits)

lemma calm_start:
  assumes "phase_of w a = Spawned args"
  shows "calm rid w (on_start_begin a w)"
  using assms
  by (intro calm_same) (auto simp: on_start_begin_def actor_timeout_def is_alive_def slot_mails_def Let_def split: if_splits)

lemma calm_connect:
  assumes "phase_of w a = Connecting args tt it"
  shows "calm rid w (on_start_connect conn a w)"
  using assms
  by (intro calm_same)
     (auto simp: on_start_connect_def reset_idle_timeout_def actor_timeout_def abort_task_def is_alive_def
       slot_mails_def Let_def split: if_splits sum.splits)

lemma calm_enqueue_reset: "calm rid w (enqueue a (SessionResetIdleTimeout, None) w)"
  by (rule calm_same) (simp_all add: is_alive_def slot_mails_def)

lemma calm_poll: "calm rid w (snd (stream_poll conn n w))"
proof -
  have t: "calm rid w (snd (stream_tell n st bs w1))"
    if "phase_of w1 = phase_of w" "mail_of w1 = mail_of w" "replies w1 = replies w" "next_actor w1 = next_actor w"
    for st bs w1
    using that
    by (intro calm_same) (auto simp: stream_tell_def is_alive_def slot_mails_def Let_def split: if_splits)
  have e: "calm rid w (stream_end n (w\<lparr>upstreams := us\<rparr>))" for us
    by (rule calm_fields) (simp_all add: stream_end_def split: option.splits)
  have c: "calm rid w w" "calm rid w (w\<lparr>upstreams := us, streams := ss\<rparr>)" for us ss
    by (rule calm_fields; simp)+
  show ?thesis
    unfolding stream_poll_def Let_def
    by (auto split: option.splits prod.splits poll.splits sum.splits intro!: t e c)
qed

lemma calm_begin:
  assumes wf: "server_wf w" and b: "request_begin lib req w = (rs, w')"
  shows "calm rid w w'" "awaits rs = None"
proof -
  have "\<not> is_alive w (next_actor w)" using wf by (simp add: server_wf_def fresh_wf_def is_alive_def)
  note dead_slot_mails [OF wf this, of rid]
  with b show "calm rid w w'" "awaits rs = None"
    by (auto simp: calm_def is_alive_def slot_mails_def request_begin_def find_session_def insert_session_def
        new_session_def Let_def split: sum.splits prod.splits option.splits if_splits)
qed

section \<open>A message is handled\<close>

lemma handle_write_slots:
  assumes "phase_of w a = Running ss" and "mail_of w a = (SessionWrite bs, slot) # q"
    and "w' = actor_handle conn a w"
  shows "is_alive w' a \<Longrightarrow> mail_of w' a = q \<or> mail_of w' a = q @ [(SessionResetIdleTimeout, None)]"
    "b \<noteq> a \<Longrightarrow> mail_of w' b = mail_of w b"
proof -
  obtain r u' where c: "c_write_all conn (the (upstreams w (upstream_write ss))) bs = (r, u')" by fastforce
  show "is_alive w' a \<Longrightarrow> mail_of w' a = q \<or> mail_of w' a = q @ [(SessionResetIdleTimeout, None)]"
    "b \<noteq> a \<Longrightarrow> mail_of w' b = mail_of w b"
    using assms(1,2) c
    by (auto simp: assms(3) actor_handle_def handle_SessionWrite_def is_alive_def try_send_def close_actor_def
        Let_def split: sum.splits if_splits)
qed

lemma handle_mail_others:
  assumes ru: "phase_of w a = Running ss" and q: "mail_of w a = (m, slot) # q" and w': "w' = actor_handle conn a w"
    and "b \<noteq> a"
  shows "mail_of w' b = mail_of w b"
proof (cases m)
  case (SessionWrite bs)
  with assms(4) q handle_write_slots(2) [OF ru _ w', of bs slot q b] show ?thesis by simp
qed (use ru q assms(4) in \<open>auto simp: w' actor_handle_def handle_SessionRead_def handle_SessionResetIdleTimeout_def
    reset_idle_timeout_def actor_timeout_def abort_task_def Let_def split: option.splits\<close>)

lemma actor_handle_slots:
  assumes ru: "phase_of w a = Running ss" and q: "mail_of w a = (m, slot) # q" and w': "w' = actor_handle conn a w"
  shows "is_alive w' a \<Longrightarrow> slot_mails w' rid a = filter (\<lambda>x. snd x = Some rid) q"
    and "b \<noteq> a \<Longrightarrow> slot_mails w' rid b = slot_mails w rid b"
    and "slot \<noteq> Some rid \<Longrightarrow> replies w' rid = replies w rid"
    and "slot = Some rid \<Longrightarrow> asks_for k m \<Longrightarrow> \<exists>v. replies w' rid = Some v \<and> reply_for k v"
proof -
  note replies = handle_read_mail(4) [OF ru _ w', of slot q] handle_write_mail(5) [OF ru _ w', of _ slot q]
    handle_reset_mail(3) [OF ru _ w', of slot q]
  note mails = handle_read_mail(1) [OF ru _ w', of slot q] handle_write_slots(1) [OF ru _ w', of _ slot q]
    handle_reset_mail(1) [OF ru _ w', of slot q]
  show "slot_mails w' rid a = filter (\<lambda>x. snd x = Some rid) q" if "is_alive w' a"
    using that q mails by (cases m) (auto simp: slot_mails_def)
  show "slot_mails w' rid b = slot_mails w rid b" if "b \<noteq> a"
    using handle_mail_others [OF ru q w' that] by (simp add: slot_mails_def)
  show "replies w' rid = replies w rid" if "slot \<noteq> Some rid"
    using that q replies by (cases m; cases slot) (auto simp: replied_def)
  show "\<exists>v. replies w' rid = Some v \<and> reply_for k v" if "slot = Some rid" "asks_for k m"
    using that q replies by (cases m) (auto simp: replied_def)
qed

lemma handle_slot_ok:
  assumes wf: "server_wf w" "server_wf (actor_handle conn a w)"
    and un: "\<And>b. b \<noteq> a \<Longrightarrow> untouched b w (actor_handle conn a w)" "next_actor (actor_handle conn a w) = next_actor w"
    and ru: "phase_of w a = Running ss" and q: "mail_of w a = (m, slot) # q" and ok: "slot_ok w rid rs"
  shows "slot_ok (actor_handle conn a w) rid rs"
proof (cases "slot = Some rid")
  case False
  note f = actor_handle_slots [OF ru q refl, where conn = conn]
  have "calm rid w (actor_handle conn a w)"
  proof (rule calm_same)
    fix b assume al: "is_alive (actor_handle conn a w) b"
    show "is_alive w b" using al un(1) [of b] un(2) alive_bound [OF wf(2) al] ru
      by (cases "b = a") (auto simp: is_alive_def untouched_def)
    show "slot_mails (actor_handle conn a w) rid b = slot_mails w rid b"
      using al f(1) [of rid] f(2) [of b] q False by (cases "b = a") (auto simp: slot_mails_def)
  qed (use f(3) un(2) False in auto)
  with wf(2) ok show ?thesis using calm_slot_ok by blast
next
  case True
  let ?w = "actor_handle conn a w"
  note f = actor_handle_slots [OF ru q refl, where conn = conn]
  have here: "slot_mails w rid a = (m, Some rid) # filter (\<lambda>x. snd x = Some rid) q"
    using q True by (simp add: slot_mails_def)
  then obtain k where k: "awaits rs = Some (a, k)" and wt: "waiting_slot w rid a k"
  proof (cases "awaits rs")
    case None
    with slot_okD(1) [OF ok] here show ?thesis by (simp add: idle_slot_def)
  next
    case (Some x)
    obtain b k where x: "x = (b, k)" by fastforce
    with Some slot_okD(2) [OF ok] have wt: "waiting_slot w rid b k" by simp
    with here have "b = a" by (auto simp: waiting_slot_def)
    with wt Some x show ?thesis by (intro that) simp_all
  qed
  have no: "replies w rid = None" using wt here by (auto simp: waiting_slot_def)
  have al: "is_alive w a" using ru by (simp add: is_alive_def)
  have m: "asks_for k m" "filter (\<lambda>x. snd x = Some rid) q = []"
    using wt here no al by (auto simp: waiting_slot_def)
  obtain v where v: "replies ?w rid = Some v" "reply_for k v" using f(4) True m(1) by blast
  have "slot_mails ?w rid b = []" for b
  proof (cases "b = a")
    case True
    then show ?thesis using f(1) [of rid] m(2) dead_slot_mails [OF wf(2), of a rid] by (cases "is_alive ?w a") auto
  next
    case False
    then show ?thesis using f(2) [OF False] wt by (simp add: waiting_slot_def)
  qed
  then have "waiting_slot ?w rid a k" using v wt un(2) by (simp add: waiting_slot_def)
  with k show ?thesis by (rule slot_okI(2))
qed

section \<open>A request is resumed\<close>

lemma request_step_calm:
  assumes "request_step rid rs w = Some (rs', w')" and "rid' \<noteq> rid"
  shows "calm rid' w w'"
  using assms
  by (induction rid rs w rule: request_step.induct)
     (auto intro!: calm_same simp: take_reply_def Let_def is_alive_def slot_mails_def split: if_splits option.splits reply.splits)

lemma ask_waiting:
  assumes "server_wf w" and "is_alive w a" and "idle_slot w rid" and "asks_for k m"
  shows "waiting_slot (enqueue a (m, Some rid) w) rid a k"
  using assms alive_bound [OF assms(1,2)] by (auto simp: waiting_slot_def idle_slot_def slot_mails_def)

lemma answered_idle:
  assumes "waiting_slot w rid a k" and "replies w rid = Some r"
  shows "idle_slot (take_reply rid w) rid"
  using assms by (force simp: waiting_slot_def idle_slot_def slot_mails_def take_reply_def)

lemma deserted_idle:
  assumes "server_wf w" and "waiting_slot w rid a k" and "replies w rid = None" and "\<not> is_alive w a"
  shows "idle_slot w rid"
  unfolding idle_slot_def
proof (intro conjI allI)
  show "slot_mails w rid b = []" for b
    using assms dead_slot_mails [OF assms(1,4)] by (cases "b = a") (auto simp: waiting_slot_def)
qed (rule assms(3))

lemma idle_slot_stats [simp]: "idle_slot (w\<lparr>w_stats := x\<rparr>) rid = idle_slot w rid"
  by (simp add: idle_slot_def slot_mails_def)

lemma request_step_slot_ok:
  assumes "server_wf w" and "request_step rid rs w = Some (rs', w')" and "slot_ok w rid rs"
  shows "slot_ok w' rid rs'"
  using assms
proof (induction rid rs w rule: request_step.induct)
  case (1 rid a w)
  then show ?case by (auto simp: ask_waiting split: if_splits)
next
  case (2 rid a w)
  then have wt: "waiting_slot w rid a True" by simp
  show ?case
  proof (cases "replies w rid")
    case None
    with 2 deserted_idle [OF 2(1) wt None] show ?thesis by (auto split: if_splits)
  next
    case (Some r)
    with wt obtain x where "r = ReadReply x" by (cases r) (auto simp: waiting_slot_def)
    with 2 Some answered_idle [OF wt Some] show ?thesis by auto
  qed
next
  case (6 rid a n tot ds w)
  then have wt: "waiting_slot w rid a False" by simp
  show ?case
  proof (cases "replies w rid")
    case None
    with 6 deserted_idle [OF 6(1) wt None] show ?thesis by (auto split: if_splits)
  next
    case (Some r)
    with wt have "r = WriteReply" by (cases r) (auto simp: waiting_slot_def)
    with 6 Some answered_idle [OF wt Some] show ?thesis by (auto simp: Let_def)
  qed
qed (auto simp: ask_waiting split: if_splits)

section \<open>The invariant\<close>

lemma asks_okD:
  "asks_ok s \<Longrightarrow> s_reqs s rid = Some rs \<Longrightarrow> slot_ok (s_world s) rid rs"
  "asks_ok s \<Longrightarrow> s_next_req s \<le> rid \<Longrightarrow> s_reqs s rid = None \<and> idle_slot (s_world s) rid"
  by (simp_all add: asks_ok_def)

lemma asks_ok_calm:
  assumes ok: "asks_ok s" and wf: "server_wf (s_world s')" and calm: "\<And>rid. calm rid (s_world s) (s_world s')"
    and "s_next_req s' = s_next_req s" "\<And>rid rs. s_reqs s' rid = Some rs \<Longrightarrow> s_reqs s rid = Some rs"
  shows "asks_ok s'"
  unfolding asks_ok_def
proof (intro conjI allI impI)
  show "s_reqs s' rid = Some rs \<Longrightarrow> slot_ok (s_world s') rid rs" for rid rs
    using assms(5) asks_okD(1) [OF ok] calm_slot_ok [OF wf calm] by blast
  fix rid assume "s_next_req s' \<le> rid"
  then have "s_reqs s rid = None \<and> idle_slot (s_world s) rid" using asks_okD(2) [OF ok] assms(4) by simp
  then show "s_reqs s' rid = None" "idle_slot (s_world s') rid"
    using assms(5) [of rid] calm_idle [OF wf calm] by (cases "s_reqs s' rid"; auto)+
qed

lemma calm_world_event:
  assumes "exec lib conn e s = Some s'" and "\<forall>a. e \<noteq> EvHandle a" and "\<forall>r. e \<noteq> EvRequest r" and "\<forall>r. e \<noteq> EvResume r"
  shows "calm rid (s_world s) (s_world s')"
proof -
  have u: "calm rid w (w\<lparr>clock := x\<rparr>)" "calm rid w (w\<lparr>w_stats := y\<rparr>)" "calm rid w (w\<lparr>server_alive := z\<rparr>)"
      "calm rid w w" for w :: "'a world" and x y z
    by (rule calm_fields; simp)+
  have e: "calm rid w (stream_end n w)" for w :: "'a world" and n
    by (rule calm_fields) (simp_all add: stream_end_def split: option.splits)
  from assms show ?thesis
    by (cases e) (auto simp: guarded_def on_world_def u e calm_start calm_connect calm_timer
        calm_timer_in_write calm_drop calm_poll
        split: if_splits phase.splits option.splits)
qed

lemma exec_asks:
  assumes ok: "sys_ok s" "asks_ok s" and ex: "exec lib conn e s = Some s'"
  shows "asks_ok s'"
proof -
  have wf: "server_wf (s_world s)" using ok(1) by (simp add: sys_ok_def)
  note wf' = exec_wf [OF wf ex]
  consider (request) req where "e = EvRequest req" | (resume) rid where "e = EvResume rid"
    | (handle) a where "e = EvHandle a"
    | (other) "\<forall>a. e \<noteq> EvHandle a" "\<forall>r. e \<noteq> EvRequest r" "\<forall>r. e \<noteq> EvResume r"
    by blast
  then show ?thesis
  proof cases
    case other
    have "s_next_req s' = s_next_req s \<and> (\<forall>rid rs. s_reqs s' rid = Some rs \<longrightarrow> s_reqs s rid = Some rs)"
      using ex other by (cases e) (auto simp: guarded_def on_world_def split: if_splits option.splits)
    with asks_ok_calm [OF ok(2) wf' calm_world_event [OF ex other]] show ?thesis by blast
  next
    case request
    obtain rs w' where b: "request_begin lib req (s_world s) = (rs, w')" by fastforce
    note c = calm_begin [OF wf b]
    have s': "s_world s' = w'" "s_reqs s' = (s_reqs s)(s_next_req s \<mapsto> rs)" "s_next_req s' = Suc (s_next_req s)"
      using ex b by (auto simp: request guarded_def split: if_splits)
    note wf' = wf' [unfolded s']
    have "slot_ok w' (s_next_req s) rs"
      using calm_idle [OF wf' c(1)] asks_okD(2) [OF ok(2)] c(2) by (intro slot_okI(1)) simp_all
    then show ?thesis
      using asks_okD [OF ok(2)] calm_slot_ok [OF wf' c(1)] calm_idle [OF wf' c(1)] by (auto simp: asks_ok_def s')
  next
    case resume
    from ex obtain rs rs' w' where r: "s_reqs s rid = Some rs" "request_step rid rs (s_world s) = Some (rs', w')"
        "s' = s\<lparr>s_world := w', s_reqs := (s_reqs s)(rid \<mapsto> rs')\<rparr>"
      by (auto simp: resume split: option.splits)
    have wf'': "server_wf w'" using wf' r(3) by simp
    note c = request_step_calm [OF r(2)]
    have "slot_ok w' rid rs'" using request_step_slot_ok [OF wf r(2) asks_okD(1) [OF ok(2) r(1)]] .
    moreover have "rid < s_next_req s" using asks_okD(2) [OF ok(2), of rid] r(1) by (cases "rid < s_next_req s") auto
    ultimately show ?thesis
      using asks_okD [OF ok(2)] calm_slot_ok [OF wf'' c] calm_idle [OF wf'' c] by (auto simp: asks_ok_def r(3))
  next
    case handle
    from ex obtain ss where ru: "phase_of (s_world s) a = Running ss" and ne: "mail_of (s_world s) a \<noteq> []"
        and s': "s' = on_world (actor_handle conn a) s"
      by (auto simp: handle guarded_def split: if_splits phase.splits)
    obtain m slot q where q: "mail_of (s_world s) a = (m, slot) # q" using ne by (cases "mail_of (s_world s) a") auto
    let ?w = "actor_handle conn a (s_world s)"
    have wf'': "server_wf ?w" using wf' s' by (simp add: on_world_def)
    have n: "next_actor ?w = next_actor (s_world s)"
      using ru q actor_handle_write(4) [OF ru] actor_handle_read(5) [OF ru] actor_handle_reset(4) [OF ru]
      by (cases m) (metis surj_pair)+
    have k: "slot_ok ?w rid rs" if "slot_ok (s_world s) rid rs" for rid rs
      by (rule handle_slot_ok [OF wf wf'' untouched_actor_handle [OF wf] n ru q that])
    have "idle_slot ?w rid" if "idle_slot (s_world s) rid" for rid
      using k [of rid "ReqDone undefined"] that by simp
    with k asks_okD [OF ok(2)] show ?thesis by (auto simp: asks_ok_def s' on_world_def)
  qed
qed

definition live_ok :: "'u sys \<Rightarrow> bool" where
  "live_ok s \<longleftrightarrow> sys_ok s \<and> asks_ok s"

lemma init_live: "live_ok (init_sys cap cfg)"
  using init_ok by (simp add: live_ok_def asks_ok_def idle_slot_def slot_mails_def init_sys_def with_connector_def mail_of_def)

interpretation live: preserved "exec lib conn" live_ok for lib conn
  by unfold_locales (auto simp: live_ok_def intro: exec_ok exec_asks)

lemma reachable_live: "reachable lib conn s \<Longrightarrow> live_ok s"
  by (induction rule: reachable.induct) (auto intro: init_live live.step_inv)

section \<open>Messages and replies fit\<close>

fun reply_fits :: "req_state \<Rightarrow> reply \<Rightarrow> bool" where
  "reply_fits (ReqReadWait a) (ReadReply x) = True"
| "reply_fits (ReqWriteWait a n tot ds) WriteReply = True"
| "reply_fits _ _ = False"

fun message_fits :: "req_state \<Rightarrow> nat \<Rightarrow> message \<Rightarrow> bool" where
  "message_fits (ReqReadWait a) b SessionRead = (a = b)"
| "message_fits (ReqWriteWait a n tot ds) b (SessionWrite bs) = (a = b)"
| "message_fits _ _ _ = False"

lemma fits_iff:
  "reply_fits rs v \<longleftrightarrow> (\<exists>a k. awaits rs = Some (a, k) \<and> reply_for k v)"
  "message_fits rs b m \<longleftrightarrow> (\<exists>k. awaits rs = Some (b, k) \<and> asks_for k m)"
  by (cases rs; cases v; auto) (cases rs; cases m; auto)

text \<open>Asks are well typed. In every reachable state, whatever has been interleaved: a reply
  that lies ready for a request is of the type of the message the request waits on, a
  request that waits for nothing has no reply pending, and a message that will be answered
  to a request lies in the mailbox of that request's own session and is the one it asked:
  a \<^verbatim>\<open>SessionRead\<close> for a request that reads, a \<^verbatim>\<open>SessionWrite\<close> for one that writes.\<close>

lemma asks_well_typed:
  assumes "reachable lib conn s" and "s_reqs s rid = Some rs"
  shows "(\<forall>v. replies (s_world s) rid = Some v \<longrightarrow> reply_fits rs v) \<and>
     (\<forall>a m. (m, Some rid) \<in> set (mail_of (s_world s) a) \<longrightarrow> message_fits rs a m)"
proof -
  let ?w = "s_world s"
  have live: "live_ok s" using reachable_live [OF assms(1)] .
  then have wf: "server_wf ?w" and ok: "slot_ok ?w rid rs"
    using asks_okD(1) [OF _ assms(2)] by (simp_all add: live_ok_def sys_ok_def)
  have sm: "(m, Some rid) \<in> set (slot_mails ?w rid a)" if "(m, Some rid) \<in> set (mail_of ?w a)" for a m
    using that by (simp add: slot_mails_def)
  show ?thesis
  proof (cases "awaits rs")
    case None
    with slot_okD(1) [OF ok] sm show ?thesis by (fastforce simp: idle_slot_def fits_iff)
  next
    case (Some x)
    obtain b k where x: "x = (b, k)" by fastforce
    with slot_okD(2) [OF ok] Some have wt: "waiting_slot ?w rid b k" by simp
    have "a = b \<and> asks_for k m" if "(m, Some rid) \<in> set (mail_of ?w a)" for a m
    proof -
      have "is_alive ?w a" using wf_mail(2) [OF wf, of a] that by (cases "is_alive ?w a") auto
      with sm [OF that] wt show ?thesis by (cases "a = b"; cases "replies ?w rid") (auto simp: waiting_slot_def)
    qed
    with wt Some x show ?thesis by (auto simp: waiting_slot_def fits_iff)
  qed
qed

lemma asks_well_typed_witness:
  "\<exists>rs v. s_reqs (demo_run demo_write) 0 = Some rs \<and> replies (s_world (demo_run demo_write)) 0 = Some v \<and> reply_fits rs v"
proof -
  let ?s = "demo_run demo_write"
  have "\<not> Option.is_none (run demo_exec demo_write demo_init)" by code_simp
  note s = demo_reachable(2) [OF this]
  have "s_reqs ?s 0 = Some (ReqWriteWait 0 5 5 [])" "replies (s_world ?s) 0 = Some WriteReply" by code_simp+
  with asks_well_typed [OF s] show ?thesis by blast
qed

section \<open>Progress\<close>

fun req_actor :: "req_state \<Rightarrow> nat option" where
  "req_actor (ReqRead a) = Some a"
| "req_actor (ReqReadWait a) = Some a"
| "req_actor (ReqWrite a tot ds) = Some a"
| "req_actor (ReqWriteWait a n tot ds) = Some a"
| "req_actor (ReqDone r) = None"

text \<open>How often a request has to be resumed at most.\<close>

fun req_work :: "req_state \<Rightarrow> nat" where
  "req_work (ReqRead a) = 2"
| "req_work (ReqReadWait a) = 1"
| "req_work (ReqWrite a tot ds) = 2 * length ds + 1"
| "req_work (ReqWriteWait a n tot ds) = 2 * length ds + 2"
| "req_work (ReqDone r) = 0"

lemma req_done_simps [simp]:
  "req_work (req_error msg) = 0" "req_work (read_result x) = 0" "req_work (finish_write n) = 0"
  "req_actor (req_error msg) = None" "req_actor (read_result x) = None" "req_actor (finish_write n) = None"
  by (simp_all add: req_error_def read_result_def finish_write_def split: option.splits)

lemma request_step_work:
  assumes "request_step rid rs w = Some (rs', w')"
  shows "req_work rs' < req_work rs" "req_actor rs' \<in> {None, req_actor rs}" "mailbox_cap w' = mailbox_cap w"
  using assms
  by (induction rid rs w rule: request_step.induct)
     (auto simp: take_reply_def Let_def split: if_splits option.splits reply.splits)

lemma run_actor_stops: "mail_of (run_actor conn a w) a = [] \<or> \<not> is_alive (run_actor conn a w) a"
proof (induction conn a w rule: run_actor.induct)
  case (1 conn a w)
  then show ?case
    by (cases "phase_of w a") (auto simp: run_actor.simps [of conn a w] is_alive_def)
qed

lemma request_step_enabled:
  assumes "slot_ok w rid rs" and "req_actor rs = Some a" and "mail_of w a = []" and "0 < mailbox_cap w"
  shows "request_step rid rs w \<noteq> None"
  using assms
proof (induction rid rs w rule: request_step.induct)
  case (2 rid b w)
  then show ?case
    by (cases "replies w rid") (auto simp: waiting_slot_def slot_mails_def split: reply.splits)
next
  case (6 rid b n tot ds w)
  then show ?case
    by (cases "replies w rid") (auto simp: waiting_slot_def slot_mails_def Let_def split: reply.splits)
qed (auto simp: mailbox_full_def)

text \<open>One round: the session works off its mailbox, then the request goes on.\<close>

lemma one_round:
  assumes live: "live_ok s" and rs: "s_reqs s rid = Some rs" "req_actor rs = Some a" and cap: "0 < mailbox_cap (s_world s)"
  shows "\<exists>es s' rs'. run (exec lib conn) (es @ [EvResume rid]) s = Some s' \<and> set es \<subseteq> actor_events a \<and>
     s_reqs s' rid = Some rs' \<and> req_work rs' < req_work rs \<and> req_actor rs' \<in> {None, Some a} \<and>
     mailbox_cap (s_world s') = mailbox_cap (s_world s)"
proof -
  let ?w = "run_actor conn a (s_world s)" and ?s = "s\<lparr>s_world := run_actor conn a (s_world s)\<rparr>"
  from run_actor_events [OF refl, of lib conn s a] obtain es where
      es: "run (exec lib conn) es s = Some ?s" "set es \<subseteq> actor_events a" by blast
  have ok: "live_ok ?s" using live es(1) by (rule live.run_inv)
  then have wf: "server_wf ?w" and slot: "slot_ok ?w rid rs"
    using asks_okD(1) [of ?s rid rs] rs by (simp_all add: live_ok_def sys_ok_def)
  have "mail_of ?w a = []" using run_actor_stops [of conn a] wf by (auto simp: server_wf_def mail_wf_def)
  with request_step_enabled [OF slot rs(2)] cap obtain rs' w' where st: "request_step rid rs ?w = Some (rs', w')"
    by (auto simp: run_actor_cap)
  let ?s' = "?s\<lparr>s_world := w', s_reqs := (s_reqs ?s)(rid \<mapsto> rs')\<rparr>"
  have "run (exec lib conn) (es @ [EvResume rid]) s = Some ?s'"
    using es(1) rs st by (simp add: run_append)
  moreover note request_step_work [OF st] rs(2) es(2)
  ultimately show ?thesis by (intro exI [of _ es] exI [of _ ?s'] exI [of _ rs']) (simp add: run_actor_cap)
qed

text \<open>The server's own tasks never block each other for good. In every reachable state, whatever has
  been interleaved, a request that is not answered yet is answered by a schedule in which
  nothing happens but the work of its own session and the resumption of the request itself.
  It is resumed at most twice per chunk of its body that is left and twice more. Full
  mailboxes, other requests to the same session, cancelled requests and open response streams
  do not prevent it. The schedule needs an upstream that connects and takes what is written
  and a client that sends its body; \<open>Server_Unblocking\<close> treats an upstream that hangs.\<close>

lemma request_always_answerable:
  assumes "reachable lib conn s" and "s_reqs s rid = Some rs" and "0 < mailbox_cap (s_world s)"
  shows "\<exists>es s' r. run (exec lib conn) es s = Some s' \<and> s_reqs s' rid = Some (ReqDone r) \<and>
     (\<forall>e \<in> set es. e = EvResume rid \<or> (\<exists>a. req_actor rs = Some a \<and> e \<in> actor_events a)) \<and>
     length (filter (\<lambda>e. e = EvResume rid) es) \<le> req_work rs"
  using assms
proof (induction "req_work rs" arbitrary: s rs rule: less_induct)
  case less
  show ?case
  proof (cases "req_actor rs")
    case None
    then obtain r where "rs = ReqDone r" by (cases rs) auto
    with less.prems(2) show ?thesis by (intro exI [of _ "[]"]) simp
  next
    case (Some a)
    from one_round [OF reachable_live [OF less.prems(1)] less.prems(2) Some less.prems(3), of lib conn]
    obtain es s1 rs1 where 1: "run (exec lib conn) (es @ [EvResume rid]) s = Some s1" "set es \<subseteq> actor_events a"
        "s_reqs s1 rid = Some rs1" "req_work rs1 < req_work rs" "req_actor rs1 \<in> {None, Some a}"
        "mailbox_cap (s_world s1) = mailbox_cap (s_world s)" by blast
    have "reachable lib conn s1" using less.prems(1) 1(1) by (rule reachable_run)
    from less.hyps [OF 1(4) this 1(3)] 1(6) less.prems(3) obtain fs s' r where
        2: "run (exec lib conn) fs s1 = Some s'" "s_reqs s' rid = Some (ReqDone r)"
        "\<forall>e \<in> set fs. e = EvResume rid \<or> (\<exists>a. req_actor rs1 = Some a \<and> e \<in> actor_events a)"
        "length (filter (\<lambda>e. e = EvResume rid) fs) \<le> req_work rs1" by auto
    have "EvResume rid \<notin> set es" using 1(2) by (auto simp: actor_events_def)
    then have "filter (\<lambda>e. e = EvResume rid) es = []" by (auto simp: filter_empty_conv)
    with 2(4) 1(4) have "length (filter (\<lambda>e. e = EvResume rid) ((es @ [EvResume rid]) @ fs)) \<le> req_work rs" by simp
    moreover have "run (exec lib conn) ((es @ [EvResume rid]) @ fs) s = Some s'" using 1(1) 2(1) by (rule run_appendI)
    moreover have "\<forall>e \<in> set ((es @ [EvResume rid]) @ fs).
        e = EvResume rid \<or> (\<exists>a. req_actor rs = Some a \<and> e \<in> actor_events a)"
      using 2(3) 1(2,5) Some by auto
    ultimately show ?thesis using 2(2) by blast
  qed
qed

text \<open>Two requests for a session that has not started; the mailbox is full when the second one comes.\<close>

definition demo_crowd :: "event list" where
  "demo_crowd = [EvRequest (demo_get 3), EvResume 0, EvRequest (demo_post 3 ''hi'')]"

lemma request_always_answerable_witness:
  "mailbox_full (s_world (demo_run demo_crowd)) 0 \<and>
   (\<exists>es s' r. run demo_exec es (demo_run demo_crowd) = Some s' \<and> s_reqs s' 1 = Some (ReqDone r) \<and>
     length (filter (\<lambda>e. e = EvResume 1) es) \<le> 3)"
proof -
  let ?s = "demo_run demo_crowd"
  have "\<not> Option.is_none (run demo_exec demo_crowd demo_init)" by code_simp
  note s = demo_reachable(2) [OF this]
  have "s_reqs ?s 1 = Some (ReqWrite 0 0 [Ok (bytes_of ''hi'')])" "0 < mailbox_cap (s_world ?s)" by code_simp+
  from request_always_answerable [OF s this] have "\<exists>es s' r. run demo_exec es ?s = Some s' \<and>
      s_reqs s' 1 = Some (ReqDone r) \<and> length (filter (\<lambda>e. e = EvResume 1) es) \<le> 3" by force
  moreover have "mailbox_full (s_world ?s) 0" by code_simp
  ultimately show ?thesis by blast
qed

end
