(* ===== verification/Server_Isolation.thy ===== *)
theory Server_Isolation
  imports Server_Progress
begin

text \<open>
  Sessions do not mix. A session keeps the ID it was opened with until it ends, and a
  request deals with the session of its own ID only, in every run of the event system.
\<close>

section \<open>A session keeps its ID\<close>

lemma exec_phase_id:
  assumes wf: "server_wf (s_world s)" and ex: "exec lib conn e s = Some s'" and a: "a < next_actor (s_world s)"
  shows "phase_id (phase_of (s_world s') a) \<in> {None, phase_id (phase_of (s_world s) a)}"
proof (cases "concerns (s_world s) e = Some a")
  case False
  from exec_untouched [OF wf ex this] a show ?thesis by (simp add: untouched_def)
next
  case True
  with ex show ?thesis
  proof (cases rule: concernedE)
    case (start args)
    with on_start_begin_fields(1) [OF start(2,3), of a] show ?thesis by simp
  next
    case (connected args tt it v)
    with on_start_connect_fields(1) [OF connected(2-4), of a] show ?thesis by simp
  next
    case (read ss slot q)
    with actor_handle_read(1) [OF read(2-4)] show ?thesis by auto
  next
    case (writes ss bs slot q r u')
    with actor_handle_write(1) [OF writes(2-5), of a] show ?thesis by simp
  next
    case (reset ss slot q)
    with actor_handle_reset(1) [OF reset(2-4), of a] show ?thesis by simp
  next
    case (drop ss)
    with session_drop_fields(1) [OF drop(2,3), of a] show ?thesis by simp
  next
    case (timer t d)
    then show ?thesis by (simp add: close_actor_def split: phase.splits)
  next
    case (cut t k d ss bs slot q r u')
    then show ?thesis by (simp add: close_actor_def)
  next
    case (poll n st r)
    with stream_poll_fields(1) [OF poll(4)] show ?thesis by simp
  qed simp
qed

section \<open>A request keeps its session\<close>

definition belongs :: "nat \<Rightarrow> uuid option \<Rightarrow> 'u sys \<Rightarrow> bool" where
  "belongs rid u s \<longleftrightarrow>
     live_ok s \<and> rid < s_next_req s \<and>
     (\<forall>rs a. s_reqs s rid = Some rs \<longrightarrow> req_actor rs = Some a \<longrightarrow>
        u \<noteq> None \<and> a < next_actor (s_world s) \<and> phase_id (phase_of (s_world s) a) \<in> {None, u})"

lemma exec_next_actor:
  assumes "server_wf (s_world s)" and "exec lib conn e s = Some s'"
  shows "next_actor (s_world s) \<le> next_actor (s_world s')"
proof -
  obtain a where "concerns (s_world s) e \<noteq> Some a" by (metis n_not_Suc_n option.inject)
  from exec_untouched [OF assms this] show ?thesis by (simp add: untouched_def)
qed

lemma exec_request_actor:
  assumes "exec lib conn e s = Some s'" and "rid < s_next_req s"
    and "s_reqs s' rid = Some rs'" and "req_actor rs' = Some a"
  shows "rid < s_next_req s' \<and> (\<exists>rs. s_reqs s rid = Some rs \<and> req_actor rs = Some a)"
  using assms
  by (cases e)
     (auto simp: guarded_def on_world_def dest!: request_step_work(2)
       split: if_splits option.splits prod.splits)

lemma exec_next_req: "exec lib conn e s = Some s' \<Longrightarrow> s_next_req s \<le> s_next_req s'"
  by (cases e) (auto simp: guarded_def on_world_def split: if_splits option.splits prod.splits)

lemma exec_belongs:
  assumes b: "belongs rid u s" and ex: "exec lib conn e s = Some s'"
  shows "belongs rid u s'"
proof -
  have live: "live_ok s" and n: "rid < s_next_req s" using b by (simp_all add: belongs_def)
  have wf: "server_wf (s_world s)" using live by (simp add: live_ok_def sys_ok_def)
  have "u \<noteq> None \<and> a < next_actor (s_world s') \<and> phase_id (phase_of (s_world s') a) \<in> {None, u}"
    if "s_reqs s' rid = Some rs" "req_actor rs = Some a" for rs a
  proof -
    from exec_request_actor [OF ex n that] b have "u \<noteq> None" "a < next_actor (s_world s)"
        "phase_id (phase_of (s_world s) a) \<in> {None, u}" by (auto simp: belongs_def)
    with exec_phase_id [OF wf ex] exec_next_actor [OF wf ex] show ?thesis by fastforce
  qed
  with live.step_inv [OF live ex] exec_next_req [OF ex] n show ?thesis by (auto simp: belongs_def)
qed

interpretation own: preserved "exec lib conn" "belongs rid u" for lib conn rid u
  by unfold_locales (rule exec_belongs)

lemma request_begin_belongs:
  assumes wf: "server_wf w" and b: "request_begin lib req w = (rs, w')" and a: "req_actor rs = Some a"
  shows "\<exists>u. request_session_id lib (cfg_session_key (w_config w)) req = Some u \<and> a < next_actor w' \<and>
     phase_id (phase_of w' a) \<in> {None, Some u}"
proof -
  from b a obtain m u where head: "parse_head lib (cfg_session_key (w_config w)) req = Ok (m, u)"
      and fs: "find_session (m \<noteq> Patch) u w = (Ok a, w')"
    by (auto simp: request_begin_def split: sum.splits prod.splits if_splits)
  have "a < next_actor w' \<and> phase_id (phase_of w' a) \<in> {None, Some u}"
  proof (cases "sessions w u = Some a \<and> is_alive w a")
    case True
    with fs wf_sessions [OF wf, of u a] show ?thesis by (auto simp: find_session_def)
  next
    case False
    with fs have "insert_session u w = (a, w')"
      by (auto simp: find_session_def split: option.splits if_splits prod.splits)
    from insert_session_facts [OF this] show ?thesis by simp
  qed
  with parse_head_Ok [OF head] show ?thesis by blast
qed

lemma slot_mails_elsewhere:
  assumes "slot_ok w rid rs" and "req_actor rs = Some a" and "b \<noteq> a"
  shows "slot_mails w rid b = []"
proof (cases "awaits rs")
  case None
  with slot_okD(1) [OF assms(1)] show ?thesis by (simp add: idle_slot_def)
next
  case (Some x)
  then obtain k where "awaits rs = Some (a, k)" using assms(2) by (cases rs) auto
  with slot_okD(2) [OF assms(1)] assms(3) show ?thesis by (simp add: waiting_slot_def)
qed

text \<open>C14: sessions do not mix. Whatever happens after a request has arrived, the session it works
  for is the one with the ID in its own header, or has ended: a running session it talks to
  has that ID and its own upstream connection, and the request's message is in no other
  session's mailbox.\<close>

theorem requests_reach_own_session:
  assumes "reachable lib conn s" and "exec lib conn (EvRequest req) s = Some s1"
    and "run (exec lib conn) es s1 = Some s2"
    and "s_reqs s2 (s_next_req s) = Some rs" and "req_actor rs = Some a"
  shows "\<exists>u. request_session_id lib (cfg_session_key (w_config (s_world s))) req = Some u \<and>
     phase_id (phase_of (s_world s2) a) \<in> {None, Some u} \<and>
     (\<forall>ss. phase_of (s_world s2) a = Running ss \<longrightarrow> session_id ss = u \<and> upstream_write ss = a \<and> upstream_read ss = a) \<and>
     (\<forall>b. b \<noteq> a \<longrightarrow> slot_mails (s_world s2) (s_next_req s) b = [])"
proof -
  have live: "live_ok s" using assms(1) by (rule reachable_live)
  obtain rs1 w1 where rb: "request_begin lib req (s_world s) = (rs1, w1)" by fastforce
  have s1: "s_world s1 = w1" "s_reqs s1 = (s_reqs s)(s_next_req s \<mapsto> rs1)" "s_next_req s1 = Suc (s_next_req s)"
    using assms(2) rb by (auto simp: guarded_def split: if_splits)
  have live1: "live_ok s1" using live assms(2) by (rule live.step_inv)
  have wf: "server_wf (s_world s)" using live by (simp add: live_ok_def sys_ok_def)
  let ?u = "request_session_id lib (cfg_session_key (w_config (s_world s))) req"
  have "belongs (s_next_req s) ?u s1"
    using request_begin_belongs [OF wf rb] live1 by (fastforce simp: belongs_def s1)
  from own.run_inv [OF this assms(3)] have b: "belongs (s_next_req s) ?u s2" .
  with assms(4,5) obtain u where u: "?u = Some u" "phase_id (phase_of (s_world s2) a) \<in> {None, Some u}"
    by (auto simp: belongs_def)
  have ok: "server_wf (s_world s2)" "asks_ok s2" using b by (simp_all add: belongs_def live_ok_def sys_ok_def)
  have "upstream_write ss = a \<and> upstream_read ss = a" if "phase_of (s_world s2) a = Running ss" for ss
    using Running_handles [OF ok(1) that] by simp
  moreover have "session_id ss = u" if "phase_of (s_world s2) a = Running ss" for ss
    using u(2) that by simp
  moreover have "slot_mails (s_world s2) (s_next_req s) b = []" if "b \<noteq> a" for b
    using slot_mails_elsewhere [OF asks_okD(1) [OF ok(2) assms(4)] assms(5) that] .
  ultimately show ?thesis using u by blast
qed

theorem requests_reach_own_session_witness:
  "\<exists>s1 s2. demo_exec (EvRequest (demo_post 2 ''yo'')) (demo_run [EvRequest (demo_get 3)]) = Some s1 \<and>
     run demo_exec [EvResume 1] s1 = Some s2 \<and>
     phase_id (phase_of (s_world s2) 1) \<in> {None, Some 2} \<and> slot_mails (s_world s2) 1 0 = []"
proof -
  let ?s = "demo_run [EvRequest (demo_get 3)]" and ?r = "demo_post 2 ''yo''"
  have "\<not> Option.is_none (run demo_exec [EvRequest (demo_get 3)] demo_init)" by code_simp
  note s = demo_reachable(2) [OF this]
  let ?s1 = "the (demo_exec (EvRequest ?r) ?s)"
  let ?s2 = "the (run demo_exec [EvResume 1] ?s1)"
  have "\<not> Option.is_none (demo_exec (EvRequest ?r) ?s)" by code_simp
  note s1 = Some_the [OF this]
  have "\<not> Option.is_none (run demo_exec [EvResume 1] ?s1)" by code_simp
  note s2 = Some_the [OF this]
  have n: "s_next_req ?s = 1" by code_simp
  have rs: "s_reqs ?s2 (s_next_req ?s) = Some (ReqWriteWait 1 2 2 [])" by code_simp
  have a: "req_actor (ReqWriteWait 1 2 2 []) = Some 1" by simp
  have u: "request_session_id plain_http_lib (cfg_session_key (w_config (s_world ?s))) ?r = Some 2" by code_simp
  from requests_reach_own_session [OF s s1 s2 rs a] u n have
    "phase_id (phase_of (s_world ?s2) 1) \<in> {None, Some 2} \<and> slot_mails (s_world ?s2) 1 0 = []" by simp
  with s1 s2 show ?thesis by blast
qed

end
