(* ===== verification/Server_Streams.thy ===== *)
theory Server_Streams
  imports Server_Safety "HOL-Library.Sublist"
begin

text \<open>
  The downstream direction of the server: every byte read from an upstream connection
  leaves in a frame of a response body, once and in order, over all runs of the event
  system.
\<close>

section \<open>Bytes on their way to the client\<close>

text \<open>
  For one session: what has been read from its upstream connection, what a poll hands to
  the response body, and what a stream still holds while it waits to report to the
  session.
\<close>

definition got :: "nat \<Rightarrow> 'u recorded world \<Rightarrow> bytes" where
  "got a w = (case upstreams w a of None \<Rightarrow> [] | Some v \<Rightarrow> rec_received v)"

definition held :: "nat \<Rightarrow> 'u world \<Rightarrow> bytes" where
  "held a w =
     (case read_locks w a of
        None \<Rightarrow> []
      | Some n \<Rightarrow> (case Option.bind (streams w n) st_tell of None \<Rightarrow> [] | Some bs \<Rightarrow> bs))"

fun frame_bytes :: "frame option poll \<Rightarrow> bytes" where
  "frame_bytes (Ready (Some (DataFrame bs))) = bs"
| "frame_bytes _ = []"

fun yielded :: "'u connector \<Rightarrow> nat \<Rightarrow> 'u sys \<Rightarrow> event \<Rightarrow> bytes" where
  "yielded conn a s (EvPoll n) =
     (if reader_of (s_world s) n = Some a then frame_bytes (fst (stream_poll conn n (s_world s))) else [])"
| "yielded conn a s _ = []"

text \<open>What is lost when a response body is dropped: the frame its stream holds, if it holds one.\<close>

fun dropped :: "nat \<Rightarrow> 'u sys \<Rightarrow> event \<Rightarrow> bytes" where
  "dropped a s (EvStreamDrop n) =
     (if reader_of (s_world s) n = Some a
      then (case Option.bind (streams (s_world s) n) st_tell of None \<Rightarrow> [] | Some bs \<Rightarrow> bs) else [])"
| "dropped a s _ = []"

definition same_stream :: "nat \<Rightarrow> 'u world \<Rightarrow> 'u world \<Rightarrow> bool" where
  "same_stream a w w' \<longleftrightarrow>
     read_locks w' a = read_locks w a \<and>
     (\<forall>n. read_locks w a = Some n \<longrightarrow> map_option st_tell (streams w' n) = map_option st_tell (streams w n))"

lemma same_stream_fields: "read_locks w' = read_locks w \<Longrightarrow> streams w' = streams w \<Longrightarrow> same_stream a w w'"
  by (simp add: same_stream_def)

lemma same_stream_held:
  assumes "same_stream a w w'"
  shows "held a w' = held a w"
proof (cases "read_locks w a")
  case (Some n)
  with assms have "map_option st_tell (streams w' n) = map_option st_tell (streams w n)"
    by (simp add: same_stream_def)
  then have "Option.bind (streams w' n) st_tell = Option.bind (streams w n) st_tell"
    by (cases "streams w' n"; cases "streams w n") auto
  with assms Some show ?thesis by (simp add: held_def same_stream_def)
qed (use assms in \<open>simp add: held_def same_stream_def\<close>)

lemma lock_not_next:
  assumes "server_wf w" and "read_locks w a = Some n"
  shows "n \<noteq> next_stream w"
  using lock_stream [OF assms] by blast

lemma lock_other:
  assumes wf: "server_wf w" and "read_locks w a = Some n" and "streams w m = Some st" and "st_reader st \<noteq> a"
  shows "m \<noteq> n"
  using lock_stream [OF wf assms(2)] assms(3,4) by fastforce

lemma same_stream_handle:
  assumes wf: "server_wf w" and ab: "a \<noteq> b \<or> (\<forall>s q. mail_of w b \<noteq> (SessionRead, s) # q)"
  shows "same_stream a w (actor_handle conn b w)"
proof (cases "\<exists>s slot q. phase_of w b = Running s \<and> mail_of w b = (SessionRead, slot) # q")
  case True
  then obtain s slot q where ru: "phase_of w b = Running s" and q: "mail_of w b = (SessionRead, slot) # q" by blast
  have rb: "upstream_read s = b" using server_wfD(1) [OF wf, of b] ru by simp
  have "read_locks (actor_handle conn b w) a = read_locks w a"
    using ru q rb ab by (simp add: actor_handle_def handle_SessionRead_def send_reply_def Let_def
        split: option.splits)
  moreover have "m \<noteq> next_stream w \<Longrightarrow> streams (actor_handle conn b w) m = streams w m" for m
    using ru q by (simp add: actor_handle_def handle_SessionRead_def send_reply_def Let_def split: option.splits)
  ultimately show ?thesis using lock_not_next [OF wf] by (simp add: same_stream_def)
next
  case False
  have "read_locks (actor_handle conn b w) = read_locks w \<and> streams (actor_handle conn b w) = streams w"
    using False
    by (auto simp: actor_handle_def handle_SessionWrite_def handle_SessionResetIdleTimeout_def
        reset_idle_timeout_def actor_timeout_def abort_task_def send_reply_def try_send_def Let_def
        split: phase.splits list.splits message.splits option.splits sum.splits prod.splits)
  then show ?thesis by (simp add: same_stream_fields)
qed

lemma stream_tell_streams:
  assumes "stream_tell n st bs w = (r, w')"
  shows "m \<noteq> n \<Longrightarrow> streams w' m = streams w m" "read_locks w' = read_locks w"
    "\<exists>st'. streams w' n = Some st' \<and> st_reader st' = st_reader st \<and>
       bs = frame_bytes r @ (case st_tell st' of None \<Rightarrow> [] | Some x \<Rightarrow> x)"
  using assms by (auto simp: stream_tell_def Let_def split: if_splits)

lemma stream_poll_others:
  assumes "stream_poll conn n w = (r, w')"
  shows "m \<noteq> n \<Longrightarrow> streams w' m = streams w m"
    "reader_of w n \<noteq> Some a \<Longrightarrow> read_locks w' a = read_locks w a"
  using assms
  by (auto simp: stream_poll_def stream_end_def reader_of_def Let_def dest: stream_tell_streams(1,2)
      split: option.splits if_splits prod.splits poll.splits sum.splits)

lemma same_stream_poll:
  assumes wf: "server_wf w" and no: "reader_of w n \<noteq> Some a"
  shows "same_stream a w (snd (stream_poll conn n w))"
proof -
  obtain r w' where p: "stream_poll conn n w = (r, w')" by fastforce
  have "streams w' m = streams w m" if "read_locks w a = Some m" for m
  proof (cases "streams w n")
    case None
    then show ?thesis using p by (auto simp: stream_poll_def)
  next
    case (Some st)
    with no have "st_reader st \<noteq> a" by (simp add: reader_of_def)
    from lock_other [OF wf that Some this] stream_poll_others(1) [OF p, of m] show ?thesis by simp
  qed
  with stream_poll_others(2) [OF p no] p show ?thesis by (simp add: same_stream_def)
qed

lemma same_stream_end:
  assumes wf: "server_wf w" and no: "reader_of w n \<noteq> Some a"
  shows "same_stream a w (stream_end n w)"
proof (cases "streams w n")
  case (Some st)
  with no have st: "st_reader st \<noteq> a" by (simp add: reader_of_def)
  from lock_other [OF wf _ Some st] Some st show ?thesis
    by (auto simp: same_stream_def stream_end_def)
qed (simp add: stream_end_def same_stream_def)

lemma same_stream_drop: "same_stream a w (session_drop b w)"
proof (cases "phase_of w b")
  case (Closing s)
  note f = session_drop_fields [OF Closing refl]
  show ?thesis by (simp add: same_stream_def f option.map_comp o_def)
qed (simp_all add: session_drop_def same_stream_fields)

lemma same_stream_start:
  "same_stream a w (on_start_begin b w)" "same_stream a w (timer_fire t w)"
  "server_wf w \<Longrightarrow> same_stream a w (on_start_connect conn b w)"
proof -
  show "same_stream a w (on_start_begin b w)"
    by (rule same_stream_fields) (simp_all add: on_start_begin_def actor_timeout_def Let_def split: phase.splits)
  show "same_stream a w (timer_fire t w)"
    by (rule same_stream_fields) (simp_all add: timer_fire_def split: option.splits)
  assume wf: "server_wf w"
  show "same_stream a w (on_start_connect conn b w)"
  proof (rule same_stream_fields)
    show "read_locks (on_start_connect conn b w) = read_locks w"
      using server_wfD(1) [OF wf, of b]
      by (auto simp: on_start_connect_def reset_idle_timeout_def actor_timeout_def abort_task_def Let_def
          split: phase.splits sum.splits)
    show "streams (on_start_connect conn b w) = streams w"
      by (simp add: on_start_connect_def reset_idle_timeout_def actor_timeout_def abort_task_def Let_def
          split: phase.splits sum.splits)
  qed
qed

lemma request_streams:
  "request_step rid rs w = Some (rs', w') \<Longrightarrow> read_locks w' = read_locks w \<and> streams w' = streams w"
  "request_begin lib req w = (rs0, w0) \<Longrightarrow> read_locks w0 = read_locks w \<and> streams w0 = streams w"
  by (induction rid rs w rule: request_step.induct)
     (auto simp: take_reply_def Let_def request_begin_def find_session_def insert_session_def new_session_def
       split: if_splits option.splits reply.splits sum.splits prod.splits)


section \<open>One event\<close>

lemma stream_tell_held:
  assumes "stream_tell n st bs w = (r, w')" and "read_locks w a = Some n"
  shows "bs = frame_bytes r @ held a w'" "upstreams w' = upstreams w"
proof -
  from stream_tell_streams(3) [OF assms(1)] obtain st' where st: "streams w' n = Some st'"
      "bs = frame_bytes r @ (case st_tell st' of None \<Rightarrow> [] | Some x \<Rightarrow> x)" by blast
  with assms(2) stream_tell_streams(2) [OF assms(1)] show "bs = frame_bytes r @ held a w'"
    by (simp add: held_def)
  show "upstreams w' = upstreams w" using stream_tell_fields(2) [OF assms(1)] .
qed

lemma poll_accounts:
  assumes wf: "server_wf w" and st: "streams w n = Some st" "st_reader st = a"
    and p: "stream_poll (recorded c) n w = (r, w')"
  shows "\<exists>new. got a w' = got a w @ new \<and> held a w @ new = frame_bytes r @ held a w'"
proof -
  have lk: "read_locks w a = Some n" and up: "upstreams w a \<noteq> None"
    using server_wfD(3) [OF wf] st by (auto simp: streams_wf_def)
  from up obtain v where v: "upstreams w a = Some v" by (metis option.exhaust)
  from p st v show ?thesis
  proof (cases rule: stream_pollE)
    case aborted
    then show ?thesis by simp
  next
    case (tells bs)
    from stream_tell_held [OF tells(3) lk] lk st tells(2) show ?thesis
      by (intro exI [of _ "[]"]) (simp add: held_def got_def)
  next
    case (waits u')
    have "rec_received u' = rec_received v" using traffic.read_nothing waits(3) by blast
    with waits lk st v show ?thesis by (intro exI [of _ "[]"]) (simp add: held_def got_def)
  next
    case (ends x u')
    have "rec_received u' = rec_received v"
      using ends(4)
    proof (elim disjE exE)
      assume "x = Ready (Ok [])"
      with ends(3) traffic.read_appends [of c v READ_CAPACITY "[]" u'] show ?thesis by simp
    qed (use ends(3) traffic.read_nothing in blast)+
    with ends lk st v show ?thesis by (intro exI [of _ "[]"]) (simp add: held_def got_def stream_end_def)
  next
    case (data bs u')
    have "rec_received u' = rec_received v @ bs" using traffic.read_appends data(4) by blast
    moreover have "held a w = []" using lk st data(2) by (simp add: held_def)
    ultimately show ?thesis using stream_tell_held [OF data(5), of a] lk v
      by (intro exI [of _ bs]) (simp add: got_def)
  qed
qed

definition fresh_up :: "'u world \<Rightarrow> nat \<Rightarrow> bool" where
  "fresh_up w a \<longleftrightarrow> upstreams w a \<noteq> None \<longrightarrow>
     a < next_actor w \<and> (case phase_of w a of Spawned _ \<Rightarrow> False | Connecting _ _ _ \<Rightarrow> False | _ \<Rightarrow> True)"

text \<open>What one event does to the bytes of a session's downstream.\<close>

definition step_accounts :: "nat \<Rightarrow> 'u recorded world \<Rightarrow> bytes \<Rightarrow> 'u recorded world \<Rightarrow> bool" where
  "step_accounts a w out w' \<longleftrightarrow> (\<exists>new. got a w' = got a w @ new \<and> held a w @ new = out @ held a w')"

lemma step_accounts_same:
  "upstreams w' a = upstreams w a \<Longrightarrow> same_stream a w w' \<Longrightarrow> step_accounts a w [] w'"
  by (simp add: step_accounts_def got_def same_stream_held)

lemma handle_accounts:
  assumes wf: "server_wf w" and ru: "phase_of w a = Running ss" and q: "mail_of w a = (m, slot) # q"
  shows "step_accounts a w [] (actor_handle (recorded c) a w)"
proof -
  have hd: "upstream_read ss = a" "upstream_write ss = a"
    using server_wfD(1) [OF wf, of a] ru by auto
  show ?thesis
  proof (cases m)
    case SessionRead
    note f = actor_handle_read [OF ru q [unfolded SessionRead] refl, where conn = "recorded c"]
    have "held a (actor_handle (recorded c) a w) = held a w"
      using ru q SessionRead hd
      by (simp add: actor_handle_def handle_SessionRead_def send_reply_def held_def Let_def split: option.splits)
    with f(3) show ?thesis by (simp add: step_accounts_def got_def)
  next
    case (SessionWrite bs)
    obtain v where v: "upstreams w a = Some v" using server_wfD(1) [OF wf, of a] ru by auto
    obtain r v' where c: "c_write_all (recorded c) v bs = (r, v')" by (meson surj_pair)
    have "rec_received v' = rec_received v"
      using c traffic.write_appends traffic.write_fails by (cases r) blast+
    moreover have "c_write_all (recorded c) (the (upstreams w (upstream_write ss))) bs = (r, v')"
      using c v hd by simp
    note f = actor_handle_write [OF ru q [unfolded SessionWrite] this refl]
    moreover have "same_stream a w (actor_handle (recorded c) a w)"
      by (rule same_stream_handle [OF wf]) (use q SessionWrite in simp)
    ultimately show ?thesis
      using v hd by (simp add: step_accounts_def got_def same_stream_held f)
  next
    case SessionResetIdleTimeout
    note f = actor_handle_reset [OF ru q [unfolded SessionResetIdleTimeout] refl, where conn = "recorded c"]
    have "same_stream a w (actor_handle (recorded c) a w)"
      by (rule same_stream_handle [OF wf]) (use q SessionResetIdleTimeout in simp)
    with f(3) show ?thesis by (simp add: step_accounts_same)
  qed
qed

lemma same_stream_cut: "same_stream a w (timer_fire_in_write conn k t w)"
  by (rule same_stream_fields) (simp_all add: timer_fire_in_write_def timer_fire_def split: option.splits)

lemma exec_same_stream:
  assumes wf: "server_wf (s_world s)" and ex: "exec lib conn e s = Some s'"
    and no: "concerns (s_world s) e \<noteq> Some a" "\<nexists>n. e = EvStreamDrop n \<and> reader_of (s_world s) n = Some a"
  shows "same_stream a (s_world s) (s_world s')"
proof (cases e)
  case (EvRequest req)
  from exec_requestE [OF ex [unfolded EvRequest]] obtain rs where
      r: "request_begin lib req (s_world s) = (rs, s_world s')" by blast
  with request_streams(2) [OF r] show ?thesis by (simp add: same_stream_fields)
next
  case (EvResume rid)
  from exec_resumeE [OF ex [unfolded EvResume]] obtain rs rs' where
      r: "request_step rid rs (s_world s) = Some (rs', s_world s')" by blast
  with request_streams(1) [OF r] show ?thesis by (simp add: same_stream_fields)
qed (use ex no same_stream_start(3) [OF wf] same_stream_handle [OF wf] in
    \<open>auto simp: guarded_def on_world_def same_stream_start same_stream_cut same_stream_drop same_stream_fields split: if_splits
     intro: same_stream_poll [OF wf] same_stream_end [OF wf]\<close>)

lemma exec_fresh_up:
  assumes wf: "server_wf (s_world s)" and ex: "exec lib conn e s = Some s'" and up: "fresh_up (s_world s) a"
  shows "fresh_up (s_world s') a"
proof (cases "concerns (s_world s) e = Some a")
  case False
  from exec_untouched [OF wf ex this] up show ?thesis by (auto simp: untouched_def fresh_up_def)
next
  case True
  with ex show ?thesis
  proof (cases rule: concernedE)
    case (start args)
    with up on_start_begin_fields(7) [OF start(2,3)] show ?thesis by (simp add: fresh_up_def)
  next
    case (connected args tt it v)
    with on_start_connect_fields [OF connected(2-4)] wf_actor_lt [OF wf, of a] show ?thesis
      by (simp add: fresh_up_def)
  next
    case (read ss slot q)
    note f = actor_handle_read [OF read(2-4)]
    from f(1) wf_actor_lt [OF wf, of a] read(2) show ?thesis by (auto simp: fresh_up_def f(5))
  next
    case (writes ss bs slot q r u')
    note f = actor_handle_write [OF writes(2-5)]
    from wf_actor_lt [OF wf, of a] writes(2) show ?thesis by (simp add: fresh_up_def f)
  next
    case (reset ss slot q)
    note f = actor_handle_reset [OF reset(2-4)]
    from wf_actor_lt [OF wf, of a] reset(2) show ?thesis by (simp add: fresh_up_def f)
  next
    case (drop ss)
    note f = session_drop_fields [OF drop(2,3)]
    from up drop(2) show ?thesis by (simp add: fresh_up_def f)
  next
    case (timer t d)
    with up show ?thesis by (auto simp: fresh_up_def close_actor_def split: phase.splits)
  next
    case (cut t k d ss bs slot q r u')
    with wf_actor_lt [OF wf, of a] show ?thesis by (simp add: fresh_up_def close_actor_def)
  next
    case (poll n st r)
    with up stream_poll_fields(1,3) [OF poll(4)] server_wfD(3) [OF wf] show ?thesis
      by (auto simp: fresh_up_def streams_wf_def)
  qed (use up in \<open>simp add: fresh_up_def\<close>)
qed

text \<open>An event that concerns another session does not touch what this one's stream holds.\<close>

lemma exec_held_other:
  assumes wf: "server_wf (s_world s)" and ex: "exec lib conn e s = Some s'"
    and c: "concerns (s_world s) e \<noteq> Some a"
  shows "held a (s_world s) = dropped a s e @ held a (s_world s')"
proof (cases "\<exists>n. e = EvStreamDrop n \<and> reader_of (s_world s) n = Some a")
  case True
  then obtain n st where n: "e = EvStreamDrop n" "streams (s_world s) n = Some st" "st_reader st = a"
      "reader_of (s_world s) n = Some a"
    by (auto simp: reader_of_def)
  then have "read_locks (s_world s) a = Some n" using server_wfD(3) [OF wf] by (auto simp: streams_wf_def)
  with n ex show ?thesis by (auto simp: guarded_def on_world_def stream_end_def held_def)
next
  case False
  then have "dropped a s e = []" by (cases e) auto
  with same_stream_held [OF exec_same_stream [OF wf ex c False]] show ?thesis by simp
qed

lemma exec_accounts:
  assumes wf: "server_wf (s_world s)" and up: "fresh_up (s_world s) a"
    and ex: "exec lib (recorded c) e s = Some s'"
  shows "step_accounts a (s_world s) (yielded (recorded c) a s e @ dropped a s e) (s_world s')"
proof (cases "concerns (s_world s) e = Some a")
  case False
  then have "yielded (recorded c) a s e = []" by (cases e) auto
  moreover have "upstreams (s_world s') a = upstreams (s_world s) a"
    using exec_untouched [OF wf ex False] by (simp add: untouched_def)
  ultimately show ?thesis using exec_held_other [OF wf ex False] by (simp add: step_accounts_def got_def)
next
  case True
  then have kept: "dropped a s e = []" by (cases e) auto
  have handled: "step_accounts a (s_world s) (yielded (recorded c) a s e) (s_world s')"
    if "e = EvHandle a" "phase_of (s_world s) a = Running ss" "mail_of (s_world s) a = (m, slot) # q"
      "s_world s' = actor_handle (recorded c) a (s_world s)" for ss m slot q
    using handle_accounts [OF wf that(2,3)] that(1,4) by simp
  from ex True have "step_accounts a (s_world s) (yielded (recorded c) a s e) (s_world s')"
  proof (cases rule: concernedE)
    case (start args)
    with on_start_begin_fields(7) [OF start(2,3)] show ?thesis by (simp add: step_accounts_same same_stream_start)
  next
    case (connected args tt it v)
    have "held a (s_world s') = held a (s_world s)"
      using same_stream_held [OF same_stream_start(3) [OF wf]] by (simp add: connected(4))
    moreover have "upstreams (s_world s) a = None"
      using up connected(2) by (cases "upstreams (s_world s) a") (auto simp: fresh_up_def)
    moreover have "got a (s_world s') = []"
      using on_start_connect_fields(5) [OF connected(2-4)] traffic.connect_fresh [OF connected(3)] by (simp add: got_def)
    ultimately show ?thesis using connected(1) by (simp add: step_accounts_def got_def)
  next
    case (drop ss)
    with session_drop_fields(8) [OF drop(2,3)] show ?thesis by (simp add: step_accounts_same same_stream_drop)
  next
    case (poll n st r)
    with poll_accounts [OF wf poll(2-4)] show ?thesis by (simp add: step_accounts_def reader_of_def)
  next
    case (cut t k d ss bs slot q r u')
    obtain v where v: "upstream_write ss = a" "upstreams (s_world s) a = Some v"
      using server_wfD(1) [OF wf, of a] cut(4) by auto
    have "rec_received u' = rec_received v"
      using cut(6) v traffic.write_appends [of c v _ _ u'] traffic.write_fails [of c v _ _ u'] by (cases r) auto
    with cut v show ?thesis by (simp add: step_accounts_def got_def same_stream_held same_stream_fields)
  qed (use handled in \<open>auto simp: step_accounts_same same_stream_fields\<close>)
  with kept show ?thesis by simp
qed

section \<open>A whole run\<close>

definition frames_of :: "('u connector) \<Rightarrow> nat \<Rightarrow> ('u sys \<times> event) list \<Rightarrow> bytes" where
  "frames_of conn a ps = concat (map (\<lambda>(s, e). yielded conn a s e) ps)"

text \<open>What has left the streams of a session: frames yielded, and frames dropped with a body.\<close>

definition left_of :: "'u connector \<Rightarrow> nat \<Rightarrow> ('u sys \<times> event) list \<Rightarrow> bytes" where
  "left_of conn a ps = concat (map (\<lambda>(s, e). yielded conn a s e @ dropped a s e) ps)"

definition lost_of :: "nat \<Rightarrow> ('u sys \<times> event) list \<Rightarrow> bytes" where
  "lost_of a ps = concat (map (\<lambda>(s, e). dropped a s e) ps)"

lemma run_accounts:
  assumes "server_wf (s_world s)" and "fresh_up (s_world s) a"
    and "run (exec lib (recorded c)) es s = Some s'"
    and "got a (s_world s) = out @ held a (s_world s)"
  shows "got a (s_world s') = out @ left_of (recorded c) a (passed (exec lib (recorded c)) es s) @ held a (s_world s')"
  using assms
proof (induction es arbitrary: s out)
  case Nil
  then show ?case by (simp add: left_of_def)
next
  case (Cons e es)
  then obtain s1 where s1: "exec lib (recorded c) e s = Some s1" "run (exec lib (recorded c)) es s1 = Some s'"
    by (auto split: option.splits)
  let ?y = "yielded (recorded c) a s e @ dropped a s e"
  from exec_accounts [OF Cons.prems(1,2) s1(1)] obtain new where
      "got a (s_world s1) = got a (s_world s) @ new" "held a (s_world s) @ new = ?y @ held a (s_world s1)"
    by (auto simp: step_accounts_def)
  then have g: "got a (s_world s1) = (out @ ?y) @ held a (s_world s1)" using Cons.prems(4) by simp
  from Cons.IH [OF exec_wf [OF Cons.prems(1) s1(1)] exec_fresh_up [OF Cons.prems(1) s1(1) Cons.prems(2)]
      s1(2) g] s1(1)
  show ?case by (simp add: left_of_def)
qed

text \<open>The frames yielded are what has left, without the lost ones, in the same order.\<close>

lemma frames_subseq: "subseq (frames_of conn a ps) (left_of conn a ps)"
proof (induction ps)
  case (Cons x ps)
  obtain s e where "x = (s, e)" by fastforce
  have "subseq (yielded conn a s e @ frames_of conn a ps) (yielded conn a s e @ (dropped a s e @ left_of conn a ps))"
    using Cons by (intro list_emb_append_mono list_emb_append2) simp_all
  with \<open>x = (s, e)\<close> show ?case by (simp add: frames_of_def left_of_def)
qed (simp add: frames_of_def left_of_def)

lemma left_length: "length (left_of conn a ps) = length (frames_of conn a ps) + length (lost_of a ps)"
  by (induction ps) (auto simp: frames_of_def left_of_def lost_of_def)

text \<open>C5: downstream data is neither duplicated nor reordered, and is lost only with a response body
  that is dropped. For every connector (its traffic being recorded), every session and every
  interleaving of all tasks, response bodies dropped at any time included: the bytes read
  from the session's upstream are, in order, exactly those that have left its response
  streams, across successive \<^verbatim>\<open>GET\<close> requests, followed by what the one open stream still
  holds; what has left are the frames the streams yielded, in the order of the polls, and
  between them only the frames that a dropped body held (\<open>dropped\<close>): the bytes yielded and
  the bytes lost add up.\<close>

theorem downstream_in_order:
  assumes "run (exec lib (recorded c)) es (init_sys cap cfg) = Some s"
  shows "let ps = passed (exec lib (recorded c)) es (init_sys cap cfg)
    in got a (s_world s) = left_of (recorded c) a ps @ held a (s_world s) \<and>
       subseq (frames_of (recorded c) a ps) (left_of (recorded c) a ps) \<and>
       length (left_of (recorded c) a ps) = length (frames_of (recorded c) a ps) + length (lost_of a ps)"
proof -
  have i: "fresh_up (s_world (init_sys cap cfg :: 'a recorded sys)) a"
    "got a (s_world (init_sys cap cfg)) = [] @ held a (s_world (init_sys cap cfg :: 'a recorded sys))"
    by (simp_all add: fresh_up_def got_def held_def init_sys_def with_connector_def)
  from run_accounts [OF init_wf i(1) assms i(2)] show ?thesis
    by (simp add: Let_def frames_subseq left_length)
qed

text \<open>
  A run that loses bytes: the mailbox is full when the stream has read, and the body is
  dropped before there is room again.
\<close>

definition demo_lossy :: "event list" where
  "demo_lossy = demo_read @ [EvRequest (demo_post 3 ''x''), EvResume 1, EvPoll 0, EvStreamDrop 0]"

theorem downstream_in_order_witness:
  "\<exists>s. run (exec plain_http_lib (recorded SpamConnector)) demo_lossy demo_init = Some s \<and>
     got 0 (s_world s) = bytes_of ''hello there!'' \<and>
     lost_of 0 (passed (exec plain_http_lib (recorded SpamConnector)) demo_lossy demo_init) = bytes_of ''hello there!''"
proof -
  let ?x = "exec plain_http_lib (recorded SpamConnector)"
  let ?ps = "passed ?x demo_lossy demo_init"
  have "\<not> Option.is_none (run ?x demo_lossy demo_init)" by code_simp
  note s = Some_the [OF this]
  have l: "lost_of 0 ?ps = bytes_of ''hello there!''" by code_simp
  have y: "left_of (recorded SpamConnector) 0 ?ps = bytes_of ''hello there!''" by code_simp
  have h: "held 0 (s_world (the (run ?x demo_lossy demo_init))) = []" by code_simp
  from downstream_in_order [OF s [unfolded demo_init_def], of 0, folded demo_init_def] y h
  have "got 0 (s_world (the (run ?x demo_lossy demo_init))) = bytes_of ''hello there!''" by (simp add: Let_def)
  with s l show ?thesis by blast
qed

end
