(* ===== verification/Server_Uploads.thy ===== *)
theory Server_Uploads
  imports Server_Isolation Server_Streams "HOL-Library.Sublist"
begin

text \<open>
  The upstream direction of the server over all runs of the event system: what request
  tasks put into a session's mailbox reaches the session's upstream connection in the same
  order and once, and a request task puts the chunks of its own body there in the order of
  the body.
\<close>

section \<open>Bytes on their way to the upstream\<close>

text \<open>
  For one session: what its upstream connection has accepted, what waits in its mailbox,
  and what a resumed request task adds to the mailbox.
\<close>

definition put :: "nat \<Rightarrow> 'u recorded world \<Rightarrow> bytes" where
  "put a w = (case upstreams w a of None \<Rightarrow> [] | Some v \<Rightarrow> rec_sent v)"

fun chunk_of :: "mail \<Rightarrow> bytes" where
  "chunk_of (SessionWrite bs, slot) = bs"
| "chunk_of (SessionRead, slot) = []"
| "chunk_of (SessionResetIdleTimeout, slot) = []"

definition queued :: "nat \<Rightarrow> 'u world \<Rightarrow> bytes" where
  "queued a w = concat (map chunk_of (mail_of w a))"

fun chunk_step :: "'u world \<Rightarrow> req_state \<Rightarrow> (nat \<times> bytes) option" where
  "chunk_step w (ReqWrite a tot (Inr d # ds)) = (if is_alive w a \<and> \<not> mailbox_full w a then Some (a, d) else None)"
| "chunk_step w _ = None"

fun posts :: "'u sys \<Rightarrow> event \<Rightarrow> (nat \<times> nat \<times> bytes) option" where
  "posts s (EvResume rid) = map_option (Pair rid) (Option.bind (s_reqs s rid) (chunk_step (s_world s)))"
| "posts s _ = None"

definition posted :: "nat \<Rightarrow> 'u sys \<Rightarrow> event \<Rightarrow> bytes" where
  "posted a s e = (case posts s e of Some (rid, b, d) \<Rightarrow> if b = a then d else [] | None \<Rightarrow> [])"

lemma posted_elsewhere: "(\<And>rid. e \<noteq> EvResume rid) \<Longrightarrow> posted a s e = []"
  by (cases e) (auto simp: posted_def)

lemma chunk_step_Some:
  "chunk_step w rs = Some (a, d) \<longleftrightarrow>
   (\<exists>tot ds. rs = ReqWrite a tot (Inr d # ds)) \<and> is_alive w a \<and> \<not> mailbox_full w a"
  by (induction w rs rule: chunk_step.induct) auto

lemma posted_alive: "\<not> is_alive (s_world s) a \<Longrightarrow> posted a s e = []"
  by (cases e) (auto simp: posted_def bind_eq_Some_conv chunk_step_Some split: option.splits)

lemma queued_same: "mail_of w' a = mail_of w a \<Longrightarrow> queued a w' = queued a w"
  by (simp add: queued_def)

lemma stream_poll_queued: "stream_poll conn n w = (r, w') \<Longrightarrow> queued a w' = queued a w"
  by (auto simp: stream_poll_def stream_tell_def queued_def Let_def
      split: option.splits if_splits prod.splits poll.splits sum.splits)

lemma close_actor_mail [simp]: "b \<noteq> a \<Longrightarrow> mail_of (close_actor b w) a = mail_of w a"
  by (simp add: close_actor_def split: phase.splits)

lemma start_mail [simp]:
  "b \<noteq> a \<Longrightarrow> mail_of (on_start_begin b w) a = mail_of w a"
  "b \<noteq> a \<Longrightarrow> mail_of (on_start_connect conn b w) a = mail_of w a"
  by (auto simp: on_start_begin_def on_start_connect_def actor_timeout_def Let_def dest: reset_idle_timeout_frame
      split: phase.splits sum.splits prod.splits)

lemma drop_mail [simp]: "b \<noteq> a \<Longrightarrow> mail_of (session_drop b w) a = mail_of w a"
  by (simp add: session_drop_def Let_def split: phase.splits)

lemma timer_mail: "map_option snd (tasks w t) \<noteq> Some a \<Longrightarrow> mail_of (timer_fire t w) a = mail_of w a"
  by (auto simp: timer_fire_def split: option.splits)

lemma timer_in_write_mail:
  "map_option snd (tasks w t) \<noteq> Some a \<Longrightarrow> mail_of (timer_fire_in_write conn k t w) a = mail_of w a"
  by (auto simp: timer_fire_in_write_def timer_mail split: option.splits)

lemma request_step_queued:
  assumes "request_step rid rs w = Some (rs', w')"
  shows "queued a w' = queued a w @ (case chunk_step w rs of Some (b, d) \<Rightarrow> if b = a then d else [] | None \<Rightarrow> [])"
  using assms
  by (induction rid rs w rule: request_step.induct)
     (auto simp: queued_def take_reply_def Let_def split: if_splits option.splits reply.splits)

lemma request_begin_mail:
  assumes "request_begin lib req w = (rs, w')"
  shows "mail_of w' a = mail_of w a \<or> next_actor w \<le> a \<and> mail_of w' a = []"
  using assms
  by (auto simp: request_begin_def find_session_def insert_session_def new_session_def Let_def
      split: sum.splits prod.splits option.splits if_splits)

text \<open>An event that concerns no session or another one.\<close>

lemma exec_queued_other:
  assumes ex: "exec lib conn e s = Some s'" and no: "concerns (s_world s) e \<noteq> Some a"
    and a: "a < next_actor (s_world s) \<or> mail_of (s_world s) a = []"
  shows "queued a (s_world s') = queued a (s_world s) @ posted a s e"
proof (cases e)
  case (EvRequest req)
  from exec_requestE [OF ex [unfolded EvRequest]] obtain rs where
      r: "request_begin lib req (s_world s) = (rs, s_world s')" by blast
  with request_begin_mail [OF r, of a] a EvRequest show ?thesis by (auto simp: queued_def posted_def)
next
  case (EvResume rid)
  from exec_resumeE [OF ex [unfolded EvResume]] obtain rs rs' where
      rs: "s_reqs s rid = Some rs" and r: "request_step rid rs (s_world s) = Some (rs', s_world s')" by blast
  with request_step_queued [OF r] EvResume rs show ?thesis
    by (simp add: posted_def split: option.splits)
next
  case (EvPoll n)
  with ex obtain r where "stream_poll conn n (s_world s) = (r, s_world s')"
    by (auto simp: on_world_def intro: that [of "fst (stream_poll conn n (s_world s))"])
  from stream_poll_queued [OF this] EvPoll show ?thesis by (simp add: posted_def)
next
  case (EvHandle b)
  with ex no obtain ss m slot q where "a \<noteq> b" "phase_of (s_world s) b = Running ss"
      "mail_of (s_world s) b = (m, slot) # q" "s_world s' = actor_handle conn b (s_world s)"
    by (auto simp: guarded_def on_world_def neq_Nil_conv split: if_splits phase.splits)
  with handle_mail_others [OF this(2-4)] EvHandle show ?thesis by (simp add: queued_def posted_def)
next
  case (EvTimer t)
  with ex no timer_mail [of "s_world s" t a] show ?thesis
    by (auto simp: guarded_def on_world_def posted_def queued_def split: if_splits)
next
  case (EvTimerInWrite t k)
  with ex no timer_in_write_mail [of "s_world s" t a conn k] show ?thesis
    by (auto simp: guarded_def on_world_def posted_def queued_def split: if_splits)
qed (use ex no in \<open>auto simp: guarded_def on_world_def posted_def queued_def split: if_splits\<close>)

section \<open>One event\<close>

text \<open>
  \<open>out\<close> is what request tasks have posted for a session so far. While the session lives
  its connection and its mailbox account for all of it; a session that has ended leaves
  the rest behind.
\<close>

definition upload_ok :: "nat \<Rightarrow> bytes \<Rightarrow> 'u recorded world \<Rightarrow> bool" where
  "upload_ok a out w \<longleftrightarrow>
     prefix (put a w) out \<and> (is_alive w a \<longrightarrow> out = put a w @ queued a w) \<and> (next_actor w \<le> a \<longrightarrow> out = [])"

lemma upload_ok_same:
  assumes "upload_ok a out w" and "put a w' = put a w" and "is_alive w' a \<Longrightarrow> is_alive w a \<and> queued a w' = queued a w"
    and "next_actor w \<le> next_actor w'"
  shows "upload_ok a out w'"
  using assms by (auto simp: upload_ok_def)

lemma poll_put:
  assumes wf: "server_wf w" and st: "streams w n = Some st" "st_reader st = a"
    and p: "stream_poll (recorded c) n w = (r, w')"
  shows "put a w' = put a w"
proof -
  have "upstreams w a \<noteq> None" using server_wfD(3) [OF wf] st by (auto simp: streams_wf_def)
  then obtain v where v: "upstreams w a = Some v" by (metis option.exhaust)
  have same: "rec_sent v' = rec_sent v" if "c_read_buf (recorded c) v READ_CAPACITY = (x, v')" for x v'
    using that traffic.read_nothing [of c v READ_CAPACITY v'] traffic.read_appends [of c v READ_CAPACITY _ v']
    by (metis poll.exhaust sum.exhaust)
  from p st v show ?thesis
  proof (cases rule: stream_pollE)
    case (tells bs)
    with stream_tell_fields(2) [OF tells(3)] show ?thesis by (simp add: put_def)
  next
    case (waits u')
    with same v show ?thesis by (simp add: put_def)
  next
    case (ends x u')
    with same v st show ?thesis by (simp add: put_def)
  next
    case (data bs u')
    with same v stream_tell_fields(2) [OF data(5)] show ?thesis by (simp add: put_def)
  qed (simp add: put_def)
qed

lemma handle_upload_ok:
  assumes wf: "server_wf w" and ok: "upload_ok a out w" and ru: "phase_of w a = Running ss"
    and q: "mail_of w a = (m, slot) # q" and w': "w' = actor_handle (recorded c) a w" and n: "next_actor w \<le> next_actor w'"
  shows "upload_ok a out w'"
proof -
  have al: "is_alive w a" using ru by (rule is_alive_Running)
  show ?thesis
  proof (cases m)
    case SessionRead
    note f = actor_handle_read(3) [OF ru q [unfolded SessionRead] w'] handle_read_mail(1) [OF ru q [unfolded SessionRead] w']
    with q SessionRead al show ?thesis by (intro upload_ok_same [OF ok _ _ n]) (simp_all add: put_def queued_def)
  next
    case SessionResetIdleTimeout
    note r = q [unfolded SessionResetIdleTimeout]
    note f = actor_handle_reset(3) [OF ru r w'] handle_reset_mail(1) [OF ru r w']
    with r al show ?thesis by (intro upload_ok_same [OF ok _ _ n]) (simp_all add: put_def queued_def)
  next
    case (SessionWrite bs)
    have h: "upstream_write ss = a" "upstreams w a \<noteq> None" using server_wfD(1) [OF wf, of a] ru by simp_all
    then obtain v where v: "upstreams w a = Some v" by (metis option.exhaust)
    obtain x v' where c: "c_write_all (recorded c) v bs = (x, v')" by (meson surj_pair)
    with v h have "c_write_all (recorded c) (the (upstreams w (upstream_write ss))) bs = (x, v')" by simp
    note f = actor_handle_write [OF ru q [unfolded SessionWrite] this w']
    have out: "out = put a w @ bs @ concat (map chunk_of q)" "a < next_actor w"
      using ok al wf_actor_lt [OF wf is_alive_phase [OF al]] by (simp_all add: upload_ok_def queued_def q SessionWrite)
    show ?thesis
    proof (cases x)
      case (Inl e)
      then have "put a w' = put a w" "\<not> is_alive w' a"
        using traffic.write_fails [of c v bs e v'] c v h by (simp_all add: put_def f is_alive_def)
      then show ?thesis using upload_ok_same [OF ok _ _ n] by blast
    next
      case (Inr y)
      then have "put a w' = put a w @ bs" using traffic.write_appends [of c v bs y v'] c v h by (simp add: put_def f)
      moreover have "queued a w' = concat (map chunk_of q)" if "is_alive w' a"
        using handle_write_slots(1) [OF ru q [unfolded SessionWrite] w' that] by (auto simp: queued_def)
      ultimately show ?thesis using out n by (auto simp: upload_ok_def)
    qed
  qed
qed

lemma exec_upload_concerned:
  assumes wf: "server_wf (s_world s)" and up: "fresh_up (s_world s) a" and ok: "upload_ok a out (s_world s)"
    and ex: "exec lib (recorded c) e s = Some s'" and c: "concerns (s_world s) e = Some a"
  shows "upload_ok a out (s_world s')"
proof -
  note n = exec_next_actor [OF wf ex]
  from ex c show ?thesis
  proof (cases rule: concernedE)
    case (start args)
    note f = on_start_begin_fields [OF start(2,3)]
    from start(2) show ?thesis
      by (intro upload_ok_same [OF ok _ _ n]) (simp_all add: f put_def queued_def is_alive_def)
  next
    case (connected args tt it v)
    note f = on_start_connect_fields [OF connected(2-4)]
    have "put a (s_world s) = []" using up connected(2) by (auto simp: fresh_up_def put_def split: option.splits)
    moreover have "put a (s_world s') = []" using traffic.connect_fresh [OF connected(3)] by (simp add: put_def f)
    ultimately show ?thesis using connected(2)
      by (intro upload_ok_same [OF ok _ _ n]) (simp_all add: f queued_def is_alive_def)
  next
    case (read ss slot q)
    from handle_upload_ok [OF wf ok read(2-4) n] show ?thesis .
  next
    case (writes ss bs slot q r u')
    from handle_upload_ok [OF wf ok writes(2,3,5) n] show ?thesis .
  next
    case (reset ss slot q)
    from handle_upload_ok [OF wf ok reset(2-4) n] show ?thesis .
  next
    case (drop ss)
    note f = session_drop_fields [OF drop(2,3)]
    show ?thesis by (intro upload_ok_same [OF ok _ _ n]) (simp_all add: f put_def is_alive_def)
  next
    case (timer t d)
    then have "\<not> is_alive (s_world s') a" by simp
    with timer(4) show ?thesis by (intro upload_ok_same [OF ok _ _ n]) (simp_all add: put_def)
  next
    case (cut t k d ss bs slot q r u')
    obtain v where v: "upstream_write ss = a" "upstreams (s_world s) a = Some v"
      using server_wfD(1) [OF wf, of a] cut(4) by auto
    have "rec_sent u' = rec_sent v @ take k bs \<or> rec_sent u' = rec_sent v"
      using cut(6) v traffic.write_appends [of c v _ _ u'] traffic.write_fails [of c v _ _ u'] by (cases r) auto
    moreover have "out = rec_sent v @ bs @ concat (map chunk_of q)"
      using ok is_alive_Running [OF cut(4)] v by (simp add: upload_ok_def put_def queued_def cut(5))
    ultimately have "prefix (rec_sent u') out" by (auto simp: prefix_def) (metis append_take_drop_id append.assoc)
    with ok v n show ?thesis by (auto simp: upload_ok_def put_def cut(7))
  next
    case (poll k st r)
    from poll_put [OF wf poll(2-4)] stream_poll_queued [OF poll(4)] stream_poll_fields(1) [OF poll(4)]
    show ?thesis by (intro upload_ok_same [OF ok _ _ n]) (simp_all add: is_alive_def)
  qed (intro upload_ok_same [OF ok _ _ n]; simp add: put_def is_alive_def)+
qed

lemma exec_upload_ok:
  assumes wf: "server_wf (s_world s)" and up: "fresh_up (s_world s) a" and ok: "upload_ok a out (s_world s)"
    and ex: "exec lib (recorded c) e s = Some s'"
  shows "upload_ok a (out @ posted a s e) (s_world s')"
proof (cases "concerns (s_world s) e = Some a")
  case True
  then have "posted a s e = []" by (intro posted_elsewhere) auto
  with exec_upload_concerned [OF wf up ok ex True] show ?thesis by simp
next
  case False
  from exec_untouched [OF wf ex False] have u: "put a (s_world s') = put a (s_world s)"
      "a < next_actor (s_world s) \<Longrightarrow> is_alive (s_world s') a = is_alive (s_world s) a"
      "next_actor (s_world s) \<le> next_actor (s_world s')"
    by (simp_all add: untouched_def put_def is_alive_def)
  show ?thesis
  proof (cases "a < next_actor (s_world s)")
    case True
    with exec_queued_other [OF ex False] u ok show ?thesis by (auto simp: upload_ok_def)
  next
    case fresh: False
    then have dead: "\<not> is_alive (s_world s) a" using wf_actor_lt [OF wf is_alive_phase] by blast
    then have "posted a s e = []" "mail_of (s_world s) a = []" using posted_alive wf_mail(2) [OF wf] by blast+
    with exec_queued_other [OF ex False, unfolded queued_def] u ok fresh show ?thesis
      by (auto simp: upload_ok_def queued_def)
  qed
qed

section \<open>A whole run\<close>

definition posted_of :: "nat \<Rightarrow> ('u sys \<times> event) list \<Rightarrow> bytes" where
  "posted_of a ps = concat (map (\<lambda>(s, e). posted a s e) ps)"

lemma run_upload_ok:
  assumes "server_wf (s_world s)" and "fresh_up (s_world s) a" and "upload_ok a out (s_world s)"
    and "run (exec lib (recorded c)) es s = Some s'"
  shows "upload_ok a (out @ posted_of a (passed (exec lib (recorded c)) es s)) (s_world s')"
  using assms
proof (induction es arbitrary: s out)
  case Nil
  then show ?case by (simp add: posted_of_def)
next
  case (Cons e es)
  then obtain s1 where s1: "exec lib (recorded c) e s = Some s1" "run (exec lib (recorded c)) es s1 = Some s'"
    by (auto split: option.splits)
  from Cons.IH [OF exec_wf [OF Cons.prems(1) s1(1)] exec_fresh_up [OF Cons.prems(1) s1(1) Cons.prems(2)]
      exec_upload_ok [OF Cons.prems(1-3) s1(1)] s1(2)] s1(1)
  show ?case by (simp add: posted_of_def)
qed

text \<open>C6: upstream data is neither duplicated nor reordered, and lost only with its session. For
  every connector (its traffic being recorded), every session and every interleaving of
  all tasks: what the session's upstream connection has taken (in successful writes, and in
  a last one cut off by a timeout) is a prefix of what the request tasks have put into its
  mailbox, in that order; and while the session lives, the rest is exactly what still waits
  in the mailbox.\<close>

theorem upstream_in_order:
  assumes "run (exec lib (recorded c)) es (init_sys cap cfg) = Some s"
  shows "prefix (put a (s_world s)) (posted_of a (passed (exec lib (recorded c)) es (init_sys cap cfg))) \<and>
     (is_alive (s_world s) a \<longrightarrow>
        posted_of a (passed (exec lib (recorded c)) es (init_sys cap cfg)) = put a (s_world s) @ queued a (s_world s))"
proof -
  have i: "fresh_up (s_world (init_sys cap cfg :: 'a recorded sys)) a"
    "upload_ok a [] (s_world (init_sys cap cfg :: 'a recorded sys))"
    by (simp_all add: fresh_up_def upload_ok_def put_def queued_def init_sys_def with_connector_def mail_of_def)
  from run_upload_ok [OF init_wf i assms] show ?thesis by (simp add: upload_ok_def)
qed

theorem upstream_in_order_witness:
  "\<exists>s. run (exec plain_http_lib (recorded SpamConnector)) demo_write demo_init = Some s \<and>
     is_alive (s_world s) 0 \<and> put 0 (s_world s) @ queued 0 (s_world s) = bytes_of ''hello''"
proof -
  let ?x = "exec plain_http_lib (recorded SpamConnector)"
  have "\<not> Option.is_none (run ?x demo_write demo_init)" by code_simp
  note s = Some_the [OF this]
  have al: "is_alive (s_world (the (run ?x demo_write demo_init))) 0" by code_simp
  have "posted_of 0 (passed ?x demo_write demo_init) = bytes_of ''hello''" by code_simp
  with upstream_in_order [OF s [unfolded demo_init_def]] s al show ?thesis
    by (metis demo_init_def)
qed

text \<open>A write cut off by a timeout: the upstream has the first bytes, the request gets a \<^verbatim>\<open>400\<close>.\<close>

lemma write_cut_off:
  "\<exists>s r. run (exec plain_http_lib (recorded NullConnector))
       [EvRequest (demo_post 3 ''hey''), EvResume 0, EvStart 0, EvConnect 0, EvTick 9, EvTimerInWrite 0 2, EvResume 0]
       demo_init = Some s \<and>
     put 0 (s_world s) = bytes_of ''he'' \<and> s_reqs s 0 = Some (ReqDone r) \<and> rsp_status r = BAD_REQUEST"
proof -
  let ?s = "run (exec plain_http_lib (recorded NullConnector))
       [EvRequest (demo_post 3 ''hey''), EvResume 0, EvStart 0, EvConnect 0, EvTick 9, EvTimerInWrite 0 2, EvResume 0]
       demo_init"
  have s: "\<not> Option.is_none ?s" by code_simp
  have p: "put 0 (s_world (the ?s)) = bytes_of ''he''" by code_simp
  have "case s_reqs (the ?s) 0 of Some (ReqDone r) \<Rightarrow> rsp_status r = BAD_REQUEST | _ \<Rightarrow> False" by code_simp
  then obtain r where "s_reqs (the ?s) 0 = Some (ReqDone r)" "rsp_status r = BAD_REQUEST"
    by (auto split: option.splits req_state.splits)
  with p Some_the [OF s] show ?thesis by blast
qed

section \<open>The body of one request\<close>

definition posted_by :: "nat \<Rightarrow> ('u sys \<times> event) list \<Rightarrow> bytes" where
  "posted_by rid ps =
     concat (map (\<lambda>(s, e). case posts s e of Some (i, b, d) \<Rightarrow> if i = rid then d else [] | None \<Rightarrow> []) ps)"

text \<open>
  What has been taken from a body, with \<open>rest\<close> still to come: chunks of data only, an error is
  never passed over. \<open>complete\<close> is a body that has been taken to its end.
\<close>

definition taken :: "(hyper_error, bytes) result list \<Rightarrow> bytes \<Rightarrow> (hyper_error, bytes) result list \<Rightarrow> bool" where
  "taken body out rest \<longleftrightarrow> (\<exists>ds. body = map Ok ds @ rest \<and> out = concat ds)"

abbreviation begun :: "(hyper_error, bytes) result list \<Rightarrow> bytes \<Rightarrow> bool" where
  "begun body out \<equiv> (\<exists>rest. taken body out rest)"

abbreviation complete :: "(hyper_error, bytes) result list \<Rightarrow> bytes \<Rightarrow> bool" where
  "complete body out \<equiv> taken body out []"

text \<open>What a request task has posted (\<open>out\<close>), and what it still has of its body and its count.\<close>

fun posting :: "(hyper_error, bytes) result list \<Rightarrow> bytes \<Rightarrow> req_state \<Rightarrow> bool" where
  "posting body out (ReqRead a) = (out = [])"
| "posting body out (ReqReadWait a) = (out = [])"
| "posting body out (ReqWrite a tot ds) = (taken body out ds \<and> tot = word_of_nat (length out))"
| "posting body out (ReqWriteWait a n tot ds) = (taken body out ds \<and> tot = word_of_nat (length out))"
| "posting body out (ReqDone r) =
     (begun body out \<and> (rsp_status r = NO_CONTENT \<longrightarrow> complete body out \<and> out \<noteq> []))"

lemma taken_start: "taken body [] body"
  unfolding taken_def by (rule exI [of _ "[]"]) simp

lemma begun_start [simp]: "begun body []"
  using taken_start by blast

lemma taken_next: "taken body out (Inr d # ds) \<Longrightarrow> taken body (out @ d) ds"
  unfolding taken_def
proof (elim exE conjE)
  fix xs assume "body = map Ok xs @ Inr d # ds" "out = concat xs"
  then show "\<exists>ds'. body = map Ok ds' @ ds \<and> out @ d = concat ds'" by (intro exI [of _ "xs @ [d]"]) simp
qed

lemma posting_begun: "posting body out rs \<Longrightarrow> begun body out"
  by (cases rs) auto

lemma posting_error [simp]: "posting body out (req_error msg) = begun body out"
  by (simp add: req_error_def into_response_def HttpError_from_def)

lemma posting_read [simp]: "posting body out (read_result x) = begun body out"
  by (simp add: read_result_def read_response_def into_response_def HttpError_code_def split: option.splits)

lemma posting_finish: "taken body out [] \<Longrightarrow> posting body out (finish_write (word_of_nat (length out)))"
  by (auto simp: finish_write_def)

lemma request_step_posting:
  assumes "request_step rid rs w = Some (rs', w')" and "posting body out rs"
  shows "posting body (out @ (case chunk_step w rs of Some (b, d) \<Rightarrow> d | None \<Rightarrow> [])) rs'"
  using assms
proof (induction rid rs w rule: request_step.induct)
  case (2 rid a w)
  then show ?case by (auto split: if_splits option.splits reply.splits)
next
  case (3 rid a tot w)
  then show ?case by (auto simp: posting_finish)
next
  case (5 rid a tot d ds w)
  then show ?case using taken_next by (auto split: if_splits)
qed (use taken_start in \<open>auto simp: Let_def split: if_splits option.splits reply.splits\<close>)

definition task_posting ::
  "nat \<Rightarrow> (hyper_error, bytes) result list \<Rightarrow> bytes \<Rightarrow> 'u sys \<Rightarrow> bool" where
  "task_posting rid body out s \<longleftrightarrow>
     rid < s_next_req s \<and> (case s_reqs s rid of None \<Rightarrow> begun body out | Some rs \<Rightarrow> posting body out rs)"

lemma exec_posting:
  assumes p: "task_posting rid body out s" and ex: "exec lib conn e s = Some s'"
  shows "task_posting rid body (out @ posted_by rid [(s, e)]) s'"
proof (cases "e = EvResume rid")
  case True
  from exec_resumeE [OF ex [unfolded True]] obtain rs rs' where
      rs: "s_reqs s rid = Some rs" and r: "request_step rid rs (s_world s) = Some (rs', s_world s')"
      and s': "s_reqs s' = (s_reqs s)(rid \<mapsto> rs')" "s_next_req s' = s_next_req s" by blast
  from p rs have "posting body out rs" "rid < s_next_req s" by (simp_all add: task_posting_def)
  with request_step_posting [OF r] True rs s' show ?thesis
    by (auto simp: task_posting_def posted_by_def split: option.splits)
next
  case False
  then have "posted_by rid [(s, e)] = []" by (cases e) (auto simp: posted_by_def split: option.splits)
  moreover have "s_next_req s \<le> s_next_req s'" "s_reqs s' rid \<in> {s_reqs s rid, None}"
    using ex p False
    by (cases e; auto simp: task_posting_def guarded_def on_world_def split: if_splits option.splits prod.splits)+
  ultimately show ?thesis using p posting_begun by (auto simp: task_posting_def split: option.splits)
qed

lemma run_posting:
  assumes "task_posting rid body out s" and "run (exec lib conn) es s = Some s'"
  shows "task_posting rid body (out @ posted_by rid (passed (exec lib conn) es s)) s'"
  using assms
proof (induction es arbitrary: s out)
  case Nil
  then show ?case by (simp add: posted_by_def)
next
  case (Cons e es)
  then obtain s1 where s1: "exec lib conn e s = Some s1" "run (exec lib conn) es s1 = Some s'"
    by (auto split: option.splits)
  from Cons.IH [OF exec_posting [OF Cons.prems(1) s1(1)] s1(2)] s1(1) show ?case
    by (simp add: posted_by_def)
qed

lemma request_begin_posting:
  assumes "request_begin lib req w = (rs, w')"
  shows "posting (into_data_stream (req_body req)) [] rs"
  using assms
  by (auto simp: request_begin_def into_response_def taken_start dest: parse_head_Err find_session_Err
      split: sum.splits prod.splits if_splits)

text \<open>C7: a request task forwards its own body, in order, and never pretends. For every interleaving
  with other tasks, what the task has put into mailboxes since the request arrived is the data
  of the first frames of its body, none of which is an error; and when the request is answered
  by 204, then no frame of the body was an error, the data of all frames has been put in,
  and it was not empty. So a 204 is never given for a body that broke off, was skipped in part
  or had nothing in it.\<close>

theorem body_posted_in_order:
  assumes "exec lib conn (EvRequest req) s = Some s1" and "run (exec lib conn) es s1 = Some s2"
  shows "(\<exists>ds rest. into_data_stream (req_body req) = map Ok ds @ rest \<and>
       posted_by (s_next_req s) (passed (exec lib conn) es s1) = concat ds) \<and>
     (\<forall>r. s_reqs s2 (s_next_req s) = Some (ReqDone r) \<and> rsp_status r = NO_CONTENT \<longrightarrow>
        (\<exists>ds. into_data_stream (req_body req) = map Ok ds \<and>
           posted_by (s_next_req s) (passed (exec lib conn) es s1) = concat ds \<and> concat ds \<noteq> []))"
proof -
  let ?body = "into_data_stream (req_body req)" and ?out = "posted_by (s_next_req s) (passed (exec lib conn) es s1)"
  from exec_requestE [OF assms(1)] obtain rs where rb: "request_begin lib req (s_world s) = (rs, s_world s1)"
      and s1: "s_reqs s1 = (s_reqs s)(s_next_req s \<mapsto> rs)" "s_next_req s1 = Suc (s_next_req s)" by blast
  with request_begin_posting [OF rb] have "task_posting (s_next_req s) ?body [] s1"
    by (simp add: task_posting_def)
  from run_posting [OF this assms(2)] have
    "begun ?body ?out \<and> (\<forall>r. s_reqs s2 (s_next_req s) = Some (ReqDone r) \<and> rsp_status r = NO_CONTENT \<longrightarrow>
        complete ?body ?out \<and> ?out \<noteq> [])"
    by (auto simp: task_posting_def dest: posting_begun split: option.splits)
  then have "begun ?body ?out" and "s_reqs s2 (s_next_req s) = Some (ReqDone r) \<Longrightarrow> rsp_status r = NO_CONTENT \<Longrightarrow>
      complete ?body ?out \<and> ?out \<noteq> []" for r
    by blast+
  then show ?thesis unfolding taken_def by (metis append_Nil2)
qed

theorem body_posted_in_order_witness:
  "\<exists>s1 s2 ds. demo_exec (EvRequest (demo_post 3 ''hello'')) demo_init = Some s1 \<and>
     run demo_exec [EvResume 0, EvStart 0, EvConnect 0, EvHandle 0, EvResume 0, EvResume 0] s1 = Some s2 \<and>
     into_data_stream (req_body (demo_post 3 ''hello'')) = map Ok ds \<and>
     posted_by 0 (passed demo_exec [EvResume 0, EvStart 0, EvConnect 0, EvHandle 0, EvResume 0, EvResume 0] s1)
       = concat ds \<and> concat ds \<noteq> []"
proof -
  let ?r = "EvRequest (demo_post 3 ''hello'')"
  let ?es = "[EvResume 0, EvStart 0, EvConnect 0, EvHandle 0, EvResume 0, EvResume 0]"
  let ?s1 = "the (demo_exec ?r demo_init)"
  let ?s2 = "the (run demo_exec ?es ?s1)"
  have "\<not> Option.is_none (demo_exec ?r demo_init)" by code_simp
  note s1 = Some_the [OF this]
  have "\<not> Option.is_none (run demo_exec ?es ?s1)" by code_simp
  note s2 = Some_the [OF this]
  have "s_reqs ?s2 0 = Some (ReqDone write_response)" by code_simp
  moreover have "s_next_req (demo_init :: echo sys) = 0" by (simp add: demo_init_def init_sys_def)
  moreover have "rsp_status write_response = NO_CONTENT" by (simp add: write_response_def)
  ultimately have "\<exists>ds. into_data_stream (req_body (demo_post 3 ''hello'')) = map Ok ds \<and>
      posted_by 0 (passed demo_exec ?es ?s1) = concat ds \<and> concat ds \<noteq> []"
    using body_posted_in_order [OF s1 s2] by metis
  with s1 s2 show ?thesis by blast
qed

end
