(* ===== verification/Server_Termination.thy ===== *)
theory Server_Termination
  imports Server_Uploads
begin

text \<open>
  The server comes to rest: a budget that every internal event draws on and that only an
  arriving request and the poll of a response body can raise. So the work the server does
  is bounded by what it is asked to do, for every interleaving.
\<close>

section \<open>The budget\<close>

text \<open>
  Internal events are those of the server's own tasks: everything but arriving requests,
  polls of response bodies, the clock, and the owner of the server.
\<close>

fun internal :: "event \<Rightarrow> bool" where
  "internal (EvResume rid) = True"
| "internal (EvCancel rid) = True"
| "internal (EvStart a) = True"
| "internal (EvConnect a) = True"
| "internal (EvHandle a) = True"
| "internal (EvTimer t) = True"
| "internal (EvTimerInWrite t k) = True"
| "internal (EvDrop a) = True"
| "internal (EvStreamDrop n) = True"
| "internal _ = False"

text \<open>
  A pending chunk costs four events: the task posts it, the session writes it and resets
  its idle timer, the task takes the reply. A mailbox message pays for what handling it
  leaves behind: a read its response stream, a write the message that resets the timer.
\<close>

fun req_cost :: "req_state \<Rightarrow> nat" where
  "req_cost (ReqRead a) = 5"
| "req_cost (ReqReadWait a) = 2"
| "req_cost (ReqWrite a tot ds) = 4 * length ds + 2"
| "req_cost (ReqWriteWait a n tot ds) = 4 * length ds + 3"
| "req_cost (ReqDone r) = 1"

fun mail_cost :: "mail \<Rightarrow> nat" where
  "mail_cost (SessionWrite bs, slot) = 2"
| "mail_cost (SessionRead, slot) = 2"
| "mail_cost (SessionResetIdleTimeout, slot) = 1"

fun phase_cost :: "phase \<Rightarrow> nat" where
  "phase_cost (Spawned args) = 5"
| "phase_cost (Connecting args tt it) = 2"
| "phase_cost (Running s) = 1"
| "phase_cost (Closing s) = 1"
| "phase_cost Dead = 0"

definition opt_cost :: "('a \<Rightarrow> nat) \<Rightarrow> 'a option \<Rightarrow> nat" where
  "opt_cost f x = (case x of None \<Rightarrow> 0 | Some y \<Rightarrow> f y)"

definition actor_cost :: "'u world \<Rightarrow> nat \<Rightarrow> nat" where
  "actor_cost w a = phase_cost (phase_of w a) + sum_list (map mail_cost (mail_of w a))"

definition upto_cost :: "nat \<Rightarrow> (nat \<Rightarrow> nat) \<Rightarrow> nat" where
  "upto_cost n f = sum_list (map f [0..<n])"

definition actors_cost :: "'u world \<Rightarrow> nat" where
  "actors_cost w = upto_cost (next_actor w) (actor_cost w)"

definition tasks_cost :: "'u world \<Rightarrow> nat" where
  "tasks_cost w = upto_cost (next_task w) (\<lambda>t. opt_cost (\<lambda>_. 1) (tasks w t))"

definition streams_cost :: "'u world \<Rightarrow> nat" where
  "streams_cost w = upto_cost (next_stream w) (\<lambda>n. opt_cost (\<lambda>_. 1) (streams w n))"

definition reqs_cost :: "'u sys \<Rightarrow> nat" where
  "reqs_cost s = upto_cost (s_next_req s) (\<lambda>rid. opt_cost req_cost (s_reqs s rid))"

definition budget :: "'u sys \<Rightarrow> nat" where
  "budget s = reqs_cost s + actors_cost (s_world s) + tasks_cost (s_world s) + streams_cost (s_world s)"

fun credit :: "event \<Rightarrow> nat" where
  "credit (EvRequest req) = 4 * length (into_data_stream (req_body req)) + 10"
| "credit (EvPoll n) = 1"
| "credit _ = 0"

section \<open>Sums over the entries of a table\<close>

lemma upto_cost_Suc [simp]: "upto_cost (Suc n) f = upto_cost n f + f n"
  by (simp add: upto_cost_def)

lemma upto_cost_cong: "(\<And>i. i < n \<Longrightarrow> f i = g i) \<Longrightarrow> upto_cost n f = upto_cost n g"
  by (auto simp: upto_cost_def intro!: arg_cong [of _ _ sum_list] map_cong)

lemma upto_cost_change:
  "i < n \<Longrightarrow> (\<And>j. j < n \<Longrightarrow> j \<noteq> i \<Longrightarrow> f j = g j) \<Longrightarrow> upto_cost n f + g i = upto_cost n g + f i"
proof (induction n)
  case (Suc n)
  show ?case
  proof (cases "i = n")
    case True
    with Suc.prems upto_cost_cong [of n f g] show ?thesis by simp
  next
    case False
    with Suc show ?thesis by simp
  qed
qed simp

lemma upto_cost_mono: "(\<And>i. i < n \<Longrightarrow> f i \<le> g i) \<Longrightarrow> upto_cost n f \<le> upto_cost n g"
  by (induction n) (simp_all add: upto_cost_def add_mono)

lemma opt_cost_simps [simp]: "opt_cost f None = 0" "opt_cost f (Some x) = f x"
  by (simp_all add: opt_cost_def)

lemma opt_cost_map [simp]: "opt_cost (\<lambda>_. k) (map_option f x) = opt_cost (\<lambda>_. k) x"
  by (cases x) simp_all

text \<open>A timeout task is replaced by a new one.\<close>

lemma swap_tasks_cost:
  assumes "tasks w' = (tasks (abort_task (Some t) w))(next_task w \<mapsto> x)" and "next_task w' = Suc (next_task w)"
    and "t < next_task w" and "tasks w t \<noteq> None"
  shows "tasks_cost w' = tasks_cost w"
proof -
  let ?f = "\<lambda>i. opt_cost (\<lambda>_. 1) (tasks w' i)" and ?g = "\<lambda>i. opt_cost (\<lambda>_. 1) (tasks w i)"
  have "upto_cost (next_task w) ?f + ?g t = upto_cost (next_task w) ?g + ?f t"
    by (rule upto_cost_change) (use assms in \<open>auto simp: abort_task_def\<close>)
  with assms show ?thesis by (auto simp: tasks_cost_def abort_task_def)
qed

lemma end_task_cost:
  assumes "tasks w' = (tasks w)(t := None)" and "next_task w' = next_task w" and "t < next_task w" "tasks w t \<noteq> None"
  shows "tasks_cost w' + 1 = tasks_cost w"
proof -
  let ?f = "\<lambda>i. opt_cost (\<lambda>_. 1) (tasks w' i)" and ?g = "\<lambda>i. opt_cost (\<lambda>_. 1) (tasks w i)"
  have "upto_cost (next_task w) ?f + ?g t = upto_cost (next_task w) ?g + ?f t"
    by (rule upto_cost_change) (use assms in auto)
  with assms show ?thesis by (auto simp: tasks_cost_def)
qed

lemma end_stream_cost:
  assumes "server_wf w" and "streams w n = Some st"
  shows "streams_cost (stream_end n w) + 1 = streams_cost w" "tasks_cost (stream_end n w) = tasks_cost w"
proof -
  let ?f = "\<lambda>i. opt_cost (\<lambda>_. 1) (streams (stream_end n w) i)" and ?g = "\<lambda>i. opt_cost (\<lambda>_. 1) (streams w i)"
  have n: "n < next_stream w" using server_wfD(3) [OF assms(1)] assms(2) by (simp add: streams_wf_def)
  have "upto_cost (next_stream w) ?f + ?g n = upto_cost (next_stream w) ?g + ?f n"
    by (rule upto_cost_change [OF n]) (use assms in \<open>auto simp: stream_end_def\<close>)
  with assms(2) show "streams_cost (stream_end n w) + 1 = streams_cost w" "tasks_cost (stream_end n w) = tasks_cost w"
    by (simp_all add: streams_cost_def tasks_cost_def stream_end_def)
qed

section \<open>Events of one session\<close>

definition session_cost :: "nat \<Rightarrow> 'u world \<Rightarrow> nat" where
  "session_cost a w = actor_cost w a + tasks_cost w + streams_cost w"

lemma start_cost:
  assumes wf: "server_wf w" and "phase_of w a = Spawned args" and "w' = on_start_begin a w"
  shows "session_cost a w' + 1 \<le> session_cost a w"
proof -
  note f = on_start_begin_fields [OF assms(2,3)]
  have "tasks w t = None" if "t \<ge> next_task w" for t using wf_no_task [OF wf that] .
  then have "tasks_cost w' = tasks_cost w + 2"
    by (simp add: tasks_cost_def f) (auto intro: upto_cost_cong)
  moreover have "streams_cost w' = streams_cost w" by (simp add: streams_cost_def f)
  ultimately show ?thesis using assms(2) by (simp add: session_cost_def actor_cost_def f)
qed

lemma connect_cost:
  assumes wf: "server_wf w" and c: "phase_of w a = Connecting args tt it" "c_connect conn a (a_upstream args) = Ok v"
    and "w' = on_start_connect conn a w"
  shows "session_cost a w' + 1 \<le> session_cost a w"
proof -
  note f = on_start_connect_fields [OF c assms(4)]
  have "task_for w a it" using server_wfD(1) [OF wf, of a] c(1) by (auto simp: timers_ok_def)
  then have "tasks w it \<noteq> None" "it < next_task w" using wf_tasks [OF wf] by (auto simp: task_for_def split: option.splits)
  from swap_tasks_cost [OF f(3,4) this(2,1)] have "tasks_cost w' = tasks_cost w" .
  moreover have "streams_cost w' = streams_cost w" by (simp add: streams_cost_def f)
  ultimately show ?thesis using c(1) by (simp add: session_cost_def actor_cost_def f)
qed

lemma handle_streams_cost:
  assumes "phase_of w a = Running ss" and "mail_of w a = (m, slot) # q" and "w' = actor_handle conn a w"
  shows "streams_cost w' \<le> streams_cost w + (if m = SessionRead then 1 else 0)"
proof (cases m)
  case SessionRead
  with assms have "streams w' = streams w \<and> next_stream w' = next_stream w \<or>
      (\<exists>st. streams w' = (streams w)(next_stream w \<mapsto> st)) \<and> next_stream w' = Suc (next_stream w)"
    by (auto simp: actor_handle_def handle_SessionRead_def send_reply_def Let_def split: option.splits)
  then show ?thesis
  proof (elim disjE conjE exE)
    fix st assume s: "streams w' = (streams w)(next_stream w \<mapsto> st)" "next_stream w' = Suc (next_stream w)"
    have "upto_cost (next_stream w) (\<lambda>n. opt_cost (\<lambda>_. 1) (streams w' n)) = streams_cost w"
      unfolding streams_cost_def by (rule upto_cost_cong) (simp add: s)
    with SessionRead s show ?thesis by (simp add: streams_cost_def)
  qed (simp add: streams_cost_def)
next
  case (SessionWrite bs)
  with assms have "streams w' = streams w" "next_stream w' = next_stream w"
    by (auto simp: actor_handle_def handle_SessionWrite_def close_actor_def try_send_def send_reply_def Let_def
        split: option.splits sum.splits prod.splits)
  then show ?thesis by (simp add: streams_cost_def)
next
  case SessionResetIdleTimeout
  with assms have "streams w' = streams w" "next_stream w' = next_stream w"
    by (auto simp: actor_handle_def handle_SessionResetIdleTimeout_def reset_idle_timeout_def actor_timeout_def
        abort_task_def Let_def split: option.splits)
  then show ?thesis by (simp add: streams_cost_def)
qed

lemma handle_actor_tasks_cost:
  assumes wf: "server_wf w" and ru: "phase_of w a = Running ss" and q: "mail_of w a = (m, slot) # q"
    and w': "w' = actor_handle conn a w"
  shows "actor_cost w' a + (if m = SessionRead then 2 else 1) \<le> actor_cost w a" "tasks_cost w' = tasks_cost w"
proof -
  have "actor_cost w' a + (if m = SessionRead then 2 else 1) \<le> actor_cost w a \<and> tasks_cost w' = tasks_cost w"
  proof (cases m)
    case SessionRead
    note r = q [unfolded SessionRead]
    from actor_handle_read(1) [OF ru r w'] have "phase_cost (phase_of w' a) = 1" by auto
    with handle_read_mail(1) [OF ru r w'] ru r SessionRead actor_handle_read(4,8) [OF ru r w'] show ?thesis
      by (simp add: actor_cost_def tasks_cost_def)
  next
    case (SessionWrite bs)
    note r = q [unfolded SessionWrite]
    obtain x u' where "c_write_all conn (the (upstreams w (upstream_write ss))) bs = (x, u')" by fastforce
    note f = actor_handle_write [OF ru r this w']
    have "server_wf w'" using wf_actor_handle [OF wf] w' by simp
    from wf_mail(2) [OF this, of a] handle_write_slots(1) [OF ru r w'] have
      "sum_list (map mail_cost (mail_of w' a)) \<le> sum_list (map mail_cost q) + 1" by (cases "is_alive w' a") auto
    moreover have "phase_cost (phase_of w' a) = 1" using ru by (simp add: f)
    ultimately show ?thesis using ru r SessionWrite by (simp add: actor_cost_def tasks_cost_def f)
  next
    case SessionResetIdleTimeout
    note r = q [unfolded SessionResetIdleTimeout]
    note f = actor_handle_reset [OF ru r w']
    from server_wfD(1) [OF wf, of a] ru obtain t where t: "idle_timeout_task ss = Some t" "task_for w a t"
      by (auto simp: timers_ok_def)
    then have "tasks w t \<noteq> None" "t < next_task w" using wf_tasks [OF wf] by (auto simp: task_for_def split: option.splits)
    with swap_tasks_cost [OF f(2) [unfolded t(1)] f(7)] have "tasks_cost w' = tasks_cost w" by blast
    with handle_reset_mail(1) [OF ru r w'] ru r SessionResetIdleTimeout show ?thesis
      by (simp add: actor_cost_def f)
  qed
  then show "actor_cost w' a + (if m = SessionRead then 2 else 1) \<le> actor_cost w a" "tasks_cost w' = tasks_cost w"
    by simp_all
qed

lemma handle_cost:
  assumes "server_wf w" and "phase_of w a = Running ss" and "mail_of w a = (m, slot) # q" and "w' = actor_handle conn a w"
  shows "session_cost a w' + 1 \<le> session_cost a w"
  using handle_streams_cost [OF assms(2-4)] handle_actor_tasks_cost [OF assms]
  by (simp add: session_cost_def split: if_splits)

lemma drop_cost:
  assumes "phase_of w a = Closing ss" and "w' = session_drop a w"
  shows "session_cost a w' + 1 \<le> session_cost a w"
proof -
  note f = session_drop_fields [OF assms]
  have "tasks_cost w' \<le> tasks_cost w" unfolding tasks_cost_def f(6) by (rule upto_cost_mono) (simp add: f)
  moreover have "streams_cost w' = streams_cost w"
    unfolding streams_cost_def f(9) by (rule upto_cost_cong) (simp add: f)
  ultimately show ?thesis using assms(1) by (simp add: session_cost_def actor_cost_def f)
qed

lemma close_actor_cost: "actor_cost (close_actor a w) a \<le> actor_cost w a"
  by (simp add: actor_cost_def close_actor_def split: phase.splits)

lemma timer_cost:
  assumes wf: "server_wf w" and "tasks w t = Some (d, a)" and "w' = close_actor a (w\<lparr>tasks := (tasks w)(t := None)\<rparr>)"
  shows "session_cost a w' + 1 \<le> session_cost a w"
proof -
  have "tasks_cost w' + 1 = tasks_cost w"
    by (rule end_task_cost [of _ _ t]) (use wf_tasks [OF wf assms(2)] assms(2,3) in simp_all)
  moreover have "actor_cost w' a \<le> actor_cost w a"
    using close_actor_cost [of a "w\<lparr>tasks := (tasks w)(t := None)\<rparr>"] assms(3) by (simp add: actor_cost_def)
  moreover have "streams_cost w' = streams_cost w"
    using assms(3) by (simp add: streams_cost_def close_actor_def split: phase.splits)
  ultimately show ?thesis by (simp add: session_cost_def)
qed

lemma update_streams_cost:
  assumes "streams w n \<noteq> None" and "streams w' = (streams w)(n \<mapsto> st)" and "next_stream w' = next_stream w"
  shows "streams_cost w' = streams_cost w"
  unfolding streams_cost_def assms(3) by (rule upto_cost_cong) (use assms in auto)

lemma tell_cost:
  assumes "stream_tell n st bs w = (r, w')" and "streams w n \<noteq> None" and "st_session st = a"
  shows "session_cost a w' \<le> session_cost a w + 1"
proof -
  from assms(1) have s: "\<exists>st'. streams w' = (streams w)(n \<mapsto> st')" "next_stream w' = next_stream w"
      and m: "mail_of w' a = mail_of w a \<or> mail_of w' a = mail_of w a @ [(SessionResetIdleTimeout, None)]"
    using assms(3) by (auto simp: stream_tell_def Let_def split: if_splits)
  from s(1) obtain st' where "streams w' = (streams w)(n \<mapsto> st')" ..
  from update_streams_cost [OF assms(2) this s(2)] have "streams_cost w' = streams_cost w" .
  moreover note stream_tell_fields [OF assms(1)]
  ultimately show ?thesis using m by (auto simp: session_cost_def actor_cost_def tasks_cost_def)
qed

lemma poll_cost:
  assumes wf: "server_wf w" and st: "streams w n = Some st" "st_reader st = a"
    and p: "stream_poll conn n w = (r, w')"
  shows "session_cost a w' \<le> session_cost a w + 1"
proof -
  have up: "upstreams w a \<noteq> None" and ss: "st_session st = a"
    using server_wfD(3) [OF wf] st by (auto simp: streams_wf_def)
  from up obtain v where v: "upstreams w a = Some v" by (metis option.exhaust)
  have up_same: "session_cost a (w\<lparr>upstreams := x, w_stats := y\<rparr>) = session_cost a w"
      "session_cost a (w\<lparr>upstreams := x\<rparr>) = session_cost a w" for x y
    by (simp_all add: session_cost_def actor_cost_def tasks_cost_def streams_cost_def)
  from p st v show ?thesis
  proof (cases rule: stream_pollE)
    case (tells bs)
    with tell_cost [OF tells(3)] st ss show ?thesis by simp
  next
    case (waits u')
    have "streams_cost w' = streams_cost w"
      by (rule update_streams_cost [of _ n]) (use st waits in simp_all)
    with waits show ?thesis by (simp add: session_cost_def actor_cost_def tasks_cost_def)
  next
    case (ends x u')
    let ?w = "w\<lparr>upstreams := (upstreams w)(a \<mapsto> u')\<rparr>"
    have "server_wf ?w" using wf v by (intro wf_upstream_update) simp_all
    from end_stream_cost [OF this, of n st] st ends up_same(2) [of "(upstreams w)(a \<mapsto> u')"] show ?thesis
      by (simp add: session_cost_def actor_cost_def)
  next
    case (data bs u')
    with tell_cost [OF data(5), of a] st ss up_same(1) show ?thesis by simp
  qed simp
qed

section \<open>Every event\<close>

lemma concerned_cost:
  assumes wf: "server_wf (s_world s)" and ex: "exec lib conn e s = Some s'" and c: "concerns (s_world s) e = Some a"
  shows "session_cost a (s_world s') + of_bool (internal e) \<le> session_cost a (s_world s) + credit e"
  using ex c
proof (cases rule: concernedE)
  case (start args)
  with start_cost [OF wf start(2,3)] show ?thesis by simp
next
  case (refused args tt it err)
  then show ?thesis by (simp add: session_cost_def actor_cost_def tasks_cost_def streams_cost_def)
next
  case (connected args tt it v)
  with connect_cost [OF wf connected(2-4)] show ?thesis by simp
next
  case (read ss slot q)
  with handle_cost [OF wf read(2-4)] show ?thesis by simp
next
  case (writes ss bs slot q r u')
  with handle_cost [OF wf writes(2,3,5)] show ?thesis by simp
next
  case (reset ss slot q)
  with handle_cost [OF wf reset(2-4)] show ?thesis by simp
next
  case (drop ss)
  with drop_cost [OF drop(2,3)] show ?thesis by simp
next
  case (timer t d)
  with timer_cost [OF wf timer(2,4)] show ?thesis by simp
next
  case (cut t k d ss bs slot q r u')
  let ?w = "(s_world s)\<lparr>upstreams := (upstreams (s_world s))(upstream_write ss \<mapsto> u')\<rparr>"
  have "tasks ?w t = Some (d, a)" "s_world s' = close_actor a (?w\<lparr>tasks := (tasks ?w)(t := None)\<rparr>)"
    using cut(2,7) by simp_all
  from timer_cost [OF wf_upstream_update [OF wf] this] cut(1) show ?thesis
    by (simp add: session_cost_def actor_cost_def tasks_cost_def streams_cost_def)
next
  case (poll n st r)
  with poll_cost [OF wf poll(2-4)] show ?thesis by simp
qed

lemma poll_mail_others:
  assumes wf: "server_wf w" and "streams w n = Some st" "st_reader st = a" and "stream_poll conn n w = (r, w')" and "b \<noteq> a"
  shows "mail_of w' b = mail_of w b" "next_actor w' = next_actor w"
proof -
  have "st_session st = a" using server_wfD(3) [OF wf] assms(2,3) by (auto simp: streams_wf_def)
  with assms(2-5) show "mail_of w' b = mail_of w b"
    by (auto simp: stream_poll_def stream_tell_def Let_def split: option.splits if_splits prod.splits poll.splits sum.splits)
  show "next_actor w' = next_actor w" using stream_poll_fields(3) [OF assms(4)] .
qed

lemma concerned_others:
  assumes wf: "server_wf (s_world s)" and ex: "exec lib conn e s = Some s'" and c: "concerns (s_world s) e = Some a"
  shows "a < next_actor (s_world s)" "next_actor (s_world s') = next_actor (s_world s)"
    "b \<noteq> a \<Longrightarrow> b < next_actor (s_world s) \<Longrightarrow> actor_cost (s_world s') b = actor_cost (s_world s) b"
proof -
  have "a < next_actor (s_world s) \<and> next_actor (s_world s') = next_actor (s_world s) \<and>
      (b \<noteq> a \<longrightarrow> mail_of (s_world s') b = mail_of (s_world s) b)" for b
    using ex c
  proof (cases rule: concernedE)
    case (start args)
    with on_start_begin_fields [OF start(2,3)] wf_actor_lt [OF wf, of a] show ?thesis by simp
  next
    case (connected args tt it v)
    with on_start_connect_fields [OF connected(2-4)] wf_actor_lt [OF wf, of a] show ?thesis by simp
  next
    case (read ss slot q)
    with actor_handle_read(5) [OF read(2-4)] handle_mail_others [OF read(2-4)] wf_actor_lt [OF wf, of a] show ?thesis by simp
  next
    case (writes ss bs slot q r u')
    with actor_handle_write(4) [OF writes(2-5)] handle_mail_others [OF writes(2,3,5)] wf_actor_lt [OF wf, of a]
    show ?thesis by simp
  next
    case (reset ss slot q)
    with actor_handle_reset(4) [OF reset(2-4)] handle_mail_others [OF reset(2-4)] wf_actor_lt [OF wf, of a] show ?thesis by simp
  next
    case (drop ss)
    with session_drop_fields [OF drop(2,3)] wf_actor_lt [OF wf, of a] show ?thesis by simp
  next
    case (timer t d)
    with wf_tasks [OF wf timer(2)] show ?thesis by simp
  next
    case (cut t k d ss bs slot q r u')
    with wf_tasks [OF wf cut(2)] show ?thesis by simp
  next
    case (poll n st r)
    have "read_locks (s_world s) a = Some n" using server_wfD(3) [OF wf] poll(2,3) by (auto simp: streams_wf_def)
    then have "a < next_actor (s_world s)"
      using wf by (cases "a < next_actor (s_world s)") (auto simp: server_wf_def fresh_wf_def)
    with poll_mail_others [OF wf poll(2-4)] stream_poll_fields(3) [OF poll(4)] show ?thesis by simp
  qed (use wf_actor_lt [OF wf, of a] in simp)
  note k = this
  show "a < next_actor (s_world s)" "next_actor (s_world s') = next_actor (s_world s)" using k by blast+
  assume b: "b \<noteq> a" "b < next_actor (s_world s)"
  with exec_untouched [OF wf ex, of b] c have "phase_of (s_world s') b = phase_of (s_world s) b"
    by (simp add: untouched_def)
  with k b(1) show "actor_cost (s_world s') b = actor_cost (s_world s) b" by (simp add: actor_cost_def)
qed

lemma concerned_reqs: "exec lib conn e s = Some s' \<Longrightarrow> concerns (s_world s) e = Some a \<Longrightarrow> reqs_cost s' = reqs_cost s"
  by (cases e) (auto simp: guarded_def on_world_def reqs_cost_def split: if_splits)

lemma concerned_budget:
  assumes wf: "server_wf (s_world s)" and ex: "exec lib conn e s = Some s'" and c: "concerns (s_world s) e = Some a"
  shows "budget s' + of_bool (internal e) \<le> budget s + credit e"
proof -
  note o = concerned_others [OF wf ex c]
  have "actors_cost (s_world s') + actor_cost (s_world s) a = actors_cost (s_world s) + actor_cost (s_world s') a"
    unfolding actors_cost_def o(2) by (rule upto_cost_change) (use o in simp_all)
  with concerned_cost [OF wf ex c] concerned_reqs [OF ex c] show ?thesis
    by (simp add: budget_def session_cost_def)
qed

lemma reqs_change:
  assumes "s_reqs s rid = Some rs" and "s_reqs s' = (s_reqs s)(rid := x)" and "s_next_req s' = s_next_req s"
    and "rid < s_next_req s"
  shows "reqs_cost s' + req_cost rs = reqs_cost s + opt_cost req_cost x"
proof -
  let ?f = "\<lambda>i. opt_cost req_cost (s_reqs s' i)" and ?g = "\<lambda>i. opt_cost req_cost (s_reqs s i)"
  have "upto_cost (s_next_req s) ?f + ?g rid = upto_cost (s_next_req s) ?g + ?f rid"
    by (rule upto_cost_change [OF assms(4)]) (simp add: assms(2))
  with assms(1-3) show ?thesis by (simp add: reqs_cost_def)
qed

lemma enqueue_cost:
  assumes "a < next_actor w"
  shows "actors_cost (enqueue a m w) = actors_cost w + mail_cost m"
proof -
  have "upto_cost (next_actor w) (actor_cost (enqueue a m w)) + actor_cost w a =
      upto_cost (next_actor w) (actor_cost w) + actor_cost (enqueue a m w) a"
    by (rule upto_cost_change [OF assms]) (simp add: actor_cost_def)
  then show ?thesis by (simp add: actors_cost_def actor_cost_def enqueue_def)
qed

lemma same_actors_cost:
  "phase_of w' = phase_of w \<Longrightarrow> mail_of w' = mail_of w \<Longrightarrow> next_actor w' = next_actor w \<Longrightarrow> actors_cost w' = actors_cost w"
  by (simp add: actors_cost_def actor_cost_def [abs_def])

lemma actors_cost_frame [simp]:
  "actors_cost (take_reply rid w) = actors_cost w" "actors_cost (w\<lparr>w_stats := st\<rparr>) = actors_cost w"
  "actors_cost (w\<lparr>clock := c\<rparr>) = actors_cost w" "actors_cost (w\<lparr>server_alive := b\<rparr>) = actors_cost w"
  "actors_cost (stream_end n w) = actors_cost w"
  by (rule same_actors_cost; simp add: take_reply_def stream_end_def split: option.splits)+

lemma request_step_cost:
  assumes wf: "server_wf w" and "request_step rid rs w = Some (rs', w')"
  shows "req_cost rs' + actors_cost w' + 1 \<le> req_cost rs + actors_cost w" "tasks_cost w' = tasks_cost w"
    "streams_cost w' = streams_cost w"
proof -
  have al: "is_alive w a \<Longrightarrow> a < next_actor w" for a using wf_actor_lt [OF wf is_alive_phase] .
  have c: "req_cost (req_error msg) = 1" "req_cost (read_result x) = 1" "req_cost (finish_write n) = 1" for msg x n
    by (simp_all add: req_error_def read_result_def finish_write_def split: option.splits)
  from assms(2) al show "req_cost rs' + actors_cost w' + 1 \<le> req_cost rs + actors_cost w"
    by (induction rid rs w rule: request_step.induct)
       (auto simp: c enqueue_cost Let_def split: if_splits option.splits reply.splits)
  have "tasks w' = tasks w" "next_task w' = next_task w" "streams w' = streams w" "next_stream w' = next_stream w"
    using assms(2)
    by (induction rid rs w rule: request_step.induct; auto simp: take_reply_def Let_def enqueue_def split: if_splits option.splits reply.splits)+
  then show "tasks_cost w' = tasks_cost w" "streams_cost w' = streams_cost w" by (simp_all add: tasks_cost_def streams_cost_def)
qed

lemma insert_session_cost:
  assumes "insert_session u w = (a, w')"
  shows "actors_cost w' = actors_cost w + 5" "tasks_cost w' = tasks_cost w" "streams_cost w' = streams_cost w"
proof -
  have n: "next_actor w' = Suc (next_actor w)" "phase_cost (phase_of w' (next_actor w)) = 5" "mail_of w' (next_actor w) = []"
    "\<And>b. b \<noteq> next_actor w \<Longrightarrow> phase_of w' b = phase_of w b \<and> mail_of w' b = mail_of w b"
    using assms by (auto simp: insert_session_def new_session_def Let_def)
  have "upto_cost (next_actor w) (actor_cost w') = upto_cost (next_actor w) (actor_cost w)"
    by (rule upto_cost_cong) (simp add: actor_cost_def n(4))
  with n show "actors_cost w' = actors_cost w + 5" by (simp add: actors_cost_def actor_cost_def)
  show "tasks_cost w' = tasks_cost w" "streams_cost w' = streams_cost w"
    using assms by (auto simp: insert_session_def new_session_def Let_def tasks_cost_def streams_cost_def)
qed

lemma request_begin_cost:
  assumes "request_begin lib req w = (rs, w')"
  shows "req_cost rs + actors_cost w' + tasks_cost w' + streams_cost w'
     \<le> actors_cost w + tasks_cost w + streams_cost w + credit (EvRequest req)"
proof -
  have "actors_cost w2 + tasks_cost w2 + streams_cost w2 \<le> actors_cost w + tasks_cost w + streams_cost w + 5"
    if "find_session cc u w = (x, w2)" for cc u x w2
    using that insert_session_cost [of u w _ w2]
    by (auto simp: find_session_def split: option.splits if_splits prod.splits)
  note k = this
  from assms show ?thesis
    by (auto simp: request_begin_def dest!: k split: sum.splits prod.splits if_splits)
qed

lemma exec_budget:
  assumes live: "live_ok s" and ex: "exec lib conn e s = Some s'"
  shows "budget s' + of_bool (internal e) \<le> budget s + credit e"
proof (cases "concerns (s_world s) e")
  case (Some a)
  from concerned_budget [OF _ ex Some] live show ?thesis by (simp add: live_ok_def sys_ok_def)
next
  case None
  have wf: "server_wf (s_world s)" using live by (simp add: live_ok_def sys_ok_def)
  have lt: "rid < s_next_req s" if "s_reqs s rid = Some rs" for rid rs
    using asks_okD(2) [of s rid] live that by (cases "rid < s_next_req s") (auto simp: live_ok_def)
  show ?thesis
  proof (cases e)
    case (EvRequest req)
    from exec_requestE [OF ex [unfolded EvRequest]] obtain rs where
        r: "request_begin lib req (s_world s) = (rs, s_world s')"
        and s': "s_reqs s' = (s_reqs s)(s_next_req s \<mapsto> rs)" "s_next_req s' = Suc (s_next_req s)" by blast
    have "upto_cost (s_next_req s) (\<lambda>rid. opt_cost req_cost (s_reqs s' rid)) = reqs_cost s"
      unfolding reqs_cost_def by (rule upto_cost_cong) (simp add: s')
    then have "reqs_cost s' = reqs_cost s + req_cost rs" by (simp add: reqs_cost_def s')
    with request_begin_cost [OF r] EvRequest show ?thesis by (simp add: budget_def)
  next
    case (EvResume rid)
    from exec_resumeE [OF ex [unfolded EvResume]] obtain rs rs' where
        rs: "s_reqs s rid = Some rs" and r: "request_step rid rs (s_world s) = Some (rs', s_world s')"
        and s': "s_reqs s' = (s_reqs s)(rid \<mapsto> rs')" "s_next_req s' = s_next_req s" by blast
    from reqs_change [OF rs s' lt [OF rs]] have "reqs_cost s' + req_cost rs = reqs_cost s + req_cost rs'" by simp
    with request_step_cost [OF wf r] EvResume show ?thesis by (simp add: budget_def)
  next
    case (EvCancel rid)
    with ex obtain rs where rs: "s_reqs s rid = Some rs" and s': "s' = s\<lparr>s_reqs := (s_reqs s)(rid := None)\<rparr>"
      by (auto simp: guarded_def split: if_splits)
    from reqs_change [OF rs, of s' None] lt [OF rs] s' have "reqs_cost s' + req_cost rs = reqs_cost s" by simp
    moreover have "1 \<le> req_cost rs" by (cases rs) auto
    ultimately show ?thesis using s' EvCancel by (simp add: budget_def)
  next
    case (EvStreamDrop n)
    with ex obtain st where st: "streams (s_world s) n = Some st" and s': "s' = on_world (stream_end n) s"
      by (auto simp: guarded_def split: if_splits)
    with end_stream_cost [OF wf st] s' EvStreamDrop show ?thesis by (simp add: budget_def on_world_def reqs_cost_def)
  qed (use ex None in \<open>auto simp: guarded_def on_world_def reader_of_def stream_poll_def budget_def reqs_cost_def
      tasks_cost_def streams_cost_def split: if_splits\<close>)
qed

interpretation work: amortised "exec lib conn" live_ok budget "\<lambda>e. of_bool (internal e)" credit for lib conn
  by unfold_locales (rule exec_budget)

lemma internal_count: "sum_list (map (\<lambda>e. of_bool (internal e)) es) = length (filter internal es)"
  by (induction es) simp_all

text \<open>C13: the server comes to rest. From every state it can reach, and for every interleaving of
  its tasks, the number of internal events of a run (request tasks going on or being
  cancelled, sessions starting, connecting, handling messages and ending, timeouts, dropped
  response bodies) is at most the budget of the state plus four for every chunk of an
  arriving request, ten for the request and one for every poll of a response body. In
  particular the server cannot go on by itself for ever: sessions and their timers do not
  keep each other busy, and a fresh server does no more work than its requests ask for.\<close>

theorem server_comes_to_rest:
  assumes "reachable lib conn s" and "run (exec lib conn) es s = Some s'"
  shows "length (filter internal es) \<le> budget s + sum_list (map credit es)"
  using work.run_potential [OF reachable_live [OF assms(1)] assms(2)] by (simp add: internal_count)

theorem server_comes_to_rest_witness:
  "\<exists>s'. run demo_exec [EvResume 0, EvStart 0, EvConnect 0] (demo_run [EvRequest (demo_get 3)]) = Some s' \<and>
     3 \<le> budget (demo_run [EvRequest (demo_get 3)]) \<and> budget (demo_run [EvRequest (demo_get 3)]) = 10"
proof -
  let ?s = "demo_run [EvRequest (demo_get 3)]" and ?es = "[EvResume 0, EvStart 0, EvConnect 0]"
  have "\<not> Option.is_none (run demo_exec [EvRequest (demo_get 3)] demo_init)" by code_simp
  note s = demo_reachable(2) [OF this]
  have "\<not> Option.is_none (run demo_exec ?es ?s)" by code_simp
  note s' = Some_the [OF this]
  have "budget ?s = 10" by code_simp
  with server_comes_to_rest [OF s s'] s' show ?thesis by auto
qed

end
