(* ===== verification/Server_Unblocking.thy ===== *)
theory Server_Unblocking
  imports Server_Progress
begin

text \<open>
  What frees a request whose session hangs. An upstream may never finish a connection attempt
  and never take the bytes written to it: the session then does not make another step
  (no \<open>EvConnect\<close>, no \<open>EvHandle\<close>), and every request that asked it waits. The total timeout
  ends this. A request that waits for its own client, for the next frame of its body, is not
  freed by anything in the server; its resumption stands for the arrival of that frame.
\<close>

section \<open>Requests to a session that has ended\<close>

definition resumes :: "nat \<Rightarrow> event list \<Rightarrow> nat" where
  "resumes rid es = length (filter (\<lambda>e. e = EvResume rid) es)"

lemma resumes_simps [simp]:
  "resumes rid [] = 0" "resumes rid (e # es) = (if e = EvResume rid then Suc (resumes rid es) else resumes rid es)"
  by (simp_all add: resumes_def)

text \<open>How often a request is resumed until it is answered, once its session has ended.\<close>

fun last_steps :: "req_state \<Rightarrow> nat" where
  "last_steps (ReqWriteWait a n tot ds) = 2"
| "last_steps (ReqDone r) = 0"
| "last_steps _ = 1"

lemma last_steps_done [simp]:
  "last_steps (req_error msg) = 0" "last_steps (read_result x) = 0" "last_steps (finish_write n) = 0"
  by (simp_all add: req_error_def read_result_def finish_write_def split: option.splits)







section \<open>The total timeout frees every request\<close>




end
