(* ===== verification/Server_Tests.thy ===== *)
theory Server_Tests
  imports Test_Doubles "HOL-Library.Monad_Syntax"
begin

text \<open>
  The tests of \<^verbatim>\<open>src/server.rs\<close> that exercise the timeouts and the counters, as functions
  on the model that return \<open>None\<close> where the Rust test panics. They run on the schedule of
  the single-threaded test runtime: when the test yields, every session works until it
  waits, and a timeout task wakes up as soon as the clock has passed its deadline. The
  theorems show that the tests pass, for any number of rounds, any pauses and any
  timeouts the tests could have been written with.
\<close>

section \<open>The test runtime\<close>

text \<open>\<^verbatim>\<open>yield_now().await\<close>: every session works until it waits; one that is closed is dropped.\<close>

definition actor_turn :: "'u connector \<Rightarrow> nat \<Rightarrow> 'u world \<Rightarrow> 'u world" where
  "actor_turn conn a w = session_drop a (run_actor conn a w)"

definition yield_now :: "'u connector \<Rightarrow> 'u world \<Rightarrow> 'u world" where
  "yield_now conn w = fold (actor_turn conn) [0..<next_actor w] w"

text \<open>\<^verbatim>\<open>tokio::time::advance\<close>: the paused clock moves, and the tasks that are due wake up.\<close>

definition wake_due :: "nat \<Rightarrow> 'u world \<Rightarrow> 'u world" where
  "wake_due t w =
     (case tasks w t of
        None \<Rightarrow> w
      | Some (deadline, a) \<Rightarrow> if deadline \<le> clock w then timer_fire t w else w)"

definition advance :: "nat \<Rightarrow> 'u world \<Rightarrow> 'u world" where
  "advance secs w = fold wake_due [0..<next_task w] (w\<lparr>clock := clock w + secs\<rparr>)"

text \<open>\<^verbatim>\<open>wait\<close> of the test module.\<close>

definition wait :: "'u connector \<Rightarrow> nat \<Rightarrow> 'u world \<Rightarrow> 'u world" where
  "wait conn secs w = yield_now conn (advance secs (yield_now conn w))"

section \<open>The timeout tests\<close>

text \<open>
  The response body of \<^verbatim>\<open>get\<close>, and the three things the tests assert of
  \<^verbatim>\<open>reader.frame().now_or_never()\<close>: nothing yet, a frame, the end.
\<close>

definition get_reader :: "'u connector \<Rightarrow> nat \<Rightarrow> 'u world \<Rightarrow> (nat \<times> 'u world) option" where
  "get_reader conn sid w =
     (case test_get conn 0 sid w of
        (r, w1) \<Rightarrow> (case rsp_body r of EmptyBody \<Rightarrow> None | StreamBody n \<Rightarrow> Some (n, w1)))"

definition no_frame_yet :: "'u connector \<Rightarrow> nat \<Rightarrow> 'u world \<Rightarrow> 'u world option" where
  "no_frame_yet conn n w =
     (case stream_poll conn n w of (Pending, w1) \<Rightarrow> Some w1 | _ \<Rightarrow> None)"

definition next_frame :: "'u connector \<Rightarrow> nat \<Rightarrow> 'u world \<Rightarrow> 'u world option" where
  "next_frame conn n w =
     (case stream_poll conn n w of (Ready (Some f), w1) \<Rightarrow> Some w1 | _ \<Rightarrow> None)"

definition no_more_frames :: "'u connector \<Rightarrow> nat \<Rightarrow> 'u world \<Rightarrow> 'u world option" where
  "no_more_frames conn n w =
     (case stream_poll conn n w of (Ready None, w1) \<Rightarrow> Some w1 | _ \<Rightarrow> None)"

text \<open>
  \<^verbatim>\<open>idle_timeout_write\<close>: a session that is written to every \<open>step\<close> seconds stays alive, and
  ends when nothing happens for \<open>gap\<close> seconds. Each element of the list is the ID of a
  session and its number of writes (\<^verbatim>\<open>stalls\<close>).
\<close>

fun keep_writing :: "nat \<Rightarrow> nat \<Rightarrow> nat \<Rightarrow> nat \<Rightarrow> unit world \<Rightarrow> unit world option" where
  "keep_writing step sid n 0 w = Some w"
| "keep_writing step sid n (Suc stalls) w = do {
     let (_, w1) = test_post NullConnector 0 sid ''stay alive!'' w;
     w2 \<leftarrow> no_frame_yet NullConnector n (wait NullConnector step w1);
     keep_writing step sid n stalls w2 }"

definition write_session :: "nat \<Rightarrow> nat \<Rightarrow> nat \<times> nat \<Rightarrow> unit world \<Rightarrow> unit world option" where
  "write_session step gap x w = (case x of (sid, stalls) \<Rightarrow> do {
     (n, w1) \<leftarrow> get_reader NullConnector sid w;
     w2 \<leftarrow> no_frame_yet NullConnector n (yield_now NullConnector w1);
     w3 \<leftarrow> no_frame_yet NullConnector n (wait NullConnector step w2);
     w4 \<leftarrow> keep_writing step sid n stalls w3;
     w5 \<leftarrow> no_more_frames NullConnector n (wait NullConnector gap w4);
     Some (stream_end n w5) })"

fun in_turn :: "('a \<Rightarrow> 'w \<Rightarrow> 'w option) \<Rightarrow> 'a list \<Rightarrow> 'w \<Rightarrow> 'w option" where
  "in_turn f [] w = Some w"
| "in_turn f (x # xs) w = Option.bind (f x w) (in_turn f xs)"

definition test_config :: "nat \<Rightarrow> nat \<Rightarrow> config" where
  "test_config ttl idle = Config_new local_addr ttl idle"

definition idle_timeout_write :: "nat \<Rightarrow> (nat \<times> nat) list \<Rightarrow> unit world option" where
  "idle_timeout_write cap runs =
     in_turn (write_session 2 4) runs (with_connector cap (test_config 999 3))"

text \<open>
  \<^verbatim>\<open>idle_timeout_read\<close>: the same with an upstream that always has data, where the session
  is kept alive by reading.
\<close>

fun keep_reading :: "nat \<Rightarrow> nat \<Rightarrow> nat \<Rightarrow> unit world \<Rightarrow> unit world option" where
  "keep_reading step n 0 w = Some w"
| "keep_reading step n (Suc stalls) w = do {
     w1 \<leftarrow> next_frame SpamConnector n (wait SpamConnector step w);
     keep_reading step n stalls w1 }"

definition read_until_end :: "nat \<Rightarrow> nat \<Rightarrow> nat \<times> nat \<Rightarrow> unit world \<Rightarrow> (nat \<times> unit world) option" where
  "read_until_end step gap x w = (case x of (sid, stalls) \<Rightarrow> do {
     (n, w1) \<leftarrow> get_reader SpamConnector sid w;
     w2 \<leftarrow> next_frame SpamConnector n (yield_now SpamConnector w1);
     w3 \<leftarrow> keep_reading step n stalls w2;
     w4 \<leftarrow> no_more_frames SpamConnector n (wait SpamConnector gap w3);
     Some (n, w4) })"

definition read_session :: "nat \<Rightarrow> nat \<Rightarrow> nat \<times> nat \<Rightarrow> unit world \<Rightarrow> unit world option" where
  "read_session step gap x w = do {
     (n, w1) \<leftarrow> read_until_end step gap x w;
     Some (stream_end n w1) }"

definition idle_timeout_read :: "nat \<Rightarrow> (nat \<times> nat) list \<Rightarrow> unit world option" where
  "idle_timeout_read cap runs =
     in_turn (read_session 2 4) runs (with_connector cap (test_config 999 3))"

text \<open>\<^verbatim>\<open>total_timeout\<close>: reading does not keep a session alive beyond its total timeout.\<close>

definition total_timeout_test :: "nat \<Rightarrow> nat \<Rightarrow> unit world option" where
  "total_timeout_test cap sid =
     map_option snd (read_until_end 1 2 (sid, 4) (with_connector cap (test_config 5 999)))"

text \<open>
  \<^verbatim>\<open>stats\<close>: each of its two halves opens a session with a \<^verbatim>\<open>GET\<close>, posts a message, reads the
  response to its end (at most \<open>polls\<close> polls are looked at), and checks the length of what
  it has read and the counters.
\<close>

fun collected :: "frame list \<Rightarrow> bytes" where
  "collected [] = []"
| "collected (DataFrame bs # fs) = bs @ collected fs"
| "collected (Trailers hs # fs) = collected fs"

definition stats_round :: "nat \<Rightarrow> nat \<Rightarrow> string \<Rightarrow> nat \<Rightarrow> nat \<Rightarrow> echo world \<Rightarrow> echo world option" where
  "stats_round polls sid msg tx rx w = do {
     (n, w1) \<leftarrow> get_reader EchoConnector sid w;
     let (r, w2) = test_post EchoConnector 0 sid msg w1;
     if rsp_status r \<noteq> NO_CONTENT then None
     else (case collect EchoConnector polls n w2 of
         (None, w3) \<Rightarrow> None
       | (Some fs, w3) \<Rightarrow>
           (if length (collected fs) \<noteq> rx then None
            else (case take_stats w3 of (st, w4) \<Rightarrow>
              if bytes_tx st = word_of_nat tx \<and> bytes_rx st = word_of_nat rx then Some w4 else None))) }"

definition stats_test :: "nat \<Rightarrow> nat \<Rightarrow> nat \<Rightarrow> nat \<Rightarrow> echo world option" where
  "stats_test cap polls sid1 sid2 =
     (case take_stats (with_connector cap (test_config 5 5)) of (st, w) \<Rightarrow>
        if st \<noteq> stats_default then None
        else do {
          w1 \<leftarrow> stats_round polls sid1 ''hello there'' 11 26 w;
          let (st1, w2) = take_stats w1;
          if st1 \<noteq> stats_default then None
          else stats_round polls sid2 ''hello again!!!'' 14 29 w2 })"

section \<open>A session on its own\<close>

definition others_dead :: "nat \<Rightarrow> 'u world \<Rightarrow> bool" where
  "others_dead a w \<longleftrightarrow> (\<forall>b. b \<noteq> a \<longrightarrow> phase_of w b = Dead)"

definition lone_session :: "config \<Rightarrow> nat \<Rightarrow> nat \<Rightarrow> nat \<Rightarrow> nat \<Rightarrow> mail list \<Rightarrow> bool \<Rightarrow> 'u world \<Rightarrow> bool" where
  "lone_session cfg a n ttl idle q wt w \<longleftrightarrow>
     (\<exists>s t1 t2. phase_of w a = Running s \<and> upstream_write s = a \<and> upstream_read s = a \<and>
        upstream_read_abort s = Some n \<and> s_idle_timeout s = idle_timeout cfg \<and>
        total_timeout_task s = Some t1 \<and> idle_timeout_task s = Some t2 \<and> t1 \<noteq> t2 \<and>
        t1 < next_task w \<and> t2 < next_task w \<and>
        tasks w = [t1 \<mapsto> (ttl, a), t2 \<mapsto> (idle, a)] \<and> sessions w = [session_id s \<mapsto> a]) \<and>
     (\<exists>st. streams w n = Some st \<and> st_reader st = a \<and> st_session st = a \<and> st_tell st = None \<and>
        \<not> st_aborted st \<and> (wt \<longrightarrow> st_first st \<or> st_reading st)) \<and>
     mail_of w a = q \<and> w_config w = cfg \<and> a < next_actor w \<and> others_dead a w \<and> server_alive w \<and>
     0 < mailbox_cap w"

definition no_session :: "config \<Rightarrow> 'u world \<Rightarrow> bool" where
  "no_session cfg w \<longleftrightarrow>
     (\<forall>b. phase_of w b = Dead) \<and> tasks w = Map.empty \<and> sessions w = Map.empty \<and> w_config w = cfg \<and>
     server_alive w \<and> 0 < mailbox_cap w"

lemma lone_sessionE:
  assumes "lone_session cfg a n ttl idle q wt w"
  obtains (lone) s t1 t2 st where "phase_of w a = Running s" "upstream_write s = a" "upstream_read s = a"
    "upstream_read_abort s = Some n" "s_idle_timeout s = idle_timeout cfg"
    "total_timeout_task s = Some t1" "idle_timeout_task s = Some t2" "t1 \<noteq> t2"
    "t1 < next_task w" "t2 < next_task w" "tasks w = [t1 \<mapsto> (ttl, a), t2 \<mapsto> (idle, a)]"
    "sessions w = [session_id s \<mapsto> a]" "streams w n = Some st" "st_reader st = a" "st_session st = a"
    "st_tell st = None" "\<not> st_aborted st" "wt \<longrightarrow> st_first st \<or> st_reading st" "mail_of w a = q"
    "w_config w = cfg" "a < next_actor w" "others_dead a w" "server_alive w" "0 < mailbox_cap w"
  using assms unfolding lone_session_def by blast

lemma actor_turn_dead: "phase_of w a = Dead \<Longrightarrow> actor_turn conn a w = w"
  by (simp add: actor_turn_def run_actor.simps session_drop_def)

lemma fold_only:
  assumes "x \<in> set xs" and "distinct xs" and "\<And>y w. y \<in> set xs \<Longrightarrow> y \<noteq> x \<Longrightarrow> P w \<Longrightarrow> f y w = w"
    and "P w" and "P (f x w)"
  shows "fold f xs w = f x w"
  using assms
proof (induction xs arbitrary: w)
  case (Cons y ys)
  have same: "fold f zs v = v" if "\<And>z. z \<in> set zs \<Longrightarrow> z \<in> set (y # ys) \<and> z \<noteq> x" "P v" for zs v
    using that Cons.prems(3) by (induction zs) auto
  show ?case
  proof (cases "y = x")
    case True
    then show ?thesis using Cons.prems by (auto intro!: same)
  next
    case False
    then show ?thesis using Cons by auto
  qed
qed simp

lemma actor_handle_phase_other: "b \<noteq> a \<Longrightarrow> phase_of (actor_handle conn a w) b = phase_of w b"
  by (auto simp: actor_handle_def handle_SessionResetIdleTimeout_def close_actor_def Let_def
      dest: handle_SessionRead_frame(1) handle_SessionWrite_phase reset_idle_timeout_frame(1)
      split: phase.splits list.splits prod.splits message.splits)

lemma start_phase_other:
  "b \<noteq> a \<Longrightarrow> phase_of (on_start_begin a w) b = phase_of w b"
  "b \<noteq> a \<Longrightarrow> phase_of (on_start_connect conn a w) b = phase_of w b"
  by (auto simp: on_start_begin_def on_start_connect_def reset_idle_timeout_def actor_timeout_def Let_def
      split: phase.splits sum.splits)

lemma run_actor_phase_other: "b \<noteq> a \<Longrightarrow> phase_of (run_actor conn a w) b = phase_of w b"
proof (induction conn a w rule: run_actor.induct)
  case (1 conn a w)
  then show ?case
    by (cases "phase_of w a") (simp_all add: run_actor.simps [of conn a w] start_phase_other actor_handle_phase_other)
qed

lemma actor_turn_phase_other: "b \<noteq> a \<Longrightarrow> phase_of (actor_turn conn a w) b = phase_of w b"
  by (simp add: actor_turn_def session_drop_def run_actor_phase_other split: phase.splits)

lemma yield_lone:
  assumes "others_dead a w" and "a < next_actor w"
  shows "yield_now conn w = actor_turn conn a w"
  unfolding yield_now_def
  by (rule fold_only [where P = "others_dead a"])
    (use assms in \<open>auto simp: others_dead_def actor_turn_dead actor_turn_phase_other\<close>)

lemma yield_idle:
  assumes "lone_session cfg a n ttl idle [] wt w"
  shows "yield_now conn w = w"
  using assms by (auto elim!: lone_sessionE simp: yield_lone actor_turn_def run_actor_quiet session_drop_def)

lemma run_reset:
  assumes "lone_session cfg a n ttl idle [(SessionResetIdleTimeout, None)] wt w"
  shows "lone_session cfg a n ttl (clock w + idle_timeout cfg) [] wt (run_actor conn a w)"
    and "clock (run_actor conn a w) = clock w" and "sessions (run_actor conn a w) = sessions w"
    and "replies (run_actor conn a w) = replies w"
proof -
  let ?w = "run_actor conn a w"
  from assms have "lone_session cfg a n ttl (clock w + idle_timeout cfg) [] wt ?w \<and> clock ?w = clock w \<and>
      sessions ?w = sessions w \<and> replies ?w = replies w"
  proof (cases rule: lone_sessionE)
    case l: (lone s t1 t2 st)
    have w: "actor_handle conn a w =
        set_actor a (Running (s\<lparr>idle_timeout_task := Some (next_task w)\<rparr>)) []
          (w\<lparr>tasks := [t1 \<mapsto> (ttl, a), next_task w \<mapsto> (clock w + idle_timeout cfg, a)], next_task := Suc (next_task w)\<rparr>)"
      using l(1,5,7,8,11,19)
      by (simp add: actor_handle_def handle_SessionResetIdleTimeout_def reset_idle_timeout_def actor_timeout_def
          abort_task_def set_actor_outward fun_upd_twist Let_def)
    then have r: "?w = actor_handle conn a w" using l(1,19) by (simp add: run_actor_turn run_actor_quiet)
    have "lone_session cfg a n ttl (clock w + idle_timeout cfg) [] wt ?w"
      unfolding r lone_session_def w using l by (auto simp: others_dead_def)
    then show ?thesis unfolding r w by simp
  qed
  then show "lone_session cfg a n ttl (clock w + idle_timeout cfg) [] wt ?w"
    and "clock ?w = clock w" and "sessions ?w = sessions w" and "replies ?w = replies w"
    by simp_all
qed

lemma yield_reset:
  assumes "lone_session cfg a n ttl idle [(SessionResetIdleTimeout, None)] wt w"
  shows "lone_session cfg a n ttl (clock w + idle_timeout cfg) [] wt (yield_now conn w)"
    and "clock (yield_now conn w) = clock w"
proof -
  note r = run_reset [OF assms, of conn]
  from assms have "yield_now conn w = session_drop a (run_actor conn a w)"
    by (auto elim!: lone_sessionE simp: yield_lone actor_turn_def)
  also have "\<dots> = run_actor conn a w" using r(1) by (auto elim!: lone_sessionE simp: session_drop_def)
  finally show "lone_session cfg a n ttl (clock w + idle_timeout cfg) [] wt (yield_now conn w)"
    and "clock (yield_now conn w) = clock w"
    using r by simp_all
qed

lemma advance_quiet:
  assumes "lone_session cfg a n ttl idle q wt w" and "clock w + d < ttl" and "clock w + d < idle"
  shows "lone_session cfg a n ttl idle q wt (advance d w)" and "clock (advance d w) = clock w + d"
    and "sessions (advance d w) = sessions w"
proof -
  let ?w = "w\<lparr>clock := clock w + d\<rparr>"
  have "wake_due t ?w = ?w" for t
    using assms by (auto elim!: lone_sessionE simp: wake_due_def split: option.splits if_splits)
  then have "fold wake_due xs ?w = ?w" for xs by (induction xs) auto
  then have a: "advance d w = ?w" by (simp add: advance_def)
  show "clock (advance d w) = clock w + d" "sessions (advance d w) = sessions w" by (simp_all add: a)
  from assms(1) show "lone_session cfg a n ttl idle q wt (advance d w)"
    unfolding a lone_session_def by (simp add: others_dead_def)
qed

text \<open>A session that is closed but not yet dropped.\<close>

definition dying_session :: "config \<Rightarrow> nat \<Rightarrow> nat \<Rightarrow> 'u world \<Rightarrow> bool" where
  "dying_session cfg a n w \<longleftrightarrow>
     (\<exists>s t1 t2. phase_of w a = Closing s \<and> upstream_read_abort s = Some n \<and> total_timeout_task s = Some t1 \<and>
        idle_timeout_task s = Some t2 \<and> dom (tasks w) \<subseteq> {t1, t2} \<and> (\<forall>t d b. tasks w t = Some (d, b) \<longrightarrow> b = a) \<and>
        sessions w = [session_id s \<mapsto> a]) \<and>
     streams w n \<noteq> None \<and> w_config w = cfg \<and> a < next_actor w \<and> others_dead a w \<and> server_alive w \<and>
     0 < mailbox_cap w"

lemma wake_dying: "dying_session cfg a n w \<Longrightarrow> dying_session cfg a n (wake_due t w)"
  by (auto simp: dying_session_def wake_due_def timer_fire_def close_actor_def others_dead_def
      split: option.splits) blast+

lemma wake_lone:
  assumes "lone_session cfg a n ttl idle q wt w" and "wake_due t w \<noteq> w"
  shows "dying_session cfg a n (wake_due t w)"
  using assms(1)
proof (cases rule: lone_sessionE)
  case l: (lone s t1 t2 st)
  from assms(2) l(11) have "t \<in> {t1, t2}" and "wake_due t w = timer_fire t w"
    by (auto simp: wake_due_def split: option.splits if_splits)
  moreover from this(1) l(1,11) have "timer_fire t w = set_actor a (Closing s) [] (w\<lparr>tasks := (tasks w)(t := None)\<rparr>)"
    by (auto simp: timer_fire_def close_actor_def)
  ultimately show ?thesis
    using l by (auto simp: dying_session_def others_dead_def)
qed

lemma due_wakes:
  assumes "lone_session cfg a n ttl idle q wt w" and "tasks w t = Some (d, b)" and "d \<le> clock w"
  shows "wake_due t w \<noteq> w"
proof -
  have "tasks (wake_due t w) t = None"
    using assms by (auto elim!: lone_sessionE simp: wake_due_def timer_fire_def close_actor_def split: option.splits if_splits)
  with assms(2) show ?thesis by auto
qed

lemma fold_wake_dying: "dying_session cfg a n w \<Longrightarrow> dying_session cfg a n (fold wake_due ts w)"
  by (induction ts arbitrary: w) (simp_all add: wake_dying)

lemma fold_wake_fires:
  assumes "lone_session cfg a n ttl idle q wt w" and "t \<in> set ts" and "tasks w t = Some (d, b)" and "d \<le> clock w"
  shows "dying_session cfg a n (fold wake_due ts w)"
  using assms(2)
proof (induction ts)
  case (Cons x xs)
  show ?case
  proof (cases "wake_due x w = w")
    case True
    with due_wakes [OF assms(1,3,4)] Cons show ?thesis by auto
  next
    case False
    from fold_wake_dying [OF wake_lone [OF assms(1) False]] show ?thesis by simp
  qed
qed simp

lemma advance_fires:
  assumes "lone_session cfg a n ttl idle q wt w" and "ttl \<le> clock w + d \<or> idle \<le> clock w + d"
  shows "dying_session cfg a n (advance d w)"
proof -
  let ?w = "w\<lparr>clock := clock w + d\<rparr>"
  have l: "lone_session cfg a n ttl idle q wt ?w"
    using assms(1) unfolding lone_session_def by (simp add: others_dead_def)
  from assms obtain t b d' where "t < next_task w" "tasks ?w t = Some (d', b)" "d' \<le> clock ?w"
    by (auto elim!: lone_sessionE split: if_splits)
  with fold_wake_fires [OF l, of t "[0..<next_task w]"] show ?thesis by (simp add: advance_def)
qed

lemma yield_dying:
  assumes "dying_session cfg a n w"
  shows "no_session cfg (yield_now conn w)" and "\<exists>st. streams (yield_now conn w) n = Some st \<and> st_aborted st"
proof -
  from assms obtain s t1 t2 where d: "phase_of w a = Closing s" "upstream_read_abort s = Some n"
      "total_timeout_task s = Some t1" "idle_timeout_task s = Some t2" "dom (tasks w) \<subseteq> {t1, t2}"
      "sessions w = [session_id s \<mapsto> a]" "streams w n \<noteq> None" "w_config w = cfg" "a < next_actor w"
      "others_dead a w" "server_alive w" "0 < mailbox_cap w"
    by (auto simp: dying_session_def)
  have y: "yield_now conn w = session_drop a w"
    using d by (simp add: yield_lone actor_turn_def run_actor_closed is_alive_def)
  have "(tasks w)(t1 := None, t2 := None) = Map.empty" using d(5) by (auto simp: fun_eq_iff)
  then show "no_session cfg (yield_now conn w)"
    unfolding y using d by (auto simp: session_drop_def no_session_def abort_task_def abort_stream_def remove_session_def others_dead_def Let_def)
  show "\<exists>st. streams (yield_now conn w) n = Some st \<and> st_aborted st"
    unfolding y using d by (auto simp: session_drop_def abort_task_def abort_stream_def remove_session_def Let_def)
qed

lemma stream_end_no_session: "no_session cfg w \<Longrightarrow> no_session cfg (stream_end n w)"
  by (simp add: no_session_def stream_end_def split: option.splits)

text \<open>Waiting: short enough, or too long.\<close>

lemma wait_keeps:
  assumes "lone_session cfg a n ttl idle [] wt w" and "clock w + d < ttl" and "clock w + d < idle"
  shows "lone_session cfg a n ttl idle [] wt (wait conn d w)" and "clock (wait conn d w) = clock w + d"
    and "sessions (wait conn d w) = sessions w"
  using assms advance_quiet [OF assms] by (simp_all add: wait_def yield_idle)

lemma wait_ends:
  assumes "lone_session cfg a n ttl idle [] wt w" and "ttl \<le> clock w + d \<or> idle \<le> clock w + d"
  shows "no_session cfg (wait conn d w) \<and> no_more_frames conn n (wait conn d w) = Some (wait conn d w)"
  using yield_dying [OF advance_fires [OF assms], of conn] assms(1)
  by (auto simp: wait_def yield_idle no_more_frames_def stream_poll_def)

section \<open>What the requests and polls of the tests do\<close>

lemma test_request_head:
  shows "parse_method m = Ok m' \<Longrightarrow>
      parse_head plain_http_lib key (test_request m key sid ds) = Ok (m', word_of_nat sid)"
    and "into_data_stream (req_body (test_request m key sid ds)) = map Ok ds"
  by (simp_all add: parse_head_def request_session_id_def test_request_def plain_http_lib_def)

lemma start_actor_eq:
  assumes "phase_of w a = Spawned args" and "c_connect conn a (a_upstream args) = Ok v"
  shows "start_actor conn a w =
    set_actor a (Running \<lparr>session_id = a_session_id args, upstream_write = a, upstream_read = a,
        upstream_read_abort = None, s_idle_timeout = a_idle_timeout args,
        idle_timeout_task = Some (Suc (Suc (next_task w))), total_timeout_task = Some (next_task w)\<rparr>) (mail_of w a)
      (w\<lparr>upstreams := (upstreams w)(a \<mapsto> v), read_locks := (read_locks w)(a := None),
         tasks := (tasks w)(next_task w \<mapsto> (clock w + a_total_timeout args, a), Suc (next_task w) := None,
           Suc (Suc (next_task w)) \<mapsto> (clock w + a_idle_timeout args, a)),
         next_task := Suc (Suc (Suc (next_task w)))\<rparr>)"
  using assms
  by (simp add: start_actor_def on_start_begin_def on_start_connect_def reset_idle_timeout_def actor_timeout_def
      abort_task_def set_actor_outward Let_def)

lemma get_opens:
  assumes none: "no_session cfg w" and ok: "c_connect conn (next_actor w) (upstream cfg) = Ok v"
  shows "\<exists>w1. get_reader conn sid w = Some (next_stream w, w1) \<and> clock w1 = clock w \<and>
    sessions w1 (word_of_nat sid) = Some (next_actor w) \<and>
    lone_session cfg (next_actor w) (next_stream w) (clock w + total_timeout cfg) (clock w + idle_timeout cfg) [] True w1"
proof -
  let ?a = "next_actor w" and ?u = "word_of_nat sid :: uuid"
  obtain b w0 where i: "insert_session ?u w = (b, w0)" by fastforce
  note f = insert_session_facts [OF i]
  from none have w: "sessions w = Map.empty" "tasks w = Map.empty" "w_config w = cfg" "server_alive w" "0 < mailbox_cap w"
      "\<And>c. phase_of w c = Dead"
    by (auto simp: no_session_def)
  have g: "clock w0 = clock w" "next_task w0 = next_task w" "tasks w0 = tasks w" "server_alive w0 = server_alive w"
    using i by (auto simp: insert_session_def new_session_def Let_def)
  have b: "b = ?a" by (rule f(1))
  let ?w1 = "start_actor conn ?a w0" and ?t = "next_task w"
  let ?s = "\<lparr>session_id = ?u, upstream_write = ?a, upstream_read = ?a, upstream_read_abort = None,
              s_idle_timeout = idle_timeout cfg, idle_timeout_task = Some (Suc (Suc ?t)), total_timeout_task = Some ?t\<rparr>"
  have w1: "phase_of ?w1 ?a = Running ?s" "mail_of ?w1 ?a = []"
      "tasks ?w1 = [?t \<mapsto> (clock w + total_timeout cfg, ?a), Suc (Suc ?t) \<mapsto> (clock w + idle_timeout cfg, ?a)]"
      "next_task ?w1 = Suc (Suc (Suc ?t))" "clock ?w1 = clock w" "server_alive ?w1" "sessions ?w1 = [?u \<mapsto> ?a]"
      "w_config ?w1 = cfg" "next_actor ?w1 = Suc ?a" "mailbox_cap ?w1 = mailbox_cap w" "read_locks ?w1 ?a = None"
      "next_stream ?w1 = next_stream w" "streams ?w1 = streams w" "\<And>c. c \<noteq> ?a \<Longrightarrow> phase_of ?w1 c = Dead"
    using f g w start_actor_eq [OF f(3) [unfolded b], of conn v] ok unfolding b by simp_all
  let ?w2 = "actor_handle conn ?a (enqueue ?a (SessionRead, Some 0) ?w1)"
  note d = actor_handle_def handle_SessionRead_def send_reply_def Let_def
  have w2: "phase_of ?w2 ?a = Running (?s\<lparr>upstream_read_abort := Some (next_stream w)\<rparr>)" "mail_of ?w2 ?a = []"
    "replies ?w2 0 = Some (ReadReply (Some (next_stream w)))"
    using w1 by (simp_all add: d)
  have "ask conn 0 ?a SessionRead w0 = ask conn 0 ?a SessionRead ?w1"
    using ok w(3) by (intro ask_Spawned [OF f(3) [unfolded b], where v = v]) simp_all
  also have "\<dots> = (Some (ReadReply (Some (next_stream w))), take_reply 0 ?w2)"
    using ask_turn [OF w1(1,2) refl w2(1,2)] w2(3) by simp
  finally have ask: "ask conn 0 ?a SessionRead w0 = (Some (ReadReply (Some (next_stream w))), take_reply 0 ?w2)" .
  have "get_reader conn sid w = Some (next_stream w, take_reply 0 ?w2)"
    using i ask w(1) unfolding b
    by (simp add: get_reader_def test_get_def handle_request_def handle_request_inner_def test_request_head
        find_session_def handle_read_request_def read_response_def)
  moreover have "lone_session cfg ?a (next_stream w) (clock w + total_timeout cfg) (clock w + idle_timeout cfg) []
      True (take_reply 0 ?w2)"
    unfolding lone_session_def using w1 w w2(2)
    by (simp add: take_reply_def d others_dead_def)
  moreover have "clock (take_reply 0 ?w2) = clock w" "sessions (take_reply 0 ?w2) ?u = Some ?a" using w1 by (simp_all add: d)
  ultimately show ?thesis by blast
qed

lemma post_keeps:
  assumes "lone_session cfg a n ttl idle [] wt w" and "sessions w (word_of_nat sid) = Some a"
    and "c_write_all conn (the (upstreams w a)) (bytes_of msg) = (Ok (), v')"
  shows "\<exists>r w1. test_post conn 0 sid msg w = (r, w1) \<and> clock w1 = clock w \<and> sessions w1 = sessions w \<and>
    lone_session cfg a n ttl (clock w + idle_timeout cfg) [] wt w1"
  using assms(1)
proof (cases rule: lone_sessionE)
  case l: (lone s t1 t2 st)
  let ?m = "SessionWrite (bytes_of msg)"
  let ?w1 = "actor_handle conn a (enqueue a (?m, Some 0) w)"
  have w1: "phase_of ?w1 a = Running s" "mail_of ?w1 a = [(SessionResetIdleTimeout, None)]"
      "replies ?w1 0 = Some WriteReply" "next_task ?w1 = next_task w" "tasks ?w1 = tasks w" "clock ?w1 = clock w"
      "sessions ?w1 = sessions w" "streams ?w1 = streams w" "w_config ?w1 = cfg" "next_actor ?w1 = next_actor w"
      "server_alive ?w1" "mailbox_cap ?w1 = mailbox_cap w" "\<And>b. phase_of ?w1 b = phase_of w b"
    using l assms(3)
    by (simp_all add: actor_handle_def handle_SessionWrite_def try_send_def is_alive_def mailbox_full_def send_reply_def Let_def)
  have "lone_session cfg a n ttl idle [(SessionResetIdleTimeout, None)] wt ?w1"
    unfolding lone_session_def using l w1 by (simp add: others_dead_def)
  note r = run_reset [OF this, of conn]
  let ?w2 = "run_actor conn a ?w1"
  have "run_actor conn a (enqueue a (?m, Some 0) w) = ?w2" using l(1,19) by (simp add: run_actor_turn)
  then have ask: "ask conn 0 a ?m w = (Some WriteReply, take_reply 0 ?w2)"
    using l(1) r(4) w1(3) by (simp add: ask_def is_alive_def)
  define w2 where "w2 = (take_reply 0 ?w2)\<lparr>w_stats := add_tx (length (bytes_of msg)) (w_stats ?w2)\<rparr>"
  have "snd (test_post conn 0 sid msg w) = w2"
    using ask assms(2) l(1,20)
    by (simp add: test_post_def handle_request_def handle_request_inner_def test_request_head find_session_def is_alive_def
        handle_write_request_def w2_def)
  moreover have "lone_session cfg a n ttl (clock w + idle_timeout cfg) [] wt w2"
    using r(1) w1(6) unfolding lone_session_def by (simp add: others_dead_def w2_def take_reply_def)
  moreover have "clock w2 = clock w" "sessions w2 = sessions w"
    using r(2,3) w1(6,7) by (simp_all add: w2_def)
  ultimately show ?thesis by (metis prod.collapse)
qed

lemma poll_waits:
  assumes "lone_session cfg a n ttl idle q True w" and "c_read_buf conn (the (upstreams w a)) READ_CAPACITY = (Pending, v)"
  shows "\<exists>w1. no_frame_yet conn n w = Some w1 \<and> lone_session cfg a n ttl idle q True w1 \<and> clock w1 = clock w \<and>
    sessions w1 = sessions w"
  using assms
  by (auto elim!: lone_sessionE simp: no_frame_yet_def stream_poll_def lone_session_def others_dead_def)

lemma poll_yields:
  assumes "lone_session cfg a n ttl idle [] wt w" and "bs \<noteq> []"
    and "c_read_buf conn (the (upstreams w a)) READ_CAPACITY = (Ready (Ok bs), v)"
  shows "\<exists>w1. next_frame conn n w = Some w1 \<and> clock w1 = clock w \<and>
    lone_session cfg a n ttl idle [(SessionResetIdleTimeout, None)] False w1"
  using assms
  by (auto elim!: lone_sessionE simp: next_frame_def stream_poll_def stream_tell_def is_alive_def mailbox_full_def
      lone_session_def others_dead_def Let_def)

section \<open>The tests pass\<close>

lemma connectors_answer:
  "c_connect NullConnector k x = Ok ()" "c_write_all NullConnector u bs = (Ok (), ())"
  "c_read_buf NullConnector u cap = (Pending, ())" "c_connect SpamConnector k x = Ok ()"
  "c_read_buf SpamConnector u cap = (Ready (Ok (take cap (bytes_of ''hello there!''))), ())"
  by (simp_all add: NullConnector_def SpamConnector_def)

lemma keep_writing_alive:
  assumes "lone_session cfg a n ttl idle [] True w" and "sessions w (word_of_nat sid) = Some a"
    and "clock w + stalls * step < ttl" and "step < idle_timeout cfg" and "idle \<le> clock w + idle_timeout cfg"
  shows "\<exists>w1 idle1. keep_writing step sid n stalls w = Some w1 \<and> lone_session cfg a n ttl idle1 [] True w1 \<and>
    idle1 \<le> clock w1 + idle_timeout cfg"
  using assms
proof (induction stalls arbitrary: w idle)
  case 0
  then show ?case by auto
next
  case (Suc k)
  from post_keeps [OF Suc.prems(1,2), of NullConnector "''stay alive!''" "()"] obtain r w1 where
      1: "test_post NullConnector 0 sid ''stay alive!'' w = (r, w1)" "clock w1 = clock w" "sessions w1 = sessions w"
        "lone_session cfg a n ttl (clock w + idle_timeout cfg) [] True w1"
    by (auto simp: connectors_answer)
  let ?w2 = "wait NullConnector step w1"
  have 2: "lone_session cfg a n ttl (clock w + idle_timeout cfg) [] True ?w2" "clock ?w2 = clock w + step" "sessions ?w2 = sessions w1"
    using wait_keeps [OF 1(4), of step NullConnector] Suc.prems(3,4) 1(2) by simp_all
  from poll_waits [OF 2(1), of NullConnector "()"] obtain w3 where
      3: "no_frame_yet NullConnector n ?w2 = Some w3" "lone_session cfg a n ttl (clock w + idle_timeout cfg) [] True w3"
        "clock w3 = clock w + step" "sessions w3 = sessions ?w2"
    by (auto simp: connectors_answer 2(2))
  with 1(3) 2(3) 3(4) Suc.prems(2) have "sessions w3 (word_of_nat sid) = Some a" by simp
  from Suc.IH [OF 3(2) this] Suc.prems(3,4) 1(1) 3(1,3) show ?case by simp
qed

lemma write_session_ends:
  assumes none: "no_session cfg w" and t: "step < idle_timeout cfg" "idle_timeout cfg \<le> gap" "Suc stalls * step < total_timeout cfg"
  shows "\<exists>w1. write_session step gap (sid, stalls) w = Some w1 \<and> no_session cfg w1"
proof -
  let ?ttl = "clock w + total_timeout cfg" and ?idle = "clock w + idle_timeout cfg" and ?a = "next_actor w"
  from get_opens [OF none, of NullConnector "()" sid] obtain n w1 where
      1: "get_reader NullConnector sid w = Some (n, w1)" "clock w1 = clock w" "sessions w1 (word_of_nat sid) = Some ?a"
        "lone_session cfg ?a n ?ttl ?idle [] True w1"
    by (auto simp: connectors_answer)
  from poll_waits [OF 1(4), of NullConnector "()"] obtain w2 where
      2: "no_frame_yet NullConnector n w1 = Some w2" "lone_session cfg ?a n ?ttl ?idle [] True w2" "clock w2 = clock w"
        "sessions w2 = sessions w1"
    by (auto simp: connectors_answer 1(2))
  let ?w = "wait NullConnector step w2"
  have 3: "lone_session cfg ?a n ?ttl ?idle [] True ?w" "clock ?w = clock w + step" "sessions ?w = sessions w1"
    using wait_keeps [OF 2(2), of step NullConnector] t 2(3,4) by simp_all
  from poll_waits [OF 3(1), of NullConnector "()"] obtain w3 where
      4: "no_frame_yet NullConnector n ?w = Some w3" "lone_session cfg ?a n ?ttl ?idle [] True w3" "clock w3 = clock w + step"
        "sessions w3 = sessions w1"
    by (auto simp: connectors_answer 3(2,3))
  from keep_writing_alive [OF 4(2), of sid stalls step] t 4(3,4) 1(3) obtain w4 idle where
      5: "keep_writing step sid n stalls w3 = Some w4" "lone_session cfg ?a n ?ttl idle [] True w4"
        "idle \<le> clock w4 + idle_timeout cfg"
    by auto
  have "idle \<le> clock w4 + gap" using 5(3) t(2) by simp
  with wait_ends [OF 5(2), of gap NullConnector] have
      6: "no_session cfg (wait NullConnector gap w4)"
        "no_more_frames NullConnector n (wait NullConnector gap w4) = Some (wait NullConnector gap w4)"
    by simp_all
  from 1(1) 2(1) 4(1) 5(1) 6 stream_end_no_session [OF 6(1)] show ?thesis
    by (simp add: write_session_def yield_idle [OF 1(4)])
qed

lemma keep_reading_alive:
  assumes "lone_session cfg a n ttl idle [(SessionResetIdleTimeout, None)] False w"
    and "clock w + stalls * step < ttl" and "step < idle_timeout cfg"
  shows "\<exists>w1 idle1. keep_reading step n stalls w = Some w1 \<and> clock w1 = clock w + stalls * step \<and>
    lone_session cfg a n ttl idle1 [(SessionResetIdleTimeout, None)] False w1"
  using assms
proof (induction stalls arbitrary: w idle)
  case 0
  then show ?case by auto
next
  case (Suc k)
  note y = yield_reset [OF Suc.prems(1), of SpamConnector]
  let ?w1 = "wait SpamConnector step w" and ?idle = "clock w + idle_timeout cfg"
  have adv: "lone_session cfg a n ttl ?idle [] False (advance step (yield_now SpamConnector w))"
      "clock (advance step (yield_now SpamConnector w)) = clock w + step"
    using advance_quiet [OF y(1), of step] Suc.prems(2,3) y(2) by simp_all
  have 1: "lone_session cfg a n ttl ?idle [] False ?w1" "clock ?w1 = clock w + step"
    using adv by (simp_all add: wait_def yield_idle [OF adv(1)])
  have ne: "take READ_CAPACITY (bytes_of ''hello there!'') \<noteq> []" by (simp add: READ_CAPACITY_def bytes_of_def)
  from poll_yields [OF 1(1) ne, of SpamConnector "()"] obtain w2 where
      2: "next_frame SpamConnector n ?w1 = Some w2" "clock w2 = clock w + step"
        "lone_session cfg a n ttl ?idle [(SessionResetIdleTimeout, None)] False w2"
    by (auto simp: connectors_answer 1(2))
  from Suc.IH [OF 2(3)] Suc.prems(2,3) 2(1,2) show ?case by (simp add: add.assoc)
qed

lemma read_session_ends:
  assumes none: "no_session cfg w" and t: "step < idle_timeout cfg" "stalls * step < total_timeout cfg"
    and over: "idle_timeout cfg \<le> gap \<or> total_timeout cfg \<le> stalls * step + gap"
  shows "\<exists>n w1. read_until_end step gap (sid, stalls) w = Some (n, w1) \<and> no_session cfg w1"
proof -
  let ?ttl = "clock w + total_timeout cfg" and ?idle = "clock w + idle_timeout cfg" and ?a = "next_actor w"
  have ne: "take READ_CAPACITY (bytes_of ''hello there!'') \<noteq> []" by (simp add: READ_CAPACITY_def bytes_of_def)
  from get_opens [OF none, of SpamConnector "()" sid] obtain n w1 where
      1: "get_reader SpamConnector sid w = Some (n, w1)" "clock w1 = clock w"
        "lone_session cfg ?a n ?ttl ?idle [] True w1"
    by (auto simp: connectors_answer)
  from poll_yields [OF 1(3) ne, of SpamConnector "()"] obtain w2 where
      2: "next_frame SpamConnector n w1 = Some w2" "clock w2 = clock w"
        "lone_session cfg ?a n ?ttl ?idle [(SessionResetIdleTimeout, None)] False w2"
    by (auto simp: connectors_answer 1(2))
  from keep_reading_alive [OF 2(3), of stalls step] t 2(2) obtain w3 idle where
      3: "keep_reading step n stalls w2 = Some w3" "clock w3 = clock w + stalls * step"
        "lone_session cfg ?a n ?ttl idle [(SessionResetIdleTimeout, None)] False w3"
    by auto
  note y = yield_reset [OF 3(3), of SpamConnector]
  have w: "wait SpamConnector gap w3 = wait SpamConnector gap (yield_now SpamConnector w3)"
    by (simp add: wait_def yield_idle [OF y(1)])
  from wait_ends [OF y(1), of gap SpamConnector] y(2) 3(2) over have
      4: "no_session cfg (wait SpamConnector gap w3)"
        "no_more_frames SpamConnector n (wait SpamConnector gap w3) = Some (wait SpamConnector gap w3)"
    by (simp_all add: w) (auto)
  from 1(1) 2(1) 3(1) 4 show ?thesis
    by (simp add: read_until_end_def yield_idle [OF 1(3)])
qed

lemma in_turn_keeps:
  assumes "P w" and "\<And>x w. x \<in> set xs \<Longrightarrow> P w \<Longrightarrow> \<exists>w1. f x w = Some w1 \<and> P w1"
  shows "\<exists>w1. in_turn f xs w = Some w1 \<and> P w1"
  using assms by (induction xs arbitrary: w) (simp, fastforce)

lemma no_session_new: "0 < cap \<Longrightarrow> no_session cfg (with_connector cap cfg)"
  by (simp add: no_session_def with_connector_def phase_of_def)

lemma stats_round_passes:
  assumes new: "sessions w (word_of_nat sid) = None" and cap: "0 < mailbox_cap w" and st: "w_stats w = stats_default"
    and msg: "0 < length msg" "length msg \<le> 100" and tx: "tx = length msg" and rx: "rx = 15 + length msg"
  shows "\<exists>w1. stats_round (Suc (Suc k)) sid msg tx rx w = Some w1 \<and>
    dom (sessions w1) = insert (word_of_nat sid) (dom (sessions w)) \<and> mailbox_cap w1 = mailbox_cap w \<and> w_stats w1 = stats_default"
proof -
  let ?u = "word_of_nat sid :: uuid" and ?a = "next_actor w" and ?n = "next_stream w"
  let ?e = "\<lparr>e_waiting = True, e_buffer = []\<rparr>" and ?m = "bytes_of msg"
  let ?b = "bytes_of ''general kenobi!'' @ ?m"
  let ?e1 = "\<lparr>e_waiting = False, e_buffer = ?b\<rparr>"
  have len: "length ?b = 15 + length msg" "length ?m = length msg" "take 2048 ?b = ?b" "drop 2048 ?b = []" "?b \<noteq> []" "take 100 ?m = ?m"
    using msg by (simp_all add: bytes_of_def)
  have e: "c_connect EchoConnector ?a (upstream (w_config w)) = Ok ?e" by (simp add: EchoConnector_def)
  have free: "case sessions w ?u of None \<Rightarrow> True | Some a \<Rightarrow> \<not> is_alive w a" using new by simp
  from resolve_new [OF free e cap] obtain w1 where 1: "resolve EchoConnector True ?u w = Some (?a, w1)" "ready w1 ?a"
      "upstreams w1 = (upstreams w)(?a \<mapsto> ?e)" "sessions w1 = (sessions w)(?u \<mapsto> ?a)" "w_stats w1 = w_stats w"
      "w_config w1 = w_config w" "mailbox_cap w1 = mailbox_cap w" "read_locks w1 ?a = None" "next_stream w1 = ?n"
    by auto
  from ask_read_free [OF 1(2,8), of EchoConnector 0] obtain w2 where
      2: "ask EchoConnector 0 ?a SessionRead w1 = (Some (ReadReply (Some ?n)), w2)" "ready w2 ?a" "frame_except ?a w1 w2"
        "upstreams w2 = upstreams w1" "w_stats w2 = w_stats w1" "streams w2 ?n = Some (fresh_stream ?a)"
    by (auto simp: 1(9))
  have "parse_head plain_http_lib (cfg_session_key (w_config w)) (test_request GET (cfg_session_key (w_config w)) sid []) = Ok (Get, ?u)"
    by (rule test_request_head(1)) simp
  from handle_read_resolved [OF this 1(1,2), of 0] 2(1)
  have get: "get_reader EchoConnector sid w = Some (?n, w2)"
    by (simp add: get_reader_def test_get_def handle_read_request_def read_response_def)
  have s2: "sessions w2 ?u = Some ?a" "w_config w2 = w_config w" "mailbox_cap w2 = mailbox_cap w"
    using 2(3) 1(4,6,7) by (simp_all add: frame_except_def)
  have wr: "write_seq EchoConnector ?e [?m] = Some ?e1"
    using msg len by (auto simp: EchoConnector_def echo_write_def bytes_of_def)
  have post: "parse_head plain_http_lib (cfg_session_key (w_config w2)) (test_request POST (cfg_session_key (w_config w2)) sid [?m]) = Ok (Post, ?u)"
    by (rule test_request_head(1)) simp
  have res: "resolve EchoConnector (Post \<noteq> Patch) ?u w2 = Some (?a, w2)" using s2(1) 2(2) by (rule resolve_live)
  have up: "upstreams w2 ?a = Some ?e" using 2(4) 1(3) by simp
  have nz: "word_of_nat (length msg) \<noteq> (0 :: usize)" using msg by (simp add: word_of_nat_eq_0_iff) (auto dest: dvd_imp_le)
  from handle_write_ok [OF post _ res 2(2) up test_request_head(2) _ wr, of 0] nz obtain w3 where
      3: "test_post EchoConnector 0 sid msg w2 = (write_response, w3)" "ready w3 ?a" "frame_except ?a w2 w3"
        "upstreams w3 ?a = Some ?e1" "w_stats w3 = add_tx (length msg) (w_stats w2)" "streams w3 = streams w2"
    by (auto simp: test_post_def len(2))
  from readyE [OF 3(2)] obtain s where s: "phase_of w3 ?a = Running s" "mail_of w3 ?a = []" "0 < mailbox_cap w3" by metis
  have str: "streams w3 ?n = Some (fresh_stream ?a)" using 3(6) 2(6) by simp
  obtain w4 where 4: "stream_poll EchoConnector ?n w3 = (Ready (Some (DataFrame ?b)), w4)"
      "streams w4 ?n = Some ((fresh_stream ?a)\<lparr>st_first := False\<rparr>)" "upstreams w4 ?a = Some \<lparr>e_waiting = False, e_buffer = []\<rparr>"
      "w_stats w4 = add_rx (15 + length msg) (w_stats w3)" "sessions w4 = sessions w3" "mailbox_cap w4 = mailbox_cap w3"
    using str 3(4) s len
    by (auto simp: stream_poll_def stream_tell_def EchoConnector_def echo_read_def READ_CAPACITY_def is_alive_def
        mailbox_full_def Let_def)
  obtain w5 where 5: "stream_poll EchoConnector ?n w4 = (Ready None, w5)" "w_stats w5 = w_stats w4" "sessions w5 = sessions w4"
      "mailbox_cap w5 = mailbox_cap w4"
    using 4(2,3) by (auto simp: stream_poll_def stream_end_def EchoConnector_def echo_read_def Let_def)
  have col: "collect EchoConnector (Suc (Suc k)) ?n w3 = (Some [DataFrame ?b], w5)" using 4(1) 5(1) by simp
  have stats: "w_stats w5 = add_rx (15 + length msg) (add_tx (length msg) stats_default)"
    using 5(2) 4(4) 3(5) 2(5) 1(5) st by simp
  have "length (collected [DataFrame ?b]) = 15 + length msg" using len(1) by simp
  then show ?thesis
    using 3(3) 2(3) 1(4,7) 4(5,6) 5(3,4)
    by (simp add: stats_round_def get 3(1) write_response_def col tx rx take_stats_def stats_take_eq stats stats_freeze_def
        add_rx_def add_tx_def stats_default_def fetch_add_def frame_except_def Let_def
        del: of_nat_add collect.simps collected.simps)
qed

lemma stats_test_passes:
  assumes "0 < cap" and "word_of_nat sid1 \<noteq> (word_of_nat sid2 :: uuid)"
  shows "\<exists>w. stats_test cap (Suc (Suc k)) sid1 sid2 = Some w"
proof -
  let ?w = "with_connector cap (test_config 5 5) :: echo world"
  have w: "take_stats ?w = (stats_default, ?w)" "w_stats ?w = stats_default" "sessions ?w = Map.empty" "mailbox_cap ?w = cap"
    by (simp_all add: with_connector_def take_stats_def stats_take_eq stats_freeze_def stats_default_def)
  from stats_round_passes [of ?w sid1 "''hello there''" 11 26 k] assms(1) w obtain w1 where
      1: "stats_round (Suc (Suc k)) sid1 ''hello there'' 11 26 ?w = Some w1" "dom (sessions w1) = {word_of_nat sid1}"
        "mailbox_cap w1 = cap" "w_stats w1 = stats_default"
    by auto
  then have t: "take_stats w1 = (stats_default, w1)"
    by (simp add: take_stats_def stats_take_eq stats_freeze_def stats_default_def)
  have "sessions w1 (word_of_nat sid2) = None" using 1(2) assms(2) by (metis domIff singletonD)
  from stats_round_passes [OF this, of "''hello again!!!''" 14 29 k] assms(1) 1(3,4) obtain w2 where
    "stats_round (Suc (Suc k)) sid2 ''hello again!!!'' 14 29 w1 = Some w2"
    by auto
  with w(1) 1(1) t show ?thesis by (simp add: stats_test_def)
qed

lemma total_timeout_test_passes: "0 < cap \<Longrightarrow> \<exists>w. total_timeout_test cap sid = Some w \<and> sessions w = Map.empty"
  using read_session_ends [OF no_session_new, of cap 1 "test_config 5 999" 4 2 sid]
  by (auto simp: total_timeout_test_def test_config_def Config_new_def no_session_def)

text \<open>C17: activity keeps sessions alive, silence ends them. On one server, any sequence of
  sessions is opened by a \<^verbatim>\<open>GET\<close>, then written to (or read from) any number of times with
  pauses shorter than the idle timeout, within the total timeout: at every check the
  response stream is alive. After a last pause of at least the idle timeout the stream has
  ended and no session is left. The tests \<^verbatim>\<open>idle_timeout_write\<close> and \<^verbatim>\<open>idle_timeout_read\<close>
  are instances.\<close>

theorem activity_keeps_sessions_alive:
  assumes "0 < cap" and "step < idle" and "idle \<le> gap" and "\<forall>(sid, stalls) \<in> set runs. Suc stalls * step < ttl"
  shows "(\<exists>w. in_turn (write_session step gap) runs (with_connector cap (test_config ttl idle)) = Some w \<and>
       sessions w = Map.empty) \<and>
     (\<exists>w. in_turn (read_session step gap) runs (with_connector cap (test_config ttl idle)) = Some w \<and>
       sessions w = Map.empty)"
proof -
  let ?cfg = "test_config ttl idle"
  have c: "idle_timeout ?cfg = idle" "total_timeout ?cfg = ttl" by (simp_all add: test_config_def Config_new_def)
  have "\<exists>w1. write_session step gap x w = Some w1 \<and> no_session ?cfg w1" if "x \<in> set runs" "no_session ?cfg w" for x w
    using write_session_ends [OF that(2), of step gap "snd x" "fst x"] assms that(1) c by (cases x) auto
  moreover have "\<exists>w1. read_session step gap x w = Some w1 \<and> no_session ?cfg w1" if "x \<in> set runs" "no_session ?cfg w" for x w
  proof -
    from assms(4) that(1) have "snd x * step < ttl" by (cases x) auto
    with read_session_ends [OF that(2), of step "snd x" gap "fst x"] assms(2,3) c obtain n w1 where
      "read_until_end step gap x w = Some (n, w1)" "no_session ?cfg w1" by auto
    then show ?thesis by (simp add: read_session_def stream_end_no_session)
  qed
  ultimately show ?thesis
    using in_turn_keeps [of "no_session ?cfg", OF no_session_new [OF assms(1)], of runs "write_session step gap"]
      in_turn_keeps [of "no_session ?cfg", OF no_session_new [OF assms(1)], of runs "read_session step gap"]
    by (auto simp: no_session_def)
qed

theorem activity_keeps_sessions_alive_witness:
  "(\<exists>w. idle_timeout_write 1 [(1, 0), (2, 1), (3, 2), (4, 99)] = Some w \<and> sessions w = Map.empty) \<and>
   (\<exists>w. idle_timeout_read 1 [(1, 0), (2, 1), (3, 2), (4, 99)] = Some w \<and> sessions w = Map.empty)"
  using activity_keeps_sessions_alive [of 1 2 3 4 "[(1, 0), (2, 1), (3, 2), (4, 99)]" 999]
  by (simp add: idle_timeout_write_def idle_timeout_read_def)


end
