(* ===== verification/Client_Requests.thy ===== *)
theory Client_Requests
  imports Domain_Fronting
begin

text \<open>
  The requests of \<^verbatim>\<open>src/client.rs\<close> and the two pumps that send them. A connection to the
  proxy is a parameter: \<open>ce_send\<close> is the closure \<^verbatim>\<open>send_request\<close> of a pump, a function of
  the state \<open>'t\<close> of the HTTP connection; the body of a response is the list of frames that
  \<^verbatim>\<open>body.frame()\<close> yields before its end. \<open>ce_uuid n\<close> is the value of the \<open>n\<close>-th
  \<^verbatim>\<open>Uuid::new_v4()\<close> of a pump.
\<close>

section \<open>Requests\<close>

definition request_uri :: "http_lib \<Rightarrow> domain_fronting \<Rightarrow> uuid \<Rightarrow> string" where
  "request_uri lib config rnd =
     df_scheme config @ ''://'' @ proxy_host config @ ''/'' @ uuid_to_string lib rnd"

definition create_write_request ::
  "http_lib \<Rightarrow> domain_fronting \<Rightarrow> uuid \<Rightarrow> bytes \<Rightarrow> bool \<Rightarrow> uuid \<Rightarrow> (df_error, bytes http_request) result" where
  "create_write_request lib config sid body can_create_session rnd =
     map_err Http (build_request lib
       \<lparr>rp_method = (if can_create_session then POST else PATCH),
        rp_uri = request_uri lib config rnd,
        rp_headers = [(''host'', proxy_host config),
                      (''content-type'', ''application/octet-stream''),
                      (session_key config, uuid_to_string lib sid)],
        rp_body = body\<rparr>)"

definition create_read_request ::
  "http_lib \<Rightarrow> domain_fronting \<Rightarrow> uuid \<Rightarrow> uuid \<Rightarrow> (df_error, bytes http_request) result" where
  "create_read_request lib config sid rnd =
     map_err Http (build_request lib
       \<lparr>rp_method = GET,
        rp_uri = request_uri lib config rnd,
        rp_headers = [(''host'', proxy_host config),
                      (''accept'', ''*/*''),
                      (session_key config, uuid_to_string lib sid)],
        rp_body = []\<rparr>)"

section \<open>The environment of a pump\<close>

type_synonym client_response = "(hyper_error, frame) result list http_response"

record 't client_env =
  ce_lib :: http_lib
  ce_uuid :: "nat \<Rightarrow> uuid"
  ce_send :: "'t \<Rightarrow> bytes http_request \<Rightarrow> (hyper_error, client_response) result \<times> 't"

text \<open>The state of a pump: its HTTP connection and the number of UUIDs it has drawn.\<close>

record 't pump =
  p_net :: 't
  p_uuids :: nat

definition send_request ::
  "'t client_env \<Rightarrow> bytes http_request \<Rightarrow> 't pump \<Rightarrow> (df_error, client_response) result \<times> 't pump" where
  "send_request env req p =
     (let (r, net) = ce_send env (p_net p) req in (map_err Hyper r, p\<lparr>p_net := net\<rparr>))"

section \<open>Outgoing\<close>

text \<open>
  \<^verbatim>\<open>pump_outgoing\<close> on the chunks that \<^verbatim>\<open>request_rx\<close> yields until the channel is closed.
\<close>

fun pump_outgoing_loop ::
  "'t client_env \<Rightarrow> domain_fronting \<Rightarrow> uuid \<Rightarrow> bool \<Rightarrow> bytes list \<Rightarrow> 't pump
   \<Rightarrow> (df_error, unit) result \<times> 't pump" where
  "pump_outgoing_loop env config sid first_chunk [] p = (Ok (), p)"
| "pump_outgoing_loop env config sid first_chunk (chunk # chunks) p =
     (case create_write_request (ce_lib env) config sid chunk first_chunk (ce_uuid env (p_uuids p)) of
        Inl e \<Rightarrow> (Err e, p\<lparr>p_uuids := Suc (p_uuids p)\<rparr>)
      | Inr req \<Rightarrow>
          (case send_request env req (p\<lparr>p_uuids := Suc (p_uuids p)\<rparr>) of
             (Inl e, p1) \<Rightarrow> (Err e, p1)
           | (Inr rsp, p1) \<Rightarrow>
               (if rsp_status rsp \<noteq> NO_CONTENT then (Err (HttpStatusCode (rsp_status rsp)), p1)
                else pump_outgoing_loop env config sid False chunks p1)))"

definition pump_outgoing ::
  "'t client_env \<Rightarrow> domain_fronting \<Rightarrow> uuid \<Rightarrow> bytes list \<Rightarrow> 't pump \<Rightarrow> (df_error, unit) result \<times> 't pump" where
  "pump_outgoing env config sid chunks p = pump_outgoing_loop env config sid True chunks p"

section \<open>Incoming\<close>

text \<open>
  The channel \<^verbatim>\<open>response_tx\<close>: what has been sent into it, and whether its receiver still
  takes the next item (\<^verbatim>\<open>send\<close> fails once the receiver is gone).
\<close>

type_synonym chan = "(io_error, bytes) result list"
type_synonym chan_open = "nat \<Rightarrow> bool"

definition chan_send :: "chan_open \<Rightarrow> (io_error, bytes) result \<Rightarrow> chan \<Rightarrow> chan option" where
  "chan_send op x out = (if op (length out) then Some (out @ [x]) else None)"

text \<open>
  The inner loop: the frames of one response body. The result says whether the outer
  loop goes on (\<^verbatim>\<open>break\<close>) or the pump returns \<^verbatim>\<open>Ok(())\<close>.
\<close>

fun forward_body :: "chan_open \<Rightarrow> (hyper_error, frame) result list \<Rightarrow> chan \<Rightarrow> bool \<times> chan" where
  "forward_body op [] out = (True, out)"
| "forward_body op (Inl err # fs) out =
     (False, case chan_send op (Err (IoOtherHyper err)) out of None \<Rightarrow> out | Some out' \<Rightarrow> out')"
| "forward_body op (Inr frame # fs) out =
     (case into_data frame of
        None \<Rightarrow> forward_body op fs out
      | Some data \<Rightarrow>
          (if data = [] then (True, out)
           else (case chan_send op (Ok data) out of
                   None \<Rightarrow> (False, out)
                 | Some out' \<Rightarrow> forward_body op fs out')))"

text \<open>One turn of the outer loop; \<open>None\<close> is \<^verbatim>\<open>continue\<close>.\<close>

definition pump_incoming_round ::
  "'t client_env \<Rightarrow> domain_fronting \<Rightarrow> uuid \<Rightarrow> chan_open \<Rightarrow> 't pump \<Rightarrow> chan
   \<Rightarrow> (df_error, unit) result option \<times> 't pump \<times> chan" where
  "pump_incoming_round env config sid op p out =
     (case create_read_request (ce_lib env) config sid (ce_uuid env (p_uuids p)) of
        Inl e \<Rightarrow> (Some (Err e), p\<lparr>p_uuids := Suc (p_uuids p)\<rparr>, out)
      | Inr req \<Rightarrow>
          (case send_request env req (p\<lparr>p_uuids := Suc (p_uuids p)\<rparr>) of
             (Inl e, p1) \<Rightarrow> (Some (Err e), p1, out)
           | (Inr rsp, p1) \<Rightarrow>
               (if \<not> is_success (rsp_status rsp) then (Some (Err (HttpStatusCode (rsp_status rsp))), p1, out)
                else (case forward_body op (rsp_body rsp) out of
                        (True, out') \<Rightarrow> (None, p1, out')
                      | (False, out') \<Rightarrow> (Some (Ok ()), p1, out')))))"

text \<open>
  \<^verbatim>\<open>pump_incoming\<close> does not end by itself; the fuel is the number of turns looked at, and
  \<open>None\<close> means that the pump is still running after them.
\<close>

fun pump_incoming ::
  "'t client_env \<Rightarrow> domain_fronting \<Rightarrow> uuid \<Rightarrow> chan_open \<Rightarrow> nat \<Rightarrow> 't pump \<Rightarrow> chan
   \<Rightarrow> (df_error, unit) result option \<times> 't pump \<times> chan" where
  "pump_incoming env config sid op 0 p out = (None, p, out)"
| "pump_incoming env config sid op (Suc n) p out =
     (case pump_incoming_round env config sid op p out of
        (None, p1, out1) \<Rightarrow> pump_incoming env config sid op n p1 out1
      | (Some r, p1, out1) \<Rightarrow> (Some r, p1, out1))"

section \<open>What a server sees of the requests\<close>

text \<open>The session header is the last one given, and no header before it has its name.\<close>

definition plain_session_key :: "string \<Rightarrow> bool" where
  "plain_session_key key \<longleftrightarrow>
     \<not> same_header ''host'' key \<and> \<not> same_header ''content-type'' key \<and> \<not> same_header ''accept'' key"

lemma default_session_key_plain: "plain_session_key DEFAULT_SESSION_KEY"
  by (simp add: plain_session_key_def same_header_def DEFAULT_SESSION_KEY_def ascii_lower_def Let_def)

lemma write_request_seen:
  assumes "session_header_law lib (session_key config)" and "plain_session_key (session_key config)"
    and "create_write_request lib config sid body can_create rnd = Ok req"
  shows "req_method req = (if can_create then POST else PATCH)" "req_body req = body"
    "Option.bind (hdr_get lib (req_headers req) (session_key config)) (hdr_to_str lib) = Some (uuid_to_string lib sid)"
    "uuid_from_str lib (uuid_to_string lib sid) = Some sid"
proof -
  let ?p = "\<lparr>rp_method = (if can_create then POST else PATCH), rp_uri = request_uri lib config rnd,
        rp_headers = [(''host'', proxy_host config), (''content-type'', ''application/octet-stream''),
                      (session_key config, uuid_to_string lib sid)], rp_body = body\<rparr>"
  have b: "build_request lib ?p = Ok req"
    using assms(3) by (simp add: create_write_request_def)
  have h: "rp_headers ?p = [(''host'', proxy_host config), (''content-type'', ''application/octet-stream'')] @
      [(session_key config, uuid_to_string lib sid)]" by simp
  have "list_all (\<lambda>h. \<not> same_header (fst h) (session_key config))
      [(''host'', proxy_host config), (''content-type'', ''application/octet-stream'')]"
    using assms(2) by (simp add: plain_session_key_def)
  with assms(1) b h show "req_method req = (if can_create then POST else PATCH)" "req_body req = body"
    "Option.bind (hdr_get lib (req_headers req) (session_key config)) (hdr_to_str lib) = Some (uuid_to_string lib sid)"
    "uuid_from_str lib (uuid_to_string lib sid) = Some sid"
    unfolding session_header_law_def by fastforce+
qed

lemma read_request_seen:
  assumes "session_header_law lib (session_key config)" and "plain_session_key (session_key config)"
    and "create_read_request lib config sid rnd = Ok req"
  shows "req_method req = GET" "req_body req = []"
    "Option.bind (hdr_get lib (req_headers req) (session_key config)) (hdr_to_str lib) = Some (uuid_to_string lib sid)"
    "uuid_from_str lib (uuid_to_string lib sid) = Some sid"
proof -
  let ?p = "\<lparr>rp_method = GET, rp_uri = request_uri lib config rnd,
        rp_headers = [(''host'', proxy_host config), (''accept'', ''*/*''),
                      (session_key config, uuid_to_string lib sid)], rp_body = []\<rparr>"
  have b: "build_request lib ?p = Ok req"
    using assms(3) by (simp add: create_read_request_def)
  have h: "rp_headers ?p = [(''host'', proxy_host config), (''accept'', ''*/*'')] @
      [(session_key config, uuid_to_string lib sid)]" by simp
  have "list_all (\<lambda>h. \<not> same_header (fst h) (session_key config))
      [(''host'', proxy_host config), (''accept'', ''*/*'')]"
    using assms(2) by (simp add: plain_session_key_def)
  with assms(1) b h show "req_method req = GET" "req_body req = []"
    "Option.bind (hdr_get lib (req_headers req) (session_key config)) (hdr_to_str lib) = Some (uuid_to_string lib sid)"
    "uuid_from_str lib (uuid_to_string lib sid) = Some sid"
    unfolding session_header_law_def by fastforce+
qed

end
