(* ===== verification/Client_Pumps.thy ===== *)
theory Client_Pumps
  imports Client_Requests Plain_Http
begin

text \<open>
  What the two pumps of \<^verbatim>\<open>src/client.rs\<close> do with any HTTP connection. The wrapper
  \<open>logging\<close> writes down each request with its outcome, so that statements about the
  requests on the wire hold for every environment.
\<close>

section \<open>Writing the exchanges down\<close>

type_synonym exchange = "bytes http_request \<times> (hyper_error, client_response) result"

definition logging :: "'t client_env \<Rightarrow> ('t \<times> exchange list) client_env" where
  "logging env =
     \<lparr>ce_lib = ce_lib env, ce_uuid = ce_uuid env,
      ce_send = (\<lambda>(net, log) req. case ce_send env net req of (r, net') \<Rightarrow> (r, (net', log @ [(req, r)])))\<rparr>"

definition exchanges :: "('t \<times> exchange list) pump \<Rightarrow> exchange list" where
  "exchanges p = snd (p_net p)"

lemma logging_simps [simp]: "ce_lib (logging env) = ce_lib env" "ce_uuid (logging env) = ce_uuid env"
  by (simp_all add: logging_def)

lemma send_request_logged:
  assumes "send_request (logging env) req p = (r, p')"
  shows "\<exists>x. r = map_err Hyper x \<and> exchanges p' = exchanges p @ [(req, x)] \<and> p_uuids p' = p_uuids p"
  using assms by (auto simp: send_request_def logging_def exchanges_def split: prod.splits)

section \<open>Outgoing\<close>

definition acknowledged :: "exchange \<Rightarrow> bool" where
  "acknowledged x = (case snd x of Inl _ \<Rightarrow> False | Inr rsp \<Rightarrow> rsp_status rsp = NO_CONTENT)"

text \<open>\<open>sent_as\<close>: the requests \<open>reqs\<close> carry the first chunks of \<open>chunks\<close>, one each, in order.\<close>

fun sent_as :: "http_lib \<Rightarrow> (nat \<Rightarrow> uuid) \<Rightarrow> domain_fronting \<Rightarrow> uuid \<Rightarrow> bool \<Rightarrow> nat \<Rightarrow> bytes list
    \<Rightarrow> bytes http_request list \<Rightarrow> bool" where
  "sent_as lib us config sid b k chunks [] = True"
| "sent_as lib us config sid b k [] (r # rs) = False"
| "sent_as lib us config sid b k (c # cs) (r # rs) =
     (create_write_request lib config sid c b (us k) = Ok r \<and> sent_as lib us config sid False (Suc k) cs rs)"

lemma pump_outgoing_loop_log:
  assumes "pump_outgoing_loop (logging env) config sid b chunks p = (r, p')"
  shows "\<exists>xs. exchanges p' = exchanges p @ xs \<and>
     sent_as (ce_lib env) (ce_uuid env) config sid b (p_uuids p) chunks (map fst xs) \<and>
     list_all acknowledged (butlast xs) \<and>
     (r = Ok () \<longleftrightarrow> length xs = length chunks \<and> list_all acknowledged xs)"
  using assms
proof (induction chunks arbitrary: b p)
  case Nil
  then show ?case by (intro exI [of _ "[]"]) simp
next
  case (Cons c cs)
  let ?p = "p\<lparr>p_uuids := Suc (p_uuids p)\<rparr>"
  have e: "exchanges ?p = exchanges p" by (simp add: exchanges_def)
  show ?case
  proof (cases "create_write_request (ce_lib env) config sid c b (ce_uuid env (p_uuids p))")
    case (Inl err)
    with Cons.prems e show ?thesis by (intro exI [of _ "[]"]) auto
  next
    case (Inr req)
    obtain q p1 where s: "send_request (logging env) req ?p = (q, p1)" by fastforce
    from send_request_logged [OF s] e obtain x where x: "q = map_err Hyper x"
        "exchanges p1 = exchanges p @ [(req, x)]" "p_uuids p1 = Suc (p_uuids p)" by auto
    show ?thesis
    proof (cases "acknowledged (req, x)")
      case False
      then have "exchanges p' = exchanges p @ [(req, x)]" "r \<noteq> Ok ()"
        using Cons.prems Inr s x by (auto simp: acknowledged_def split: sum.splits if_splits)
      with Inr False show ?thesis by (intro exI [of _ "[(req, x)]"]) simp
    next
      case True
      then have "pump_outgoing_loop (logging env) config sid False cs p1 = (r, p')"
        using Cons.prems Inr s x by (auto simp: acknowledged_def split: sum.splits if_splits)
      from Cons.IH [OF this] obtain xs where xs: "exchanges p' = exchanges p1 @ xs"
          "sent_as (ce_lib env) (ce_uuid env) config sid False (p_uuids p1) cs (map fst xs)"
          "list_all acknowledged (butlast xs)"
          "r = Ok () \<longleftrightarrow> length xs = length cs \<and> list_all acknowledged xs" by blast
      with x True Inr show ?thesis by (intro exI [of _ "(req, x) # xs"]) simp
    qed
  qed
qed

lemma sent_as_nth:
  assumes "sent_as lib us config sid b k chunks rs" and "i < length rs"
  shows "i < length chunks \<and>
    create_write_request lib config sid (chunks ! i) (b \<and> i = 0) (us (k + i)) = Ok (rs ! i)"
  using assms
proof (induction lib us config sid b k chunks rs arbitrary: i rule: sent_as.induct)
  case (3 lib us config sid b k c cs r rs)
  then show ?case by (cases i) auto
qed auto

text \<open>C24: the upload protocol of \<^verbatim>\<open>pump_outgoing\<close>, on any HTTP connection: the chunks are sent
  one per request, in order, each at most once; the first request is a \<^verbatim>\<open>POST\<close>, which may
  open the session, all others are \<^verbatim>\<open>PATCH\<close>, which may not; a request is only sent after
  all before it were answered by \<^verbatim>\<open>204\<close>; and the pump returns \<^verbatim>\<open>Ok\<close> if and only if all chunks
  were sent and acknowledged.\<close>

theorem pump_outgoing_protocol:
  assumes "pump_outgoing (logging env) config sid chunks p = (r, p')" and "exchanges p = []"
  shows "(\<forall>i < length (exchanges p').
       i < length chunks \<and>
       create_write_request (ce_lib env) config sid (chunks ! i) (i = 0) (ce_uuid env (p_uuids p + i))
         = Ok (fst (exchanges p' ! i)) \<and>
       (i + 1 < length (exchanges p') \<longrightarrow> acknowledged (exchanges p' ! i))) \<and>
     (r = Ok () \<longleftrightarrow> length (exchanges p') = length chunks \<and> list_all acknowledged (exchanges p'))"
proof -
  from pump_outgoing_loop_log [OF assms(1) [unfolded pump_outgoing_def]] assms(2)
  have l: "sent_as (ce_lib env) (ce_uuid env) config sid True (p_uuids p) chunks (map fst (exchanges p'))"
      "list_all acknowledged (butlast (exchanges p'))"
      "r = Ok () \<longleftrightarrow> length (exchanges p') = length chunks \<and> list_all acknowledged (exchanges p')"
    by auto
  from sent_as_nth [OF l(1)] l(2,3) show ?thesis
    by (auto simp: list_all_length nth_butlast)
qed

text \<open>A proxy that acknowledges every write and answers every read by two frames.\<close>

definition demo_proxy :: "unit client_env" where
  "demo_proxy =
     \<lparr>ce_lib = plain_http_lib, ce_uuid = word_of_nat,
      ce_send = (\<lambda>net req.
        (Ok (if req_method req = GET
             then \<lparr>rsp_status = STATUS_OK, rsp_headers = [],
                   rsp_body = [Ok (DataFrame (bytes_of ''ab'')), Ok (DataFrame (bytes_of ''c''))]\<rparr>
             else \<lparr>rsp_status = NO_CONTENT, rsp_headers = [], rsp_body = []\<rparr>), net))\<rparr>"

definition demo_config :: domain_fronting where
  "demo_config = DomainFronting_new
     \<lparr>uri_scheme = Some HTTPS, uri_host = Some ''cdn'', uri_port_u16 = None\<rparr> ''api''"

definition demo_pump :: "(unit \<times> exchange list) pump" where
  "demo_pump = \<lparr>p_net = ((), []), p_uuids = 0\<rparr>"

theorem pump_outgoing_protocol_witness:
  "\<exists>p'. pump_outgoing (logging demo_proxy) demo_config 2 [bytes_of ''x'', bytes_of ''y''] demo_pump = (Ok (), p') \<and>
     length (exchanges p') = 2 \<and>
     create_write_request plain_http_lib demo_config 2 (bytes_of ''y'') False (word_of_nat 1)
       = Ok (fst (exchanges p' ! 1))"
proof -
  let ?cs = "[bytes_of ''x'', bytes_of ''y'']"
  let ?h = "pump_outgoing (logging demo_proxy) demo_config 2 ?cs demo_pump"
  have "fst ?h = Ok ()" by code_simp
  then have h: "?h = (Ok (), snd ?h)" by (metis prod.collapse)
  have e: "exchanges demo_pump = []" "ce_lib demo_proxy = plain_http_lib" "ce_uuid demo_proxy = word_of_nat"
    "p_uuids demo_pump = 0"
    by (simp_all add: demo_pump_def exchanges_def demo_proxy_def)
  note p = pump_outgoing_protocol [OF h e(1), unfolded e]
  then have l: "length (exchanges (snd ?h)) = 2" by simp
  from p have "1 < length (exchanges (snd ?h)) \<longrightarrow>
      create_write_request plain_http_lib demo_config 2 (?cs ! 1) (1 = (0 :: nat)) (word_of_nat (0 + 1))
        = Ok (fst (exchanges (snd ?h) ! 1))" by blast
  with l have "create_write_request plain_http_lib demo_config 2 (bytes_of ''y'') False (word_of_nat 1)
      = Ok (fst (exchanges (snd ?h) ! 1))" by simp
  with l h show ?thesis by blast
qed

section \<open>Incoming\<close>

text \<open>Bodies in which no frame is an error or empty.\<close>

definition clean_body :: "(hyper_error, frame) result list \<Rightarrow> bool" where
  "clean_body fs = list_all (\<lambda>x. is_ok x \<and> projr x \<noteq> []) (into_data_stream fs)"

text \<open>
  What a body is to its reader: the data of its frames, up to the first empty one, which ends
  the body, or the first error, which is handed on and ends the pump. Other frames are skipped.
\<close>

fun items_of :: "(hyper_error, bytes) result list \<Rightarrow> chan" where
  "items_of [] = []"
| "items_of (Inl e # ds) = [Err (IoOtherHyper e)]"
| "items_of (Inr d # ds) = (if d = [] then [] else Ok d # items_of ds)"

fun breaks_off :: "(hyper_error, bytes) result list \<Rightarrow> bool" where
  "breaks_off [] = False"
| "breaks_off (Inl e # ds) = True"
| "breaks_off (Inr d # ds) = (d \<noteq> [] \<and> breaks_off ds)"

text \<open>A reader takes items until it is gone: \<open>op k\<close> tells if it takes the \<open>k\<close>-th one.\<close>

fun taken_by :: "chan_open \<Rightarrow> nat \<Rightarrow> chan \<Rightarrow> chan" where
  "taken_by op k [] = []"
| "taken_by op k (x # xs) = (if op k then x # taken_by op (Suc k) xs else [])"

lemma taken_by_append:
  "taken_by op k xs = xs \<Longrightarrow> taken_by op k (xs @ ys) = xs @ taken_by op (k + length xs) ys"
  by (induction xs arbitrary: k) (auto split: if_splits)

lemma taken_by_all: "(\<And>k. op k) \<Longrightarrow> taken_by op k xs = xs"
  by (induction xs arbitrary: k) simp_all

lemma forward_body_spec:
  "forward_body op fs out =
     (\<not> breaks_off (into_data_stream fs) \<and>
        taken_by op (length out) (items_of (into_data_stream fs)) = items_of (into_data_stream fs),
      out @ taken_by op (length out) (items_of (into_data_stream fs)))"
proof (induction op fs out rule: forward_body.induct)
  case (3 op frame fs out)
  then show ?case by (cases frame) (auto simp: chan_send_def)
qed (auto simp: chan_send_def)

text \<open>The same for a logged exchange; \<open>answered\<close> is a response with a success status.\<close>

definition answered :: "exchange \<Rightarrow> bool" where
  "answered x = (case snd x of Inl _ \<Rightarrow> False | Inr rsp \<Rightarrow> is_success (rsp_status rsp))"

definition exchange_body :: "exchange \<Rightarrow> (hyper_error, bytes) result list" where
  "exchange_body x = (if answered x then into_data_stream (rsp_body (projr (snd x))) else [])"

definition exchange_error :: "exchange \<Rightarrow> df_error" where
  "exchange_error x = (case snd x of Inl e \<Rightarrow> Hyper e | Inr rsp \<Rightarrow> HttpStatusCode (rsp_status rsp))"

definition items :: "exchange list \<Rightarrow> chan" where
  "items xs = concat (map (\<lambda>x. items_of (exchange_body x)) xs)"

definition turn_over :: "exchange \<Rightarrow> bool" where
  "turn_over x \<longleftrightarrow> answered x \<and> \<not> breaks_off (exchange_body x)"

definition read_by :: "http_lib \<Rightarrow> domain_fronting \<Rightarrow> uuid \<Rightarrow> exchange \<Rightarrow> bool" where
  "read_by lib config sid x \<longleftrightarrow> (\<exists>u. create_read_request lib config sid u = Ok (fst x))"

lemma items_simps [simp]: "items [] = []" "items (x # xs) = items_of (exchange_body x) @ items xs"
  by (simp_all add: items_def)

lemma pump_incoming_round_log:
  assumes "pump_incoming_round (logging env) config sid op p out = (r, p', out')"
  obtains
    (unsent) e where "r = Some (Err e)" "exchanges p' = exchanges p" "out' = out"
  | (refused) x where "r = Some (Err (exchange_error x))" "exchanges p' = exchanges p @ [x]" "out' = out"
      "read_by (ce_lib env) config sid x" "\<not> answered x" "items_of (exchange_body x) = []"
  | (body) x where "exchanges p' = exchanges p @ [x]" "read_by (ce_lib env) config sid x" "answered x"
      "out' = out @ taken_by op (length out) (items_of (exchange_body x))"
      "r = (if \<not> breaks_off (exchange_body x) \<and>
               taken_by op (length out) (items_of (exchange_body x)) = items_of (exchange_body x)
            then None else Some (Ok ()))"
proof (cases "create_read_request (ce_lib env) config sid (ce_uuid env (p_uuids p))")
  case (Inl e)
  with assms show ?thesis by (intro unsent) (auto simp: pump_incoming_round_def exchanges_def)
next
  case (Inr req)
  let ?p = "p\<lparr>p_uuids := Suc (p_uuids p)\<rparr>"
  obtain q p1 where s: "send_request (logging env) req ?p = (q, p1)" by fastforce
  from send_request_logged [OF s] obtain y where y: "q = map_err Hyper y"
      "exchanges p1 = exchanges p @ [(req, y)]" by (auto simp: exchanges_def)
  have rd: "read_by (ce_lib env) config sid (req, y)" using Inr by (auto simp: read_by_def)
  have p': "p' = p1"
    using assms Inr s by (auto simp: pump_incoming_round_def split: sum.splits if_splits bool.splits prod.splits)
  show ?thesis
  proof (cases "answered (req, y)")
    case True
    then obtain rsp where "y = Ok rsp" "is_success (rsp_status rsp)" by (auto simp: answered_def split: sum.splits)
    with assms Inr s y True rd p' show ?thesis
      by (intro body [of "(req, y)"])
         (auto simp: pump_incoming_round_def forward_body_spec exchange_body_def split: bool.splits if_splits)
  next
    case False
    with assms Inr s y rd p' show ?thesis
      by (intro refused [of "(req, y)"])
         (auto simp: pump_incoming_round_def exchange_error_def exchange_body_def answered_def split: sum.splits)
  qed
qed

text \<open>The outcome of \<open>n\<close> turns with the exchanges \<open>xs\<close>, when \<open>k\<close> items have been sent before.\<close>

definition outcome :: "chan_open \<Rightarrow> nat \<Rightarrow> nat \<Rightarrow> exchange list \<Rightarrow> (df_error, unit) result option \<Rightarrow> bool" where
  "outcome op k n xs r \<longleftrightarrow>
     list_all turn_over (butlast xs) \<and> length xs \<le> n \<and>
     (r = None \<longleftrightarrow> length xs = n \<and> list_all turn_over xs \<and> taken_by op k (items xs) = items xs) \<and>
     (r = Some (Ok ()) \<longleftrightarrow>
        xs \<noteq> [] \<and> answered (last xs) \<and> (breaks_off (exchange_body (last xs)) \<or> taken_by op k (items xs) \<noteq> items xs)) \<and>
     (xs \<noteq> [] \<and> \<not> answered (last xs) \<longrightarrow> r = Some (Err (exchange_error (last xs))))"

lemma pump_incoming_log:
  assumes "pump_incoming (logging env) config sid op n p out = (r, p', out')"
  shows "\<exists>xs. exchanges p' = exchanges p @ xs \<and> list_all (read_by (ce_lib env) config sid) xs \<and>
     out' = out @ taken_by op (length out) (items xs) \<and> outcome op (length out) n xs r"
  using assms
proof (induction n arbitrary: p out)
  case 0
  then show ?case by (intro exI [of _ "[]"]) (simp add: outcome_def)
next
  case (Suc n)
  obtain r1 p1 out1 where rd: "pump_incoming_round (logging env) config sid op p out = (r1, p1, out1)"
    by (metis surj_pair)
  from rd show ?case
  proof (cases rule: pump_incoming_round_log)
    case (unsent e)
    with Suc.prems rd show ?thesis by (intro exI [of _ "[]"]) (auto simp: outcome_def)
  next
    case (refused x)
    with Suc.prems rd show ?thesis by (intro exI [of _ "[x]"]) (auto simp: outcome_def turn_over_def)
  next
    case (body x)
    let ?k = "length out" and ?i = "items_of (exchange_body x)"
    show ?thesis
    proof (cases "\<not> breaks_off (exchange_body x) \<and> taken_by op ?k ?i = ?i")
      case False
      with Suc.prems rd body show ?thesis
        by (intro exI [of _ "[x]"]) (auto simp: outcome_def turn_over_def)
    next
      case True
      with Suc.prems rd body have "pump_incoming (logging env) config sid op n p1 out1 = (r, p', out')" by simp
      from Suc.IH [OF this] obtain xs where xs: "exchanges p' = exchanges p1 @ xs"
          "list_all (read_by (ce_lib env) config sid) xs"
          "out' = out1 @ taken_by op (length out1) (items xs)" "outcome op (length out1) n xs r" by blast
      have o1: "out1 = out @ ?i" using body(4) True by simp
      have t: "taken_by op ?k (items (x # xs)) = ?i @ taken_by op (length out1) (items xs)"
        using taken_by_append [of op ?k ?i "items xs"] True by (simp add: o1)
      have "outcome op ?k (Suc n) (x # xs) r"
        using xs(4) True body(3) unfolding outcome_def t by (cases xs) (auto simp: turn_over_def)
      with xs body t o1 show ?thesis by (intro exI [of _ "x # xs"]) simp
    qed
  qed
qed

text \<open>C25: the download protocol of \<^verbatim>\<open>pump_incoming\<close>, on any HTTP connection, for any responses and
  any reader, after any number \<open>n\<close> of turns. Every request is a read request of the session,
  and one is only sent after all before it were answered with success by bodies that ended
  without an error. The channel receives the items of the bodies, in order, as far as
  the reader takes them: the data of the frames, up to an empty frame, and a body error. The
  pump still runs iff all \<open>n\<close> exchanges were of this kind and the reader took everything; it
  returns \<^verbatim>\<open>Ok\<close> iff the last body broke off by an error or the reader was gone; and a request
  that failed or was answered by another status is what it returns as its error.\<close>

theorem pump_incoming_protocol:
  assumes "pump_incoming (logging env) config sid op n p out = (r, p', out')" and "exchanges p = []"
  shows "let xs = exchanges p'; taken = taken_by op (length out) (items xs)
    in list_all (read_by (ce_lib env) config sid) xs \<and> list_all turn_over (butlast xs) \<and> length xs \<le> n \<and>
       out' = out @ taken \<and>
       (r = None \<longleftrightarrow> length xs = n \<and> list_all turn_over xs \<and> taken = items xs) \<and>
       (r = Some (Ok ()) \<longleftrightarrow>
          xs \<noteq> [] \<and> answered (last xs) \<and> (breaks_off (exchange_body (last xs)) \<or> taken \<noteq> items xs)) \<and>
       (xs \<noteq> [] \<and> \<not> answered (last xs) \<longrightarrow> r = Some (Err (exchange_error (last xs))))"
  using pump_incoming_log [OF assms(1)] assms(2) by (auto simp: outcome_def Let_def)

text \<open>A proxy whose connection breaks in the middle of a body.\<close>

definition broken_proxy :: "unit client_env" where
  "broken_proxy = demo_proxy\<lparr>ce_send := (\<lambda>net req.
     (Ok \<lparr>rsp_status = STATUS_OK, rsp_headers = [],
          rsp_body = [Ok (DataFrame (bytes_of ''ab'')), Err (HyperError ''reset''), Ok (DataFrame (bytes_of ''c''))]\<rparr>, net))\<rparr>"

theorem pump_incoming_protocol_witness:
  "\<exists>r p' out'. pump_incoming (logging broken_proxy) demo_config 2 (\<lambda>_. True) 2 demo_pump [] = (r, p', out') \<and>
     r = Some (Ok ()) \<and> length (exchanges p') = 1 \<and>
     out' = [Ok (bytes_of ''ab''), Err (IoOtherHyper (HyperError ''reset''))]"
proof -
  let ?h = "pump_incoming (logging broken_proxy) demo_config 2 (\<lambda>_. True) 2 demo_pump []"
  obtain r p' out' where h: "?h = (r, p', out')" by (metis surj_pair)
  have e: "exchanges demo_pump = []" by (simp add: demo_pump_def exchanges_def)
  have "length (exchanges (fst (snd ?h))) = 1" "answered (last (exchanges (fst (snd ?h))))"
    "breaks_off (exchange_body (last (exchanges (fst (snd ?h)))))"
    "items (exchanges (fst (snd ?h))) = [Ok (bytes_of ''ab''), Err (IoOtherHyper (HyperError ''reset''))]"
    by code_simp+
  then have l: "length (exchanges p') = 1" "exchanges p' \<noteq> []" "answered (last (exchanges p'))"
    "breaks_off (exchange_body (last (exchanges p')))"
    "items (exchanges p') = [Ok (bytes_of ''ab''), Err (IoOtherHyper (HyperError ''reset''))]"
    by (auto simp: h)
  from pump_incoming_protocol [OF h e] l taken_by_all [of "\<lambda>_. True"]
  have "r = Some (Ok ())" "out' = [Ok (bytes_of ''ab''), Err (IoOtherHyper (HyperError ''reset''))]"
    by (simp_all add: Let_def)
  with h l(1) show ?thesis by blast
qed

end
