(* ===== verification/Tunnel.thy ===== *)
theory Tunnel
  imports Client_Pumps Server_Correct
begin

text \<open>
  Client and server together. The interface between \<^verbatim>\<open>pump_outgoing\<close> and whatever answers
  its requests is the locale \<open>write_service\<close>; the server of \<open>Server_Requests\<close> implements
  it, with the bodies of requests cut into frames in any way by the HTTP connection
  between the two.
\<close>

section \<open>The interface\<close>

text \<open>
  \<open>accepting f t cs\<close> says that the service in state \<open>t\<close> is going to take the chunks
  \<open>cs\<close>, the first of them in a request that may open a session if \<open>f\<close>.
\<close>

locale write_service =
  fixes lib :: http_lib
    and config :: domain_fronting
    and sid :: uuid
    and send :: "'t \<Rightarrow> bytes http_request \<Rightarrow> (hyper_error, client_response) result \<times> 't"
    and delivered :: "'t \<Rightarrow> bytes"
    and accepting :: "bool \<Rightarrow> 't \<Rightarrow> bytes list \<Rightarrow> bool"
  assumes takes_next:
    "accepting f t (c # cs) \<Longrightarrow> create_write_request lib config sid c f u = Ok req \<Longrightarrow>
     \<exists>rsp t'. send t req = (Ok rsp, t') \<and> rsp_status rsp = NO_CONTENT \<and>
       delivered t' = delivered t @ c \<and> accepting False t' cs"
begin

lemma pump_delivers:
  assumes "ce_lib env = lib" and "ce_send env = send" and "accepting f (p_net p) chunks"
    and "\<And>c f u. c \<in> set chunks \<Longrightarrow> is_ok (create_write_request lib config sid c f u)"
  shows "\<exists>p'. pump_outgoing_loop env config sid f chunks p = (Ok (), p') \<and>
     delivered (p_net p') = delivered (p_net p) @ concat chunks \<and> accepting (f \<and> chunks = []) (p_net p') []"
  using assms
proof (induction chunks arbitrary: f p)
  case Nil
  then show ?case by simp
next
  case (Cons c cs)
  let ?u = "ce_uuid env (p_uuids p)"
  obtain req where req: "create_write_request lib config sid c f ?u = Ok req"
    using Cons.prems(4) [of c f ?u] by (cases "create_write_request lib config sid c f ?u") auto
  from takes_next [OF Cons.prems(3) req] obtain rsp t' where s: "send (p_net p) req = (Ok rsp, t')"
      "rsp_status rsp = NO_CONTENT" "delivered t' = delivered (p_net p) @ c" "accepting False t' cs"
    by blast
  let ?p = "p\<lparr>p_uuids := Suc (p_uuids p), p_net := t'\<rparr>"
  have "\<exists>p'. pump_outgoing_loop env config sid False cs ?p = (Ok (), p') \<and>
      delivered (p_net p') = delivered (p_net ?p) @ concat cs \<and> accepting False (p_net p') []"
    using Cons.IH [OF Cons.prems(1,2), of False ?p] Cons.prems(4) s(4) by simp
  with Cons.prems(1,2) req s show ?case by (simp add: send_request_def)
qed

end

section \<open>The server behind an HTTP connection\<close>

text \<open>
  The server gets a request with its body in frames; a write response has no body.
\<close>

definition to_server :: "(bytes \<Rightarrow> bytes list) \<Rightarrow> bytes http_request \<Rightarrow> server_body http_request" where
  "to_server rechunk req =
     \<lparr>req_method = req_method req, req_uri = req_uri req, req_headers = req_headers req,
      req_body = map (\<lambda>d. Ok (DataFrame d)) (rechunk (req_body req))\<rparr>"

definition server_send ::
  "http_lib \<Rightarrow> 'u connector \<Rightarrow> (bytes \<Rightarrow> bytes list) \<Rightarrow> nat \<Rightarrow> 'u world \<Rightarrow> bytes http_request
   \<Rightarrow> (hyper_error, client_response) result \<times> 'u world" where
  "server_send lib conn rechunk rid w req =
     (let (r, w') = handle_request lib conn rid (to_server rechunk req) w
      in (Ok \<lparr>rsp_status = rsp_status r, rsp_headers = rsp_headers r, rsp_body = []\<rparr>, w'))"

definition upstream_sent :: "uuid \<Rightarrow> 'u recorded world \<Rightarrow> bytes" where
  "upstream_sent sid w =
     (case Option.bind (sessions w sid) (upstreams w) of None \<Rightarrow> [] | Some v \<Rightarrow> rec_sent v)"

definition server_accepting ::
  "http_lib \<Rightarrow> string \<Rightarrow> 'u connector \<Rightarrow> (bytes \<Rightarrow> bytes list) \<Rightarrow> uuid \<Rightarrow> bool \<Rightarrow> 'u recorded world
   \<Rightarrow> bytes list \<Rightarrow> bool" where
  "server_accepting lib key c rechunk sid f w cs \<longleftrightarrow>
     session_header_law lib key \<and> plain_session_key key \<and> cfg_session_key (w_config w) = key \<and>
     0 < mailbox_cap w \<and>
     (\<forall>x \<in> set cs. concat (rechunk x) = x \<and> word_of_nat (length x) \<noteq> (0 :: usize)) \<and>
     (\<exists>v v'. (case sessions w sid of
                Some a \<Rightarrow> ready w a \<and> upstreams w a = Some v
              | None \<Rightarrow> f \<and> c_connect (recorded c) (next_actor w) (upstream (w_config w)) = Ok v) \<and>
        write_seq (recorded c) v (concat (map rechunk cs)) = Some v')"

lemma write_seq_append:
  "write_seq conn v (xs @ ys) = Option.bind (write_seq conn v xs) (\<lambda>v'. write_seq conn v' ys)"
  by (induction xs arbitrary: v) (auto split: prod.splits sum.splits)

lemma write_request_head:
  assumes "session_header_law lib key" and "plain_session_key key" and "session_key config = key"
    and "create_write_request lib config sid c f u = Ok req"
  shows "parse_head lib key (to_server rechunk req) = Ok (if f then Post else Patch, sid)"
    and "into_data_stream (req_body (to_server rechunk req)) = map Ok (rechunk c)"
  using write_request_seen [of lib config sid c f u req] assms
  by (auto simp: parse_head_def request_session_id_def to_server_def)

text \<open>The session a write request of the client talks to: its own, or a new one for its first.\<close>

lemma resolve_tunnel:
  assumes "0 < mailbox_cap w"
    and v: "case sessions w sid of
        Some a \<Rightarrow> ready w a \<and> upstreams w a = Some v
      | None \<Rightarrow> f \<and> c_connect (recorded c) (next_actor w) (upstream (w_config w)) = Ok v"
  shows "\<exists>a w1. resolve (recorded c) f sid w = Some (a, w1) \<and> ready w1 a \<and>
      upstreams w1 a = Some v \<and> sessions w1 sid = Some a \<and> w_config w1 = w_config w \<and>
      mailbox_cap w1 = mailbox_cap w \<and> rec_sent v = upstream_sent sid w"
proof (cases "sessions w sid")
  case (Some a)
  with v resolve_live [of w sid a "recorded c" f] show ?thesis by (simp add: upstream_sent_def)
next
  case None
  with v have f and ok: "c_connect (recorded c) (next_actor w) (upstream (w_config w)) = Ok v" by auto
  have "case sessions w sid of None \<Rightarrow> True | Some a \<Rightarrow> \<not> is_alive w a" using None by simp
  from resolve_new [OF this ok assms(1)] \<open>f\<close> None traffic.connect_fresh [OF ok] show ?thesis
    by (auto simp: upstream_sent_def)
qed

lemma server_takes_next:
  assumes key: "session_key config = key"
    and acc: "server_accepting lib key c rechunk sid f w (x # xs)"
    and req: "create_write_request lib config sid x f u = Ok req"
  shows "\<exists>rsp w'. server_send lib (recorded c) rechunk rid w req = (Ok rsp, w') \<and>
     rsp_status rsp = NO_CONTENT \<and> upstream_sent sid w' = upstream_sent sid w @ x \<and>
     server_accepting lib key c rechunk sid False w' xs"
proof -
  let ?m = "if f then Post else Patch"
  from acc have law: "session_header_law lib key" "plain_session_key key"
      and w: "cfg_session_key (w_config w) = key" "0 < mailbox_cap w"
      and x: "concat (rechunk x) = x" "word_of_nat (length x) \<noteq> (0 :: usize)"
      and xs: "\<forall>y \<in> set xs. concat (rechunk y) = y \<and> word_of_nat (length y) \<noteq> (0 :: usize)"
    by (auto simp: server_accepting_def)
  from acc obtain v v' where v: "case sessions w sid of
        Some a \<Rightarrow> ready w a \<and> upstreams w a = Some v
      | None \<Rightarrow> f \<and> c_connect (recorded c) (next_actor w) (upstream (w_config w)) = Ok v"
      and ws: "write_seq (recorded c) v (rechunk x @ concat (map rechunk xs)) = Some v'"
    by (auto simp: server_accepting_def)
  then obtain v1 where v1: "write_seq (recorded c) v (rechunk x) = Some v1"
      "write_seq (recorded c) v1 (concat (map rechunk xs)) = Some v'"
    by (auto simp: write_seq_append bind_eq_Some_conv)
  note head = write_request_head [OF law key req, of rechunk]
  have ne: "rechunk x \<noteq> []" using x by auto
  from resolve_tunnel [OF w(2) v] obtain a w1 where r: "resolve (recorded c) f sid w = Some (a, w1)" "ready w1 a"
      "upstreams w1 a = Some v" "sessions w1 sid = Some a" "w_config w1 = w_config w"
      "mailbox_cap w1 = mailbox_cap w" "rec_sent v = upstream_sent sid w" by blast
  have r1: "resolve (recorded c) (?m \<noteq> Patch) sid w = Some (a, w1)" using r(1) by (cases f) simp_all
  have m: "?m \<noteq> Get" by simp
  from handle_write_ok [OF head(1) [folded w(1)] m r1 r(2,3) head(2) ne v1(1), of rid] x
  obtain w' where w': "handle_request lib (recorded c) rid (to_server rechunk req) w = (write_response, w')"
      "ready w' a" "frame_except a w1 w'" "upstreams w' = (upstreams w1)(a \<mapsto> v1)"
    by auto
  have s: "sessions w' sid = Some a" "cfg_session_key (w_config w') = key" "0 < mailbox_cap w'"
    using w'(3) r(4,5,6) w by (simp_all add: frame_except_def)
  have "rec_sent v1 = rec_sent v @ x" using traffic.write_seq_sent [OF v1(1)] x by simp
  then have "upstream_sent sid w' = upstream_sent sid w @ x"
    using s(1) w'(4) r(7) by (simp add: upstream_sent_def)
  moreover have "server_accepting lib key c rechunk sid False w' xs"
    unfolding server_accepting_def
    using law s w' v1(2) xs by (intro conjI exI [of _ v1] exI [of _ v']) simp_all
  ultimately show ?thesis using w'(1) by (simp add: server_send_def write_response_def)
qed

interpretation tunnel: write_service lib config sid
    "server_send lib (recorded c) rechunk rid" "upstream_sent sid"
    "server_accepting lib (session_key config) c rechunk sid"
  for lib config sid c rechunk rid
  by unfold_locales (rule server_takes_next [OF refl])

text \<open>C1: end to end, upstream. The chunks written to a client connection arrive at the upstream
  of its session exactly once and in order: \<^verbatim>\<open>pump_outgoing\<close>, talking to the server through
  an HTTP connection that may cut the bodies in any way, returns \<^verbatim>\<open>Ok\<close>, and what the server
  has sent to the session's upstream has grown by the concatenation of the chunks. This
  holds from the first chunk, whose \<^verbatim>\<open>POST\<close> opens the session, and for a session that a
  \<^verbatim>\<open>GET\<close> has opened before, for every connector that accepts the bytes.\<close>

theorem upload_end_to_end:
  assumes "ce_lib env = lib" and "ce_send env = server_send lib (recorded c) rechunk rid"
    and "server_accepting lib (session_key config) c rechunk sid True (p_net p) chunks"
    and "\<And>x f u. x \<in> set chunks \<Longrightarrow> is_ok (create_write_request lib config sid x f u)"
  shows "\<exists>p'. pump_outgoing env config sid chunks p = (Ok (), p') \<and>
     upstream_sent sid (p_net p') = upstream_sent sid (p_net p) @ concat chunks"
  unfolding pump_outgoing_def using tunnel.pump_delivers [OF assms] by blast

theorem upload_end_to_end_witness:
  "\<exists>p'. pump_outgoing
       \<lparr>ce_lib = plain_http_lib, ce_uuid = word_of_nat,
        ce_send = server_send plain_http_lib (recorded NullConnector) (\<lambda>b. [b]) 0\<rparr>
       demo_config 3 [bytes_of ''ab'', bytes_of ''c''] \<lparr>p_net = test_server, p_uuids = 0\<rparr> = (Ok (), p') \<and>
     upstream_sent 3 (p_net p') = bytes_of ''abc''"
proof -
  let ?w = "test_server :: unit recorded world"
  let ?cs = "[bytes_of ''ab'', bytes_of ''c'']"
  let ?p = "\<lparr>p_net = ?w, p_uuids = 0\<rparr>"
  let ?env = "\<lparr>ce_lib = plain_http_lib, ce_uuid = word_of_nat,
        ce_send = server_send plain_http_lib (recorded NullConnector) (\<lambda>b. [b]) 0\<rparr>"
  have "session_key demo_config = DEFAULT_SESSION_KEY" by (simp add: demo_config_def DomainFronting_new_def)
  moreover have "cfg_session_key (w_config ?w) = DEFAULT_SESSION_KEY" "0 < mailbox_cap ?w"
    "sessions ?w 3 = None" "c_connect (recorded NullConnector) (next_actor ?w) (upstream (w_config ?w)) = Ok ((), [], [])"
    by (simp_all add: test_server_def with_connector_def Config_new_def recorded_def NullConnector_def)
  moreover have "write_seq (recorded NullConnector) ((), [], []) (concat (map (\<lambda>b. [b]) ?cs)) = Some ((), bytes_of ''abc'', [])"
    by code_simp
  moreover have "\<forall>x \<in> set ?cs. concat [x] = x \<and> word_of_nat (length x) \<noteq> (0 :: usize)" by code_simp
  ultimately have acc: "server_accepting plain_http_lib (session_key demo_config) NullConnector (\<lambda>b. [b]) 3 True (p_net ?p) ?cs"
    unfolding server_accepting_def
    by (simp add: plain_http_lib_law default_session_key_plain del: concat.simps list.map set_simps)
  have b: "is_ok (create_write_request plain_http_lib demo_config 3 x f u)" for x f u
    by (simp add: create_write_request_def plain_http_lib_def)
  have "ce_lib ?env = plain_http_lib" "ce_send ?env = server_send plain_http_lib (recorded NullConnector) (\<lambda>b. [b]) 0"
    by simp_all
  from upload_end_to_end [OF this acc b] have
    "\<exists>p'. pump_outgoing ?env demo_config 3 ?cs ?p = (Ok (), p') \<and>
       upstream_sent 3 (p_net p') = upstream_sent 3 ?w @ concat ?cs" by simp
  moreover have "upstream_sent 3 ?w @ concat ?cs = bytes_of ''abc''"
    by (simp add: upstream_sent_def test_server_def with_connector_def bytes_of_def)
  ultimately show ?thesis by simp
qed

end
