(* ===== verification/Download.thy ===== *)
theory Download
  imports Tunnel
begin

text \<open>
  The other direction of the tunnel. The interface between \<^verbatim>\<open>pump_incoming\<close> and whatever
  answers its requests is the locale \<open>read_service\<close>; the server of \<open>Server_Requests\<close>
  implements it, with the response stream of \<open>stream_poll\<close> drained into the response body
  until it ends or the HTTP connection breaks; frames on their way to the client are then lost.
\<close>

section \<open>The interface\<close>

text \<open>
  A service answers a read request with data frames, after which the body may break off, or
  not at all; \<open>received\<close> is what the service has got from upstream. What it has got and does not
  deliver (\<open>lost\<close>) is lost in a body that breaks off or with the whole response.
\<close>

definition data_body :: "bytes list \<Rightarrow> (hyper_error, frame) result list" where
  "data_body ds = map (\<lambda>d. Ok (DataFrame d)) ds"

definition broken_tail :: "(hyper_error, frame) result list \<Rightarrow> bool" where
  "broken_tail rest \<longleftrightarrow> rest = [] \<or> (\<exists>e. rest = [Err e])"

lemma data_body_simps [simp]:
  "data_body [] = []" "data_body (d # ds) = Ok (DataFrame d) # data_body ds"
  by (simp_all add: data_body_def)

lemma forward_data_body:
  assumes "forward_body op (data_body ds @ rest) out = (go, out')" and "[] \<notin> set ds" and "broken_tail rest"
  shows "\<exists>ds1 ds2 errs. ds = ds1 @ ds2 \<and> out' = out @ map Ok ds1 @ errs \<and>
     (go \<longrightarrow> ds2 = [] \<and> errs = [] \<and> rest = []) \<and> (\<not> go \<longrightarrow> (\<forall>k. op k) \<longrightarrow> errs \<noteq> []) \<and>
     (errs = [] \<or> (\<exists>e. errs = [Err e]))"
  using assms
proof (induction ds arbitrary: out)
  case Nil
  then show ?case
    by (intro exI [of _ "[]"] exI [of _ "drop (length out) out'"])
       (auto simp: broken_tail_def chan_send_def split: if_splits)
next
  case (Cons d ds)
  show ?case
  proof (cases "op (length out)")
    case True
    have "forward_body op (data_body ds @ rest) (out @ [Ok d]) = (go, out')"
      using Cons.prems True by (auto simp: chan_send_def)
    from Cons.IH [OF this] Cons.prems(2,3) obtain ds1 ds2 errs where
        "ds = ds1 @ ds2" "out' = (out @ [Ok d]) @ map Ok ds1 @ errs"
        "go \<longrightarrow> ds2 = [] \<and> errs = [] \<and> rest = []" "\<not> go \<longrightarrow> (\<forall>k. op k) \<longrightarrow> errs \<noteq> []"
        "errs = [] \<or> (\<exists>e. errs = [Err e])"
      by auto
    then show ?thesis by (intro exI [of _ "d # ds1"] exI [of _ ds2] exI [of _ errs]) simp
  next
    case False
    with Cons.prems have "go = False" "out' = out" by (auto simp: chan_send_def)
    with False show ?thesis by (intro exI [of _ "[]"] exI [of _ "d # ds"]) auto
  qed
qed

text \<open>
  How a pump may end: it goes on and nothing is lost; it returns \<^verbatim>\<open>Ok\<close>, after the reader has
  gone or been sent an error; or it returns an error.
\<close>

definition ended_as ::
  "chan_open \<Rightarrow> (df_error, unit) result option \<Rightarrow> bytes \<Rightarrow> chan \<Rightarrow> bool" where
  "ended_as op r lost errs \<longleftrightarrow>
     (r = None \<and> lost = [] \<and> errs = [] \<or>
      r = Some (Ok ()) \<and> (errs = [] \<or> (\<exists>x. errs = [Err x])) \<and> ((\<forall>k. op k) \<longrightarrow> errs \<noteq> []) \<or>
      (\<exists>e. r = Some (Err (Hyper e))) \<and> errs = [])"

locale read_service =
  fixes lib :: http_lib
    and config :: domain_fronting
    and sid :: uuid
    and send :: "'t \<Rightarrow> bytes http_request \<Rightarrow> (hyper_error, client_response) result \<times> 't"
    and received :: "'t \<Rightarrow> bytes"
    and serving :: "'t \<Rightarrow> bool"
  assumes serves:
    "serving t \<Longrightarrow> create_read_request lib config sid u = Ok req \<Longrightarrow>
     \<exists>r t' ds rest lost. send t req = (r, t') \<and> [] \<notin> set ds \<and> serving t' \<and>
       received t' = received t @ concat ds @ lost \<and>
       ((\<exists>e. r = Err e) \<and> ds = [] \<or>
        (\<exists>rsp. r = Ok rsp \<and> rsp_status rsp = STATUS_OK \<and> rsp_body rsp = data_body ds @ rest) \<and>
        broken_tail rest \<and> (rest = [] \<longrightarrow> lost = []))"
begin

lemma round_receives:
  assumes "ce_lib env = lib" and "ce_send env = send" and "serving (p_net p)"
    and "\<And>u. is_ok (create_read_request lib config sid u)"
    and "pump_incoming_round env config sid op p out = (r, p', out')"
  shows "\<exists>ds lost errs. out' = out @ map Ok ds @ errs \<and> serving (p_net p') \<and>
     received (p_net p') = received (p_net p) @ concat ds @ lost \<and> ended_as op r lost errs"
proof -
  let ?u = "ce_uuid env (p_uuids p)"
  obtain req where req: "create_read_request lib config sid ?u = Ok req"
    using assms(4) [of ?u] by (cases "create_read_request lib config sid ?u") auto
  from serves [OF assms(3) req] obtain x t' ds rest lost where s: "send (p_net p) req = (x, t')" "[] \<notin> set ds"
      "serving t'" "received t' = received (p_net p) @ concat ds @ lost"
      "(\<exists>e. x = Err e) \<and> ds = [] \<or>
       (\<exists>rsp. x = Ok rsp \<and> rsp_status rsp = STATUS_OK \<and> rsp_body rsp = data_body ds @ rest) \<and>
       broken_tail rest \<and> (rest = [] \<longrightarrow> lost = [])" by blast
  from s(5) show ?thesis
  proof
    assume "(\<exists>e. x = Err e) \<and> ds = []"
    with assms(1,2,5) req s(1,3,4) show ?thesis
      by (intro exI [of _ "[]"] exI [of _ lost]) (auto simp: pump_incoming_round_def send_request_def ended_as_def)
  next
    assume ok: "(\<exists>rsp. x = Ok rsp \<and> rsp_status rsp = STATUS_OK \<and> rsp_body rsp = data_body ds @ rest) \<and>
       broken_tail rest \<and> (rest = [] \<longrightarrow> lost = [])"
    obtain go out1 where f: "forward_body op (data_body ds @ rest) out = (go, out1)" by fastforce
    have r: "r = (if go then None else Some (Ok ()))" "out' = out1" "p_net p' = t'"
      using assms(1,2,5) req s(1) ok f
      by (auto simp: pump_incoming_round_def send_request_def is_success_def split: bool.splits)
    from forward_data_body [OF f s(2)] ok obtain ds1 ds2 errs where "ds = ds1 @ ds2"
        "out1 = out @ map Ok ds1 @ errs" "go \<longrightarrow> ds2 = [] \<and> errs = [] \<and> rest = []"
        "\<not> go \<longrightarrow> (\<forall>k. op k) \<longrightarrow> errs \<noteq> []" "errs = [] \<or> (\<exists>e. errs = [Err e])" by blast
    with r s(3,4) ok show ?thesis
      by (intro exI [of _ ds1] exI [of _ "concat ds2 @ lost"] exI [of _ errs]) (auto simp: ended_as_def)
  qed
qed

lemma pump_receives:
  assumes "ce_lib env = lib" and "ce_send env = send" and "serving (p_net p)"
    and "\<And>u. is_ok (create_read_request lib config sid u)"
    and "pump_incoming env config sid op n p out = (r, p', out')"
  shows "\<exists>ds lost errs. out' = out @ map Ok ds @ errs \<and> serving (p_net p') \<and>
     received (p_net p') = received (p_net p) @ concat ds @ lost \<and> ended_as op r lost errs"
  using assms
proof (induction n arbitrary: p out)
  case 0
  then show ?case by (intro exI [of _ "[]"]) (simp add: ended_as_def)
next
  case (Suc n)
  obtain r1 p1 out1 where rd: "pump_incoming_round env config sid op p out = (r1, p1, out1)"
    by (metis prod_cases3)
  from round_receives [OF Suc.prems(1-4) rd] obtain ds lost errs where
      1: "out1 = out @ map Ok ds @ errs" "serving (p_net p1)"
      "received (p_net p1) = received (p_net p) @ concat ds @ lost" "ended_as op r1 lost errs" by blast
  show ?case
  proof (cases r1)
    case None
    then have more: "pump_incoming env config sid op n p1 out1 = (r, p', out')" using Suc.prems(5) rd by simp
    from Suc.IH [OF Suc.prems(1,2) 1(2) Suc.prems(4) more] obtain ds' lost' errs' where
        2: "out' = out1 @ map Ok ds' @ errs'" "serving (p_net p')"
        "received (p_net p') = received (p_net p1) @ concat ds' @ lost'" "ended_as op r lost' errs'" by blast
    from None 1 2 show ?thesis
      by (intro exI [of _ "ds @ ds'"] exI [of _ lost'] exI [of _ errs']) (auto simp: ended_as_def)
  next
    case (Some x)
    with Suc.prems(5) rd have "r = r1" "p' = p1" "out' = out1" by auto
    with 1 show ?thesis by blast
  qed
qed

end

text \<open>A service whose upstream has nothing more to say: every body is empty.\<close>

locale ended_service = read_service +
  assumes ended:
    "serving t \<Longrightarrow> create_read_request lib config sid u = Ok req \<Longrightarrow>
     is_ok (fst (send t req)) \<and> rsp_body (projr (fst (send t req))) = []"
begin

lemma pump_never_ends:
  assumes "ce_lib env = lib" and "ce_send env = send" and "serving (p_net p)"
    and "\<And>u. is_ok (create_read_request lib config sid u)"
  shows "\<exists>p'. pump_incoming env config sid op n p out = (None, p', out) \<and> p_uuids p' = p_uuids p + n"
  using assms
proof (induction n arbitrary: p)
  case 0
  then show ?case by simp
next
  case (Suc n)
  let ?u = "ce_uuid env (p_uuids p)"
  obtain req where req: "create_read_request lib config sid ?u = Ok req"
    using Suc.prems(4) [of ?u] by (cases "create_read_request lib config sid ?u") auto
  from serves [OF Suc.prems(3) req] ended [OF Suc.prems(3) req] obtain rsp t' where
      s: "send (p_net p) req = (Ok rsp, t')" "rsp_status rsp = STATUS_OK" "rsp_body rsp = []" "serving t'"
    by force
  let ?p = "p\<lparr>p_uuids := Suc (p_uuids p), p_net := t'\<rparr>"
  have "pump_incoming_round env config sid op p out = (None, ?p, out)"
    using Suc.prems(1,2) req s
    by (simp add: pump_incoming_round_def send_request_def is_success_def)
  moreover from Suc.IH [OF Suc.prems(1,2) _ Suc.prems(4), of ?p] s(4) have
    "\<exists>p'. pump_incoming env config sid op n ?p out = (None, p', out) \<and> p_uuids p' = p_uuids ?p + n" by simp
  ultimately show ?case by auto
qed

end

section \<open>The server's response bodies\<close>

text \<open>
  The HTTP connection polls the response stream and writes the frames out; the session
  works off its mailbox after every poll. After \<open>fuel\<close> polls the HTTP connection breaks:
  the client sees an error, and the body is dropped.
\<close>

definition session_works :: "'u connector \<Rightarrow> nat \<Rightarrow> 'u world \<Rightarrow> 'u world" where
  "session_works conn n w =
     (case streams w n of None \<Rightarrow> w | Some st \<Rightarrow> run_actor conn (st_session st) w)"

fun drain ::
  "'u connector \<Rightarrow> hyper_error \<Rightarrow> nat \<Rightarrow> nat \<Rightarrow> 'u world \<Rightarrow> (hyper_error, frame) result list \<times> 'u world" where
  "drain conn e 0 n w = ([Err e], stream_end n w)"
| "drain conn e (Suc fuel) n w =
     (case stream_poll conn n w of
        (Pending, w1) \<Rightarrow> drain conn e fuel n (session_works conn n w1)
      | (Ready None, w1) \<Rightarrow> ([], w1)
      | (Ready (Some f), w1) \<Rightarrow>
          (case drain conn e fuel n (session_works conn n w1) of (fs, w2) \<Rightarrow> (Ok f # fs, w2)))"

definition streaming :: "nat \<Rightarrow> nat \<Rightarrow> 'u world \<Rightarrow> bool" where
  "streaming n a w \<longleftrightarrow>
     ready w a \<and>
     (case streams w n of
        None \<Rightarrow> False
      | Some st \<Rightarrow> st_reader st = a \<and> st_session st = a \<and> st_tell st = None \<and> \<not> st_aborted st)"

definition stream_over :: "nat \<Rightarrow> 'u world \<Rightarrow> bool" where
  "stream_over a w \<longleftrightarrow> ready w a \<and> read_locks w a = None"

lemma streamingE:
  assumes "streaming n a w"
  obtains st v where "ready w a" "streams w n = Some st" "st_reader st = a" "st_session st = a"
    "st_tell st = None" "\<not> st_aborted st" "upstreams w a = Some v"
  using assms by (auto simp: streaming_def ready_def split: option.splits)

lemma ready_world_updates [simp]:
  "ready (w\<lparr>streams := x\<rparr>) a = ready w a" "ready (w\<lparr>read_locks := y\<rparr>) a = ready w a"
  "upstreams w a \<noteq> None \<Longrightarrow> ready (w\<lparr>upstreams := (upstreams w)(a \<mapsto> v)\<rparr>) a = ready w a"
  by (simp_all add: ready_def)

lemma stream_over_end:
  assumes "ready w a" and "streams w n = Some st" and "st_reader st = a"
  shows "stream_over a (stream_end n w)" "frame_except a w (stream_end n w)"
    "upstreams (stream_end n w) = upstreams w"
  using assms by (simp_all add: stream_over_def stream_end_def frame_except_def)

text \<open>A poll that reads something: the idle timer is reset, and the stream goes on.\<close>

lemma tell_then_work:
  assumes "ready w a" and "streams w n \<noteq> None" and "st_reader st = a" and "st_session st = a"
    and "\<not> st_aborted st" and "stream_tell n st bs w = (r, w1)"
  shows "r = Ready (Some (DataFrame bs))" "streaming n a (session_works conn n w1)"
    "frame_except a w (session_works conn n w1)" "upstreams (session_works conn n w1) = upstreams w"
    "streams (session_works conn n w1) n = Some (st\<lparr>st_tell := None\<rparr>)"
proof -
  from assms(1) obtain s where s: "phase_of w a = Running s" "upstream_write s = a" "upstream_read s = a"
      "mail_of w a = []" "upstreams w a \<noteq> None" "0 < mailbox_cap w"
    by (auto elim: readyE)
  let ?w0 = "w\<lparr>streams := (streams w)(n \<mapsto> st\<lparr>st_tell := None\<rparr>)\<rparr>"
  have r: "r = Ready (Some (DataFrame bs))" and w1: "w1 = enqueue a (SessionResetIdleTimeout, None) ?w0"
    using s assms(4,6) by (auto simp: stream_tell_def is_alive_def mailbox_full_def Let_def)
  have q: "phase_of w1 a = Running s" "mail_of w1 a = [(SessionResetIdleTimeout, None)]"
    using s by (simp_all add: w1)
  note f = run_actor_reset [OF q, where conn = conn]
  have sw: "session_works conn n w1 = run_actor conn a w1"
    using assms(4) by (simp add: session_works_def w1)
  have "frame_except a w w1" by (simp add: w1 frame_except_def)
  with f(3) have fr: "frame_except a w (run_actor conn a w1)" using frame_except_trans by blast
  then have cap: "mailbox_cap (run_actor conn a w1) = mailbox_cap w" by (simp add: frame_except_def)
  have u: "upstreams w1 = upstreams w" by (simp add: w1)
  show "r = Ready (Some (DataFrame bs))" "frame_except a w (session_works conn n w1)"
    "upstreams (session_works conn n w1) = upstreams w"
    using r fr f(4) u by (simp_all add: sw)
  have "ready (run_actor conn a w1) a" "streams (run_actor conn a w1) n = Some (st\<lparr>st_tell := None\<rparr>)"
    using f(1,2,4,7) s cap by (simp_all add: ready_def w1)
  with assms(3-5) show "streaming n a (session_works conn n w1)"
    "streams (session_works conn n w1) n = Some (st\<lparr>st_tell := None\<rparr>)"
    by (simp_all add: streaming_def sw)
qed

lemma poll_cases:
  assumes st: "streaming n a w" and v: "upstreams w a = Some v"
    and rd: "c_read_buf conn v READ_CAPACITY = (x, v')" and p: "stream_poll conn n w = (r, w1)"
  shows "(r = Ready None \<and> (\<forall>bs. x = Ready (Ok bs) \<longrightarrow> bs = []) \<and> stream_over a w1 \<and>
      frame_except a w w1 \<and> upstreams w1 = (upstreams w)(a \<mapsto> v')) \<or>
    ((r = Pending \<and> x = Pending \<or> (\<exists>bs. bs \<noteq> [] \<and> r = Ready (Some (DataFrame bs)) \<and> x = Ready (Ok bs))) \<and>
     streaming n a (session_works conn n w1) \<and> frame_except a w (session_works conn n w1) \<and>
     upstreams (session_works conn n w1) = (upstreams w)(a \<mapsto> v'))"
proof -
  from st obtain s where s: "ready w a" "streams w n = Some s" "st_reader s = a" "st_session s = a"
      "st_tell s = None" "\<not> st_aborted s" by (rule streamingE)
  let ?w1 = "w\<lparr>upstreams := (upstreams w)(a \<mapsto> v')\<rparr>"
  have r1: "ready ?w1 a" using s(1) v by simp
  from p s(2,3) v show ?thesis
  proof (cases rule: stream_pollE)
    case (waits u')
    then have u: "u' = v'" "x = Pending" using rd by auto
    obtain ss where "phase_of w a = Running ss" "mail_of w a = []" using s(1) by (auto elim: readyE)
    then have "session_works conn n w1 = w1"
      using s(4) by (simp add: session_works_def waits(5) run_actor_quiet)
    moreover have "streaming n a w1" "frame_except a w w1"
      using r1 s(3-6) u(1) by (simp_all add: streaming_def waits(5) frame_except_def)
    ultimately show ?thesis using waits(4,5) u by simp
  next
    case (ends y u')
    then have u: "u' = v'" "y = x" using rd by auto
    note over = stream_over_end [OF r1, of n s, simplified, OF s(2,3)]
    have "frame_except a w ?w1" by (simp add: frame_except_def)
    from frame_except_trans [OF this over(2)] over(1,3) ends(4-6) u show ?thesis by auto
  next
    case (data bs u')
    then have u: "u' = v'" "x = Ready (Ok bs)" using rd by auto
    let ?w2 = "w\<lparr>upstreams := (upstreams w)(a \<mapsto> v'), w_stats := add_rx (length bs) (w_stats w)\<rparr>"
    have pre: "ready ?w2 a" "streams ?w2 n \<noteq> None" "\<not> st_aborted (s\<lparr>st_first := False, st_reading := False\<rparr>)"
      using r1 s by simp_all
    note tw = tell_then_work(1) [OF pre(1,2) _ _ pre(3) data(5) [unfolded u(1)]]
      tell_then_work(2-4) [OF pre(1,2) _ _ pre(3) data(5) [unfolded u(1)], where conn = conn]
    have "frame_except a w ?w2" by (simp add: frame_except_def)
    from frame_except_trans [OF this tw(3)] tw(1,2,4) s(3,4) u data(3) show ?thesis by simp
  qed (use s(5,6) in simp_all)
qed

context upstream_traffic
begin

lemma read_no_data:
  assumes "c_read_buf conn v k = (x, v1)" and "\<forall>bs. x = Ready (Ok bs) \<longrightarrow> bs = []"
  shows "received v1 = received v"
proof (cases x)
  case Pending
  with assms read_nothing show ?thesis by blast
next
  case (Ready y)
  with assms read_nothing read_appends show ?thesis by (cases y) fastforce+
qed

lemma drain_receives:
  assumes "streaming n a w" and "upstreams w a = Some v" and "drain conn e fuel n w = (fs, w')"
  shows "\<exists>ds rest v'. fs = data_body ds @ rest \<and> [] \<notin> set ds \<and> broken_tail rest \<and> stream_over a w' \<and>
     frame_except a w w' \<and> upstreams w' a = Some v' \<and> received v' = received v @ concat ds"
  using assms
proof (induction fuel arbitrary: w v fs w')
  case 0
  from 0(1) obtain st where "ready w a" "streams w n = Some st" "st_reader st = a" by (rule streamingE)
  note o = stream_over_end [OF this]
  from 0(2,3) o show ?case
    by (intro exI [of _ "[]"] exI [of _ "[Err e]"] exI [of _ v]) (auto simp: broken_tail_def)
next
  case (Suc fuel)
  obtain x v1 where rd: "c_read_buf conn v READ_CAPACITY = (x, v1)" by fastforce
  obtain r w1 where p: "stream_poll conn n w = (r, w1)" by fastforce
  let ?w = "session_works conn n w1"
  from poll_cases [OF Suc.prems(1,2) rd p] consider
      (over) "r = Ready None" "\<forall>bs. x = Ready (Ok bs) \<longrightarrow> bs = []" "stream_over a w1" "frame_except a w w1"
        "upstreams w1 = (upstreams w)(a \<mapsto> v1)"
    | (wait) "r = Pending" "x = Pending" "streaming n a ?w" "frame_except a w ?w" "upstreams ?w = (upstreams w)(a \<mapsto> v1)"
    | (data) bs where "bs \<noteq> []" "r = Ready (Some (DataFrame bs))" "x = Ready (Ok bs)" "streaming n a ?w"
        "frame_except a w ?w" "upstreams ?w = (upstreams w)(a \<mapsto> v1)"
    by blast
  then show ?case
  proof cases
    case over
    with read_no_data [OF rd] p Suc.prems(3) show ?thesis
      by (intro exI [of _ "[]"] exI [of _ v1]) (auto simp: broken_tail_def)
  next
    case wait
    have "drain conn e fuel n ?w = (fs, w')" "upstreams ?w a = Some v1" using wait p Suc.prems(3) by simp_all
    from Suc.IH [OF wait(3) this(2,1)] wait(4) rd [unfolded wait(2)] read_nothing show ?thesis
      using frame_except_trans by metis
  next
    case data
    obtain fs1 w2 where d: "drain conn e fuel n ?w = (fs1, w2)" by fastforce
    with data p Suc.prems(3) have fs: "fs = Ok (DataFrame bs) # fs1" "w' = w2" by simp_all
    have "upstreams ?w a = Some v1" using data by simp
    from Suc.IH [OF data(4) this d] obtain ds rest v' where i: "fs1 = data_body ds @ rest" "[] \<notin> set ds"
        "broken_tail rest" "stream_over a w2" "frame_except a ?w w2" "upstreams w2 a = Some v'"
        "received v' = received v1 @ concat ds" by blast
    have "received v1 = received v @ bs" using read_appends rd data(3) by blast
    with i fs data(1,5) frame_except_trans show ?thesis
      by (intro exI [of _ "bs # ds"] exI [of _ rest] exI [of _ v']) auto
  qed
qed

end

text \<open>
  What becomes of an exchange on its way: all of it arrives (with the end the server gave it);
  the HTTP connection breaks and the client has got the first \<open>k\<close> frames, however many the
  server had written; it breaks before the head of the response has arrived; or before
  the request has reached the server.
\<close>

datatype delivery = Arrives | BreaksAfter nat | NeverArrives | NeverSent

fun deliver :: "hyper_error \<Rightarrow> delivery \<Rightarrow> client_response \<Rightarrow> (hyper_error, client_response) result" where
  "deliver e Arrives rsp = Ok rsp"
| "deliver e (BreaksAfter k) rsp = Ok (rsp\<lparr>rsp_body := take k (takeWhile is_ok (rsp_body rsp)) @ [Err e]\<rparr>)"
| "deliver e NeverArrives rsp = Err e"
| "deliver e NeverSent rsp = Err e"

text \<open>
  A server that answers the read requests of one client. \<open>budget\<close> is the number of polls
  after which the server sees that the HTTP connection is broken, \<open>way\<close> is what becomes of the
  exchange; both may be different each time.
\<close>

definition server_read ::
  "http_lib \<Rightarrow> 'u connector \<Rightarrow> hyper_error \<Rightarrow> ('u world \<Rightarrow> nat) \<Rightarrow> ('u world \<Rightarrow> delivery) \<Rightarrow> nat \<Rightarrow> 'u world
   \<Rightarrow> bytes http_request \<Rightarrow> (hyper_error, client_response) result \<times> 'u world" where
  "server_read lib conn e budget way rid w req =
     (if way w = NeverSent then (Err e, w)
      else (case handle_request lib conn rid (to_server (\<lambda>_. []) req) w of
        (r, w1) \<Rightarrow>
          (case (case rsp_body r of EmptyBody \<Rightarrow> ([], w1) | StreamBody n \<Rightarrow> drain conn e (budget w) n w1) of
             (fs, w2) \<Rightarrow>
               (deliver e (way w) \<lparr>rsp_status = rsp_status r, rsp_headers = rsp_headers r, rsp_body = fs\<rparr>, w2))))"



definition upstream_received :: "uuid \<Rightarrow> 'u recorded world \<Rightarrow> bytes" where
  "upstream_received sid w =
     (case Option.bind (sessions w sid) (upstreams w) of None \<Rightarrow> [] | Some v \<Rightarrow> rec_received v)"

definition server_serving :: "http_lib \<Rightarrow> string \<Rightarrow> 'u connector \<Rightarrow> uuid \<Rightarrow> 'u recorded world \<Rightarrow> bool" where
  "server_serving lib key c sid w \<longleftrightarrow>
     session_header_law lib key \<and> plain_session_key key \<and> cfg_session_key (w_config w) = key \<and>
     0 < mailbox_cap w \<and>
     (case sessions w sid of
        Some a \<Rightarrow> stream_over a w
      | None \<Rightarrow> is_ok (c_connect (recorded c) (next_actor w) (upstream (w_config w))))"

lemma read_request_head:
  assumes "session_header_law lib key" and "plain_session_key key" and "session_key config = key"
    and "create_read_request lib config sid u = Ok req"
  shows "parse_head lib key (to_server rechunk req) = Ok (Get, sid)"
  using read_request_seen [of lib config sid u req] assms
  by (auto simp: parse_head_def request_session_id_def to_server_def)

text \<open>The read request of a client reaches a session that is ready to stream.\<close>

lemma serving_resolves:
  assumes "server_serving lib key c sid w"
  shows "\<exists>a w1 v. resolve (recorded c) True sid w = Some (a, w1) \<and> stream_over a w1 \<and> upstreams w1 a = Some v \<and>
     sessions w1 sid = Some a \<and> w_config w1 = w_config w \<and> mailbox_cap w1 = mailbox_cap w \<and>
     rec_received v = upstream_received sid w \<and>
     (\<forall>b. sessions w sid = Some b \<longrightarrow> b = a \<and> w1 = w)"
proof (cases "sessions w sid")
  case (Some a)
  with assms have o: "stream_over a w" by (simp add: server_serving_def)
  then obtain v where "upstreams w a = Some v" by (auto simp: stream_over_def elim: readyE)
  with Some o resolve_live [of w sid a "recorded c" True] show ?thesis
    by (intro exI [of _ a] exI [of _ w] exI [of _ v]) (simp add: stream_over_def upstream_received_def)
next
  case None
  with assms obtain v where ok: "c_connect (recorded c) (next_actor w) (upstream (w_config w)) = Ok v"
      and cap: "0 < mailbox_cap w"
    by (cases "c_connect (recorded c) (next_actor w) (upstream (w_config w))") (auto simp: server_serving_def)
  have "case sessions w sid of None \<Rightarrow> True | Some a \<Rightarrow> \<not> is_alive w a" using None by simp
  from resolve_new [OF this ok cap] None traffic.connect_fresh [OF ok] show ?thesis
    by (auto simp: upstream_received_def stream_over_def simp del: split_paired_Ex)
qed

lemma server_read_opens:
  assumes key: "session_key config = key" and sv: "server_serving lib key c sid w"
    and req: "create_read_request lib config sid u = Ok req" and way: "way w \<noteq> NeverSent"
  shows "\<exists>a n w2 v. server_read lib (recorded c) e budget way rid w req =
      (case drain (recorded c) e (budget w) n w2 of (fs, w3) \<Rightarrow>
         (deliver e (way w) \<lparr>rsp_status = STATUS_OK, rsp_headers = rsp_headers (read_response n), rsp_body = fs\<rparr>, w3)) \<and>
     streaming n a w2 \<and> upstreams w2 a = Some v \<and> rec_received v = upstream_received sid w \<and>
     sessions w2 sid = Some a \<and> w_config w2 = w_config w \<and> mailbox_cap w2 = mailbox_cap w \<and>
     (\<forall>b. sessions w sid = Some b \<longrightarrow> b = a \<and> upstreams w2 a = upstreams w b)"
proof -
  from serving_resolves [OF sv] obtain a w1 v where r: "resolve (recorded c) True sid w = Some (a, w1)"
      "stream_over a w1" "upstreams w1 a = Some v" "sessions w1 sid = Some a" "w_config w1 = w_config w"
      "mailbox_cap w1 = mailbox_cap w" "rec_received v = upstream_received sid w"
      "\<forall>b. sessions w sid = Some b \<longrightarrow> b = a \<and> w1 = w" by blast
  from r(2) have rd: "ready w1 a" "read_locks w1 a = None" by (simp_all add: stream_over_def)
  from ask_read_free [OF this, of "recorded c" rid] obtain w2 where w2:
      "ask (recorded c) rid a SessionRead w1 = (Some (ReadReply (Some (next_stream w1))), w2)" "ready w2 a"
      "frame_except a w1 w2" "upstreams w2 = upstreams w1"
      "streams w2 = (streams w1)(next_stream w1 \<mapsto> fresh_stream a)" by blast
  have head: "parse_head lib (cfg_session_key (w_config w)) (to_server (\<lambda>_. []) req) = Ok (Get, sid)"
    using read_request_head [of lib key config sid u req] sv key req by (simp add: server_serving_def)
  have "handle_request lib (recorded c) rid (to_server (\<lambda>_. []) req) w = (read_response (next_stream w1), w2)"
    using w2(1) by (simp add: handle_read_resolved [OF head r(1) rd(1)] handle_read_request_def)
  with way have "server_read lib (recorded c) e budget way rid w req =
      (case drain (recorded c) e (budget w) (next_stream w1) w2 of (fs, w3) \<Rightarrow>
         (deliver e (way w) \<lparr>rsp_status = STATUS_OK, rsp_headers = rsp_headers (read_response (next_stream w1)), rsp_body = fs\<rparr>, w3))"
    by (simp add: server_read_def read_response_def)
  moreover have "streaming (next_stream w1) a w2" using w2 by (simp add: streaming_def)
  ultimately show ?thesis
    using w2(3,4) r by (intro exI [of _ a] exI [of _ "next_stream w1"] exI [of _ w2] exI [of _ v])
      (simp add: frame_except_def)
qed




section \<open>The end of the upstream\<close>

text \<open>An upstream connection that has reached its end and stays there.\<close>

definition at_eof :: "'u connector \<Rightarrow> 'u \<Rightarrow> bool" where
  "at_eof conn v \<longleftrightarrow> c_read_buf conn v READ_CAPACITY = (Ready (Ok []), v)"

definition serving_eof :: "http_lib \<Rightarrow> string \<Rightarrow> 'u connector \<Rightarrow> uuid \<Rightarrow> 'u recorded world \<Rightarrow> bool" where
  "serving_eof lib key c sid w \<longleftrightarrow>
     server_serving lib key c sid w \<and>
     (\<exists>a v. sessions w sid = Some a \<and> upstreams w a = Some v \<and> at_eof (recorded c) v)"

lemma drain_eof:
  assumes "streaming n a w" and "upstreams w a = Some v" and "at_eof conn v"
  shows "\<exists>w'. drain conn e (Suc fuel) n w = ([], w') \<and> stream_over a w' \<and> frame_except a w w' \<and>
    upstreams w' a = Some v"
proof -
  obtain r w1 where p: "stream_poll conn n w = (r, w1)" by fastforce
  from poll_cases [OF assms(1,2) assms(3) [unfolded at_eof_def] p] show ?thesis using p by auto
qed

lemma server_read_eof:
  assumes key: "session_key config = key" and sv: "serving_eof lib key c sid w"
    and req: "create_read_request lib config sid u = Ok req" and pos: "\<And>w. 0 < budget w"
  shows "\<exists>rsp w'. server_read lib (recorded c) e budget (\<lambda>w. Arrives) rid w req = (Ok rsp, w') \<and>
     rsp_status rsp = STATUS_OK \<and> rsp_body rsp = [] \<and> serving_eof lib key c sid w' \<and>
     upstream_received sid w' = upstream_received sid w"
proof -
  from sv have sv': "server_serving lib key c sid w" by (simp add: serving_eof_def)
  from sv obtain b v where b: "sessions w sid = Some b" "upstreams w b = Some v" "at_eof (recorded c) v"
    by (auto simp: serving_eof_def)
  from server_read_opens [OF key sv' req, of "\<lambda>w. Arrives" e budget rid] b(1,2) obtain n w2 where o:
      "server_read lib (recorded c) e budget (\<lambda>w. Arrives) rid w req =
        (case drain (recorded c) e (budget w) n w2 of (fs, w3) \<Rightarrow>
           (Ok \<lparr>rsp_status = STATUS_OK, rsp_headers = rsp_headers (read_response n), rsp_body = fs\<rparr>, w3))"
      "streaming n b w2" "upstreams w2 b = Some v" "sessions w2 sid = Some b" "w_config w2 = w_config w"
      "mailbox_cap w2 = mailbox_cap w" by force
  obtain k where "budget w = Suc k" using pos [of w] by (cases "budget w") auto
  with drain_eof [OF o(2,3) b(3), of e k] obtain w3 where d: "drain (recorded c) e (budget w) n w2 = ([], w3)"
      "stream_over b w3" "frame_except b w2 w3" "upstreams w3 b = Some v" by auto
  have w3: "sessions w3 sid = Some b" "w_config w3 = w_config w" "mailbox_cap w3 = mailbox_cap w"
    using d(3) o(4-6) by (simp_all add: frame_except_def)
  have "server_serving lib key c sid w3" using sv' w3 d(2) by (simp add: server_serving_def)
  then have "serving_eof lib key c sid w3" using w3(1) d(4) b(3) by (auto simp: serving_eof_def simp del: split_paired_Ex)
  moreover have "upstream_received sid w3 = upstream_received sid w"
    using w3 d(4) b by (simp add: upstream_received_def)
  ultimately show ?thesis using o(1) d(1) by simp
qed

interpretation eof: ended_service lib config sid
    "server_read lib (recorded c) e (\<lambda>w. Suc (k w)) (\<lambda>w. Arrives) rid" "upstream_received sid"
    "serving_eof lib (session_key config) c sid"
  for lib config sid c e k rid
proof
  fix t u req
  assume a: "serving_eof lib (session_key config) c sid t" "create_read_request lib config sid u = Ok req"
  note r = server_read_eof [OF refl a, of "\<lambda>w. Suc (k w)" e rid, simplified]
  from r obtain rsp t' where x: "server_read lib (recorded c) e (\<lambda>w. Suc (k w)) (\<lambda>w. Arrives) rid t req = (Ok rsp, t')"
      "rsp_status rsp = STATUS_OK" "rsp_body rsp = []" "serving_eof lib (session_key config) c sid t'"
      "upstream_received sid t' = upstream_received sid t" by blast
  then show "\<exists>x t' ds rest lost. server_read lib (recorded c) e (\<lambda>w. Suc (k w)) (\<lambda>w. Arrives) rid t req = (x, t') \<and>
      [] \<notin> set ds \<and> serving_eof lib (session_key config) c sid t' \<and>
      upstream_received sid t' = upstream_received sid t @ concat ds @ lost \<and>
      ((\<exists>e. x = Err e) \<and> ds = [] \<or>
       (\<exists>rsp. x = Ok rsp \<and> rsp_status rsp = STATUS_OK \<and> rsp_body rsp = data_body ds @ rest) \<and>
       broken_tail rest \<and> (rest = [] \<longrightarrow> lost = []))"
    by (intro exI [of _ "Ok rsp"] exI [of _ t'] exI [of _ "[]"]) (simp add: broken_tail_def)
  show "is_ok (fst (server_read lib (recorded c) e (\<lambda>w. Suc (k w)) (\<lambda>w. Arrives) rid t req)) \<and> rsp_body (projr (fst (server_read lib (recorded c) e (\<lambda>w. Suc (k w)) (\<lambda>w. Arrives) rid t req))) = []"
    using x by simp
qed

text \<open>C32: the end of the upstream connection is never passed on. Once the upstream of a session
  has reached its end, and while the HTTP connections hold, \<^verbatim>\<open>pump_incoming\<close> neither returns nor puts anything into the channel,
  after any number of turns: it sends one more \<^verbatim>\<open>GET\<close> per turn and is answered at once by an
  empty body. The reader of the connection, such as \<^verbatim>\<open>read_to_end\<close> in
  \<^verbatim>\<open>bin/domain_fronting.rs\<close>, waits for ever.\<close>

theorem upstream_eof_not_reported:
  assumes "ce_lib env = lib" and "ce_send env = server_read lib (recorded c) e (\<lambda>w. Suc (k w)) (\<lambda>w. Arrives) rid"
    and "serving_eof lib (session_key config) c sid (p_net p)"
    and "\<And>u. is_ok (create_read_request lib config sid u)"
  shows "\<exists>p'. pump_incoming env config sid op n p out = (None, p', out) \<and> p_uuids p' = p_uuids p + n"
  by (rule eof.pump_never_ends [OF assms])

section \<open>Witnesses\<close>



lemma demo_config_key: "session_key demo_config = DEFAULT_SESSION_KEY"
  by (simp add: demo_config_def DomainFronting_new_def)

lemma demo_reads_ok: "is_ok (create_read_request plain_http_lib demo_config sid u)"
  by (simp add: create_read_request_def plain_http_lib_def)


text \<open>An upstream that has closed its side.\<close>

definition closed_upstream :: "unit connector" where
  "closed_upstream = NullConnector\<lparr>c_read_buf := (\<lambda>u cap. (Ready (Ok []), u))\<rparr>"

theorem upstream_eof_not_reported_witness:
  "\<exists>p'. pump_incoming
      \<lparr>ce_lib = plain_http_lib, ce_uuid = word_of_nat,
       ce_send = server_read plain_http_lib (recorded closed_upstream) (HyperError ''reset'') (\<lambda>w. Suc 0) (\<lambda>w. Arrives) 1\<rparr>
      demo_config 3 (\<lambda>_. True) 7 \<lparr>p_net = opened_server (recorded closed_upstream) 3, p_uuids = 0\<rparr> [] = (None, p', []) \<and>
    p_uuids p' = 7"
proof -
  let ?w = "opened_server (recorded closed_upstream) 3"
  let ?env = "\<lparr>ce_lib = plain_http_lib, ce_uuid = word_of_nat,
       ce_send = server_read plain_http_lib (recorded closed_upstream) (HyperError ''reset'') (\<lambda>w. Suc 0) (\<lambda>w. Arrives) 1\<rparr>"
  have c: "cfg_session_key (w_config ?w) = DEFAULT_SESSION_KEY" "0 < mailbox_cap ?w"
    "sessions ?w 3 = Some 0" "ready ?w 0" "read_locks ?w 0 = None"
    "upstreams ?w 0 = Some ((), bytes_of ''hi'', [])"
    by code_simp+
  have "at_eof (recorded closed_upstream) ((), s, r)" for s r
    by (simp add: at_eof_def recorded_def closed_upstream_def)
  with c have s: "serving_eof plain_http_lib (session_key demo_config) closed_upstream 3
      (p_net \<lparr>p_net = ?w, p_uuids = 0\<rparr>)"
    by (simp add: serving_eof_def server_serving_def stream_over_def demo_config_key plain_http_lib_law
        default_session_key_plain)
  have e: "ce_lib ?env = plain_http_lib"
    "ce_send ?env = server_read plain_http_lib (recorded closed_upstream) (HyperError ''reset'') (\<lambda>w. Suc 0) (\<lambda>w. Arrives) 1"
    by simp_all
  from upstream_eof_not_reported [OF e s demo_reads_ok, of "\<lambda>_. True" 7 "[]"] show ?thesis by simp
qed

text \<open>C26: what the client writes into a request the server reads out of it. Every request that
  \<^verbatim>\<open>create_write_request\<close> and \<^verbatim>\<open>create_read_request\<close> build is understood by the server as the
  method that was meant, for the session it was built for, with the chunk as its data,
  however the HTTP connection cuts the body, as long as both sides use the same session
  header and it is none of the headers the client sets itself.\<close>

theorem client_requests_understood:
  assumes "session_header_law lib key" and "plain_session_key key" and "session_key config = key"
    and "\<And>b. concat (rechunk b) = b"
  shows "(\<forall>chunk can_create u req. create_write_request lib config sid chunk can_create u = Ok req \<longrightarrow>
       parse_head lib key (to_server rechunk req) = Ok (if can_create then Post else Patch, sid) \<and>
       (\<exists>ds. into_data_stream (req_body (to_server rechunk req)) = map Ok ds \<and> concat ds = chunk)) \<and>
     (\<forall>u req. create_read_request lib config sid u = Ok req \<longrightarrow>
       parse_head lib key (to_server rechunk req) = Ok (Get, sid))"
  using write_request_head [OF assms(1-3)] read_request_head [OF assms(1-3)] assms(4) by blast

theorem client_requests_understood_witness:
  "parse_head plain_http_lib DEFAULT_SESSION_KEY
     (to_server (\<lambda>b. [take 1 b, drop 1 b]) (projr (create_write_request plain_http_lib demo_config 3 [1, 2, 3] False 7)))
   = Ok (Patch, 3)"
proof -
  have "create_write_request plain_http_lib demo_config 3 [1, 2, 3] False 7
      = Ok (projr (create_write_request plain_http_lib demo_config 3 [1, 2, 3] False 7))"
    by (simp add: create_write_request_def plain_http_lib_def)
  with client_requests_understood [OF plain_http_lib_law default_session_key_plain demo_config_key,
      of "\<lambda>b. [take 1 b, drop 1 b]" 3] show ?thesis by fastforce
qed

end
