(* ===== verification/Client_Echo.thy ===== *)
theory Client_Echo
  imports Download Event_Systems
begin

text \<open>
  Clients, the server and an echo server as the upstream, as in the tests of
  \<^verbatim>\<open>src/client.rs\<close>, with everything that may happen in any order: clients write, their
  \<^verbatim>\<open>pump_incoming\<close> sends its \<^verbatim>\<open>GET\<close> (before anything is written, too), response bodies are
  polled when they have data and when they have none, and the tasks of the echo server run
  whenever the scheduler lets them.
\<close>

section \<open>The echo server\<close>

text \<open>
  One connection of \<^verbatim>\<open>spawn_echo_server\<close>: the bytes on their way to the echo server, those on
  their way back, whether its task still runs, and whether the other end is closed. The
  sockets buffer what is written.
\<close>

record echo_conn =
  to_echo :: bytes
  from_echo :: bytes
  e_running :: bool
  e_closed :: bool

definition echo_accept :: echo_conn where
  "echo_accept = \<lparr>to_echo = [], from_echo = [], e_running = True, e_closed = False\<rparr>"

definition ECHO_BUFFER :: nat where
  "ECHO_BUFFER = 4096"

definition socket_read :: "echo_conn \<Rightarrow> nat \<Rightarrow> (io_error, bytes) result poll" where
  "socket_read c cap =
     (if to_echo c \<noteq> [] then Ready (Ok (take cap (to_echo c)))
      else if e_closed c then Ready (Ok []) else Pending)"

definition socket_write_all :: "bytes \<Rightarrow> echo_conn \<Rightarrow> (io_error, unit) result \<times> echo_conn" where
  "socket_write_all bs c =
     (if e_closed c then (Err (IoOs 32), c) else (Ok (), c\<lparr>from_echo := from_echo c @ bs\<rparr>))"

text \<open>
  One turn of the loop: \<^verbatim>\<open>read\<close> into the buffer, then \<^verbatim>\<open>write_all\<close>; an end of file or an error
  ends the task. A read that finds nothing waits.
\<close>

definition echo_turn :: "echo_conn \<Rightarrow> echo_conn" where
  "echo_turn c =
     (if \<not> e_running c then c
      else (case socket_read c ECHO_BUFFER of
        Pending \<Rightarrow> c
      | Ready (Inl e) \<Rightarrow> c\<lparr>e_running := False\<rparr>
      | Ready (Inr bs) \<Rightarrow>
          (if bs = [] then c\<lparr>e_running := False\<rparr>
           else (case socket_write_all bs (c\<lparr>to_echo := drop (length bs) (to_echo c)\<rparr>) of
                   (Inl e, c') \<Rightarrow> c'\<lparr>e_running := False\<rparr>
                 | (Inr _, c') \<Rightarrow> c'))))"

text \<open>The other end of the connection, as the session has it.\<close>

definition echo_upstream :: "echo_conn connector" where
  "echo_upstream =
     \<lparr>c_connect = (\<lambda>n a. Ok echo_accept),
      c_write_all = (\<lambda>c bs. if e_running c then (Ok (), c\<lparr>to_echo := to_echo c @ bs\<rparr>) else (Err (IoOs 32), c)),
      c_read_buf = (\<lambda>c cap.
        if from_echo c \<noteq> [] then (Ready (Ok (take cap (from_echo c))), c\<lparr>from_echo := drop cap (from_echo c)\<rparr>)
        else (if e_running c then Pending else Ready (Ok []), c))\<rparr>"

definition working :: "echo_conn \<Rightarrow> bool" where
  "working c \<longleftrightarrow> e_running c \<and> \<not> e_closed c"

text \<open>What a connection still owes its client.\<close>

definition underway :: "echo_conn \<Rightarrow> bytes" where
  "underway c = from_echo c @ to_echo c"

lemma echo_turn_working:
  "working c \<Longrightarrow> echo_turn c = c\<lparr>to_echo := drop ECHO_BUFFER (to_echo c), from_echo := from_echo c @ take ECHO_BUFFER (to_echo c)\<rparr>"
  by (cases "length (to_echo c) \<le> ECHO_BUFFER")
     (auto simp: echo_turn_def working_def socket_read_def socket_write_all_def ECHO_BUFFER_def)

lemma echo_turn_keeps: "working c \<Longrightarrow> working (echo_turn c) \<and> underway (echo_turn c) = underway c"
  by (simp add: echo_turn_working) (simp add: working_def underway_def)

lemma echo_write: "working c \<Longrightarrow> \<exists>c'. c_write_all echo_upstream c bs = (Ok (), c') \<and> working c' \<and> underway c' = underway c @ bs"
  by (simp add: echo_upstream_def working_def underway_def)

lemma echo_write_seq:
  "working c \<Longrightarrow> \<exists>c'. write_seq echo_upstream c ds = Some c' \<and> working c' \<and> underway c' = underway c @ concat ds"
proof (induction ds arbitrary: c)
  case (Cons d ds)
  from echo_write [OF Cons.prems, of d] obtain c1 where
      c1: "c_write_all echo_upstream c d = (Ok (), c1)" "working c1" "underway c1 = underway c @ d" by blast
  from Cons.IH [OF c1(2)] c1 show ?case by auto
qed simp

lemma echo_read:
  assumes "working c" and "c_read_buf echo_upstream c cap = (x, c')" and "0 < cap"
  shows "working c'" "x = Pending \<and> c' = c \<and> from_echo c = [] \<or>
    (\<exists>bs. x = Ready (Ok bs) \<and> bs \<noteq> [] \<and> underway c = bs @ underway c' \<and> to_echo c' = to_echo c)"
  using assms by (auto simp: echo_upstream_def working_def underway_def split: if_splits)

section \<open>What can happen\<close>

text \<open>
  \<^verbatim>\<open>serve_requests\<close>: an HTTP connection between a client and the server. The HTTP library, the
  UUIDs the clients draw and the way bodies are cut into frames are free.
\<close>

record test_net =
  n_lib :: http_lib
  n_uuid :: "nat \<Rightarrow> uuid"
  n_rechunk :: "bytes \<Rightarrow> bytes list"

definition writer_env :: "'z test_net_scheme \<Rightarrow> 'u connector \<Rightarrow> 'u world client_env" where
  "writer_env net conn =
     \<lparr>ce_lib = n_lib net, ce_uuid = n_uuid net, ce_send = server_send (n_lib net) conn (n_rechunk net) 0\<rparr>"

text \<open>
  The state: the server, and for each client whether its first chunk is still to come, its
  open response, what its reader has got, and whether one of its pumps has returned.
\<close>

record lab =
  l_pump :: "echo_conn world pump"
  l_unsent :: "uuid \<Rightarrow> bool"
  l_open :: "uuid \<Rightarrow> nat option"
  l_heard :: "uuid \<Rightarrow> chan"
  l_ended :: "uuid \<Rightarrow> bool"

text \<open>
  \<open>Writes sid chunk\<close>: \<^verbatim>\<open>pump_outgoing\<close> of the client takes a chunk up and sends it. \<open>Fetches sid\<close>:
  its \<^verbatim>\<open>pump_incoming\<close> sends the next \<^verbatim>\<open>GET\<close> and has the head of the response. \<open>Polled sid\<close>: the
  HTTP connection polls the body, and \<^verbatim>\<open>pump_incoming\<close> forwards what comes. \<open>EchoTurn a\<close>: the
  echo task of the \<open>a\<close>-th connection runs up to its next read.
\<close>

datatype lab_event = Writes uuid bytes | Fetches uuid | Polled uuid | EchoTurn nat

definition fetch :: "test_net \<Rightarrow> domain_fronting \<Rightarrow> uuid \<Rightarrow> echo_conn world pump
    \<Rightarrow> (df_error, resp_body) result \<times> echo_conn world pump" where
  "fetch net config sid p =
     (case create_read_request (n_lib net) config sid (n_uuid net (p_uuids p)) of
        Inl e \<Rightarrow> (Err e, p\<lparr>p_uuids := Suc (p_uuids p)\<rparr>)
      | Inr req \<Rightarrow>
          (case handle_request (n_lib net) echo_upstream 0 (to_server (\<lambda>_. []) req) (p_net p) of
             (rsp, w) \<Rightarrow>
               (if \<not> is_success (rsp_status rsp) then Err (HttpStatusCode (rsp_status rsp)) else Ok (rsp_body rsp),
                p\<lparr>p_uuids := Suc (p_uuids p), p_net := w\<rparr>)))"

fun lab_step :: "test_net \<Rightarrow> domain_fronting \<Rightarrow> lab_event \<Rightarrow> lab \<Rightarrow> lab option" where
  "lab_step net config (Writes sid chunk) s =
     (if l_ended s sid then None
      else (case pump_outgoing_loop (writer_env net echo_upstream) config sid (l_unsent s sid) [chunk] (l_pump s) of
        (r, p) \<Rightarrow> Some (s\<lparr>l_pump := p, l_unsent := (l_unsent s)(sid := False),
                          l_ended := (l_ended s)(sid := \<not> is_ok r)\<rparr>)))"
| "lab_step net config (Fetches sid) s =
     (if l_ended s sid \<or> l_open s sid \<noteq> None then None
      else (case fetch net config sid (l_pump s) of
        (Inl e, p) \<Rightarrow> Some (s\<lparr>l_pump := p, l_ended := (l_ended s)(sid := True)\<rparr>)
      | (Inr EmptyBody, p) \<Rightarrow> Some (s\<lparr>l_pump := p\<rparr>)
      | (Inr (StreamBody n), p) \<Rightarrow> Some (s\<lparr>l_pump := p, l_open := (l_open s)(sid \<mapsto> n)\<rparr>)))"
| "lab_step net config (Polled sid) s =
     (case l_open s sid of
        None \<Rightarrow> None
      | Some n \<Rightarrow>
          (if l_ended s sid then None
           else (case stream_poll echo_upstream n (p_net (l_pump s)) of
             (Pending, w) \<Rightarrow> Some (s\<lparr>l_pump := (l_pump s)\<lparr>p_net := session_works echo_upstream n w\<rparr>\<rparr>)
           | (Ready None, w) \<Rightarrow> Some (s\<lparr>l_pump := (l_pump s)\<lparr>p_net := w\<rparr>, l_open := (l_open s)(sid := None)\<rparr>)
           | (Ready (Some f), w) \<Rightarrow>
               (case forward_body (\<lambda>_. True) [Ok f] (l_heard s sid) of
                  (go, out) \<Rightarrow>
                    Some (s\<lparr>l_pump := (l_pump s)\<lparr>p_net := session_works echo_upstream n w\<rparr>,
                            l_heard := (l_heard s)(sid := out), l_ended := (l_ended s)(sid := \<not> go)\<rparr>)))))"
| "lab_step net config (EchoTurn a) s =
     (case upstreams (p_net (l_pump s)) a of
        None \<Rightarrow> None
      | Some c \<Rightarrow>
          Some (s\<lparr>l_pump := (l_pump s)\<lparr>p_net :=
            (p_net (l_pump s))\<lparr>upstreams := (upstreams (p_net (l_pump s)))(a \<mapsto> echo_turn c)\<rparr>\<rparr>\<rparr>))"

definition lab_start :: "nat \<Rightarrow> config \<Rightarrow> lab" where
  "lab_start cap cfg =
     \<lparr>l_pump = \<lparr>p_net = with_connector cap cfg, p_uuids = 0\<rparr>, l_unsent = (\<lambda>_. True), l_open = (\<lambda>_. None),
      l_heard = (\<lambda>_. []), l_ended = (\<lambda>_. False)\<rparr>"

fun wrote :: "uuid \<Rightarrow> lab_event \<Rightarrow> bytes" where
  "wrote sid (Writes u chunk) = (if u = sid then chunk else [])"
| "wrote sid _ = []"

definition written :: "uuid \<Rightarrow> lab_event list \<Rightarrow> bytes" where
  "written sid es = concat (map (wrote sid) es)"

fun lab_event_ok :: "lab_event \<Rightarrow> bool" where
  "lab_event_ok (Writes u chunk) \<longleftrightarrow> word_of_nat (length chunk) \<noteq> (0 :: usize)"
| "lab_event_ok _ \<longleftrightarrow> True"

section \<open>The invariant\<close>

definition tied :: "echo_conn world \<Rightarrow> nat \<Rightarrow> nat option \<Rightarrow> bool" where
  "tied w a opn \<longleftrightarrow>
     ready w a \<and> a < next_actor w \<and>
     (case opn of None \<Rightarrow> read_locks w a = None | Some n \<Rightarrow> n < next_stream w \<and> streaming n a w)"

definition hears :: "echo_conn world \<Rightarrow> nat \<Rightarrow> chan \<Rightarrow> bytes \<Rightarrow> bool" where
  "hears w a out b \<longleftrightarrow>
     (\<exists>c ds. upstreams w a = Some c \<and> working c \<and> out = map Ok ds \<and> concat ds @ underway c = b)"

definition client_ok :: "echo_conn world \<Rightarrow> lab \<Rightarrow> (uuid \<Rightarrow> bytes) \<Rightarrow> uuid \<Rightarrow> bool" where
  "client_ok w s bs u \<longleftrightarrow>
     \<not> l_ended s u \<and>
     (case sessions w u of
        None \<Rightarrow> l_unsent s u \<and> l_open s u = None \<and> l_heard s u = [] \<and> bs u = []
      | Some a \<Rightarrow> tied w a (l_open s u) \<and> hears w a (l_heard s u) (bs u))"

definition lab_ok :: "http_lib \<Rightarrow> string \<Rightarrow> echo_conn world \<Rightarrow> lab \<Rightarrow> (uuid \<Rightarrow> bytes) \<Rightarrow> bool" where
  "lab_ok lib key w s bs \<longleftrightarrow>
     session_header_law lib key \<and> plain_session_key key \<and> cfg_session_key (w_config w) = key \<and>
     0 < mailbox_cap w \<and> (\<forall>u. client_ok w s bs u) \<and>
     (\<forall>u u' a. sessions w u = Some a \<longrightarrow> sessions w u' = Some a \<longrightarrow> u = u')"

lemma lab_okD:
  assumes "lab_ok lib key w s bs"
  shows "session_header_law lib key" "plain_session_key key" "cfg_session_key (w_config w) = key"
    "0 < mailbox_cap w" "client_ok w s bs u" "\<not> l_ended s u"
    "sessions w u = Some a \<Longrightarrow> tied w a (l_open s u) \<and> hears w a (l_heard s u) (bs u)"
    "sessions w u = None \<Longrightarrow> l_unsent s u \<and> l_open s u = None \<and> l_heard s u = [] \<and> bs u = []"
    "sessions w u = Some a \<Longrightarrow> sessions w u' = Some a \<Longrightarrow> u = u'"
proof -
  show c: "client_ok w s bs u" for u using assms by (simp add: lab_ok_def)
  from c [of u] show "\<not> l_ended s u" by (simp add: client_ok_def)
  from c [of u] show "sessions w u = Some a \<Longrightarrow> tied w a (l_open s u) \<and> hears w a (l_heard s u) (bs u)"
    "sessions w u = None \<Longrightarrow> l_unsent s u \<and> l_open s u = None \<and> l_heard s u = [] \<and> bs u = []"
    by (simp_all add: client_ok_def)
qed (use assms in \<open>auto simp: lab_ok_def\<close>)

text \<open>A change confined to one session: \<open>opn\<close> is the stream that belongs to it.\<close>

definition confined :: "nat \<Rightarrow> nat option \<Rightarrow> 'u world \<Rightarrow> 'u world \<Rightarrow> bool" where
  "confined a opn w w' \<longleftrightarrow>
     frame_except a w w' \<and> next_stream w \<le> next_stream w' \<and>
     (\<forall>m < next_stream w. opn \<noteq> Some m \<longrightarrow> streams w' m = streams w m)"

lemma confined_other:
  assumes "confined a opn w w'" and "tied w a opn" and "c \<noteq> a" and "tied w c opn'"
  shows "tied w' c opn'" "upstreams w' c = upstreams w c"
proof -
  have f: "phase_of w' c = phase_of w c" "mail_of w' c = mail_of w c" "upstreams w' c = upstreams w c"
      "read_locks w' c = read_locks w c" "mailbox_cap w' = mailbox_cap w" "next_actor w' = next_actor w"
    using assms(1,3) by (simp_all add: confined_def frame_except_def)
  then show "upstreams w' c = upstreams w c" by simp
  have r: "ready w' c = ready w c" by (simp add: ready_def f)
  show "tied w' c opn'"
  proof (cases opn')
    case (Some n)
    then have n: "n < next_stream w" "streaming n c w" using assms(4) by (simp_all add: tied_def)
    moreover have "opn \<noteq> Some n"
    proof
      assume "opn = Some n"
      with assms(2) have "streaming n a w" by (simp add: tied_def)
      with n(2) assms(3) show False by (auto elim!: streamingE)
    qed
    ultimately have "streams w' n = streams w n" "n < next_stream w'" using assms(1) by (auto simp: confined_def)
    with n(2) assms(4) Some r f show ?thesis by (simp add: tied_def streaming_def)
  qed (use assms(4) r f in \<open>simp add: tied_def\<close>)
qed

lemma lab_change:
  assumes ok: "lab_ok lib key w s bs" and u: "sessions w u = Some a" and cf: "confined a (l_open s u) w w'"
    and new: "tied w' a (l_open s' u)" "hears w' a (l_heard s' u) b" "\<not> l_ended s' u"
    and rest: "\<And>u'. u' \<noteq> u \<Longrightarrow> l_unsent s' u' = l_unsent s u' \<and> l_open s' u' = l_open s u' \<and>
      l_heard s' u' = l_heard s u' \<and> l_ended s' u' = l_ended s u'"
  shows "lab_ok lib key w' s' (bs(u := b))"
proof -
  have f: "sessions w' = sessions w" "mailbox_cap w' = mailbox_cap w" "w_config w' = w_config w"
    using cf by (simp_all add: confined_def frame_except_def)
  have "client_ok w' s' (bs(u := b)) u'" for u'
  proof (cases "u' = u")
    case True
    with u new f show ?thesis by (simp add: client_ok_def)
  next
    case False
    show ?thesis
    proof (cases "sessions w u'")
      case None
      with False f rest lab_okD(5) [OF ok, of u'] show ?thesis by (simp add: client_ok_def)
    next
      case (Some c)
      have "c \<noteq> a" using lab_okD(9) [OF ok u] Some False by blast
      then have "tied w' c (l_open s u')" "upstreams w' c = upstreams w c"
        using lab_okD(7) [OF ok Some] lab_okD(7) [OF ok u] confined_other [OF cf] by blast+
      with lab_okD(7) [OF ok Some] Some False f rest lab_okD(6) [OF ok, of u'] show ?thesis
        by (simp add: client_ok_def hears_def)
    qed
  qed
  with ok show ?thesis unfolding lab_ok_def f by blast
qed

text \<open>The session a request of a client talks to.\<close>

lemma lab_resolve:
  assumes ok: "lab_ok lib key w s bs" and f: "sessions w u = None \<Longrightarrow> f"
  shows "\<exists>a w1. resolve echo_upstream f u w = Some (a, w1) \<and> sessions w1 u = Some a \<and>
    lab_ok lib key w1 s bs \<and> w_config w1 = w_config w"
proof (cases "sessions w u")
  case (Some a)
  with lab_okD(7) [OF ok Some] resolve_live [of w u a echo_upstream f] ok show ?thesis by (auto simp: tied_def)
next
  case None
  let ?a = "next_actor w"
  have free: "case sessions w u of None \<Rightarrow> True | Some a \<Rightarrow> \<not> is_alive w a" using None by simp
  have c: "c_connect echo_upstream ?a (upstream (w_config w)) = Ok echo_accept" by (simp add: echo_upstream_def)
  from resolve_new [OF free c lab_okD(4) [OF ok]] f [OF None] obtain w1 where
      1: "resolve echo_upstream f u w = Some (?a, w1)" "ready w1 ?a" "upstreams w1 = (upstreams w)(?a \<mapsto> echo_accept)"
        "sessions w1 = (sessions w)(u \<mapsto> ?a)" "w_config w1 = w_config w" "mailbox_cap w1 = mailbox_cap w"
        "read_locks w1 = (read_locks w)(?a := None)" "next_actor w1 = Suc ?a" "streams w1 = streams w"
        "next_stream w1 = next_stream w"
        "\<forall>c. c \<noteq> ?a \<longrightarrow> phase_of w1 c = phase_of w c \<and> mail_of w1 c = mail_of w c"
    by auto
  have old: "tied w1 c opn \<and> hears w1 c out b" if "tied w c opn" "hears w c out b" for c opn out b
  proof -
    have "c \<noteq> ?a" using that(1) by (simp add: tied_def)
    with 1(11) have "phase_of w1 c = phase_of w c" "mail_of w1 c = mail_of w c" by simp_all
    with that \<open>c \<noteq> ?a\<close> show ?thesis
      by (auto simp: tied_def hears_def ready_def streaming_def 1(3,6-10) split: option.splits)
  qed
  have "client_ok w1 s bs u'" for u'
  proof (cases "u' = u")
    case True
    with 1 lab_okD(6,8) [OF ok] None show ?thesis
      by (simp add: client_ok_def tied_def hears_def working_def underway_def echo_accept_def)
  next
    case False
    with lab_okD(6,8) [OF ok, of u'] lab_okD(7) [OF ok, of u'] old show ?thesis
      by (cases "sessions w u'") (auto simp: client_ok_def 1(4))
  qed
  moreover have "u1 = u2" if "sessions w1 u1 = Some c" "sessions w1 u2 = Some c" for u1 u2 c
    using that 1(4) lab_okD(7,9) [OF ok] by (auto simp: tied_def split: if_splits)
  ultimately have "lab_ok lib key w1 s bs" using ok 1(5,6) unfolding lab_ok_def by auto
  with 1(1,4,5) show ?thesis by auto
qed

section \<open>One event\<close>

text \<open>What an event may do to the streams.\<close>

lemma confined_trans:
  "confined a opn w w1 \<Longrightarrow> confined a opn w1 w2 \<Longrightarrow> confined a opn w w2"
  by (auto simp: confined_def intro: frame_except_trans)

lemma confined_fields:
  "frame_except a w w' \<Longrightarrow> streams w' = streams w \<Longrightarrow> next_stream w' = next_stream w \<Longrightarrow> confined a opn w w'"
  by (simp add: confined_def)

lemma tied_same_streams:
  assumes "tied w a opn" and "frame_except a w w'" and "ready w' a" and "streams w' = streams w"
    and "next_stream w' = next_stream w" and "read_locks w' = read_locks w"
  shows "tied w' a opn"
  using assms by (auto simp: tied_def streaming_def frame_except_def split: option.splits)

lemma lab_writes:
  assumes ok: "lab_ok (n_lib net) key (p_net (l_pump s)) s bs" and key: "session_key config = key"
    and chunked: "concat (n_rechunk net chunk) = chunk" "word_of_nat (length chunk) \<noteq> (0 :: usize)"
    and b: "\<And>f u. is_ok (create_write_request (n_lib net) config sid chunk f u)"
  shows "\<exists>s'. lab_step net config (Writes sid chunk) s = Some s' \<and>
    lab_ok (n_lib net) key (p_net (l_pump s')) s' (bs(sid := bs sid @ chunk))"
proof -
  let ?w = "p_net (l_pump s)" and ?f = "l_unsent s sid" and ?u = "n_uuid net (p_uuids (l_pump s))"
  let ?m = "if ?f then Post else Patch"
  obtain req where req: "create_write_request (n_lib net) config sid chunk ?f ?u = Ok req"
    using b [of ?f ?u] by (cases "create_write_request (n_lib net) config sid chunk ?f ?u") auto
  note head = write_request_head [OF lab_okD(1,2) [OF ok] key req, of "n_rechunk net"]
  have "?f" if "sessions ?w sid = None" using lab_okD(8) [OF ok that] by simp
  from lab_resolve [OF ok this] obtain a w1 where r: "resolve echo_upstream ?f sid ?w = Some (a, w1)"
      "sessions w1 sid = Some a" "lab_ok (n_lib net) key w1 s bs" "w_config w1 = w_config ?w" by blast
  note t = lab_okD(7) [OF r(3,2)]
  then obtain c ds where c: "upstreams w1 a = Some c" "working c" "l_heard s sid = map Ok ds"
      "concat ds @ underway c = bs sid" and rd: "ready w1 a"
    by (auto simp: hears_def tied_def)
  from echo_write_seq [OF c(2), of "n_rechunk net chunk"] chunked(1) obtain c' where
      c': "write_seq echo_upstream c (n_rechunk net chunk) = Some c'" "working c'" "underway c' = underway c @ chunk" by auto
  have r1: "resolve echo_upstream (?m \<noteq> Patch) sid ?w = Some (a, w1)" using r(1) by (cases ?f) simp_all
  have m: "?m \<noteq> Get" by simp
  have ne: "n_rechunk net chunk \<noteq> []" using chunked by auto
  from handle_write_ok [OF head(1) [folded lab_okD(3) [OF ok]] m r1 rd c(1) head(2) ne c'(1), of 0] chunked
  obtain w' where w': "handle_request (n_lib net) echo_upstream 0 (to_server (n_rechunk net) req) ?w = (write_response, w')"
      "ready w' a" "frame_except a w1 w'" "upstreams w' = (upstreams w1)(a \<mapsto> c')" "streams w' = streams w1"
      "read_locks w' = read_locks w1" "next_stream w' = next_stream w1"
    by auto
  let ?p = "(l_pump s)\<lparr>p_uuids := Suc (p_uuids (l_pump s)), p_net := w'\<rparr>"
  let ?s = "s\<lparr>l_pump := ?p, l_unsent := (l_unsent s)(sid := False), l_ended := (l_ended s)(sid := False)\<rparr>"
  have "pump_outgoing_loop (writer_env net echo_upstream) config sid ?f [chunk] (l_pump s) = (Ok (), ?p)"
    using req w'(1) by (simp add: writer_env_def send_request_def server_send_def write_response_def)
  then have st: "lab_step net config (Writes sid chunk) s = Some ?s"
    using lab_okD(6) [OF ok] by (simp add: is_ok_def)
  have "hears w' a (l_heard ?s sid) (bs sid @ chunk)" using c c' w'(4) by (auto simp: hears_def)
  moreover have "tied w' a (l_open ?s sid)" using tied_same_streams [OF _ w'(3,2,5,7,6)] t by simp
  ultimately have "lab_ok (n_lib net) key w' ?s (bs(sid := bs sid @ chunk))"
    by (intro lab_change [OF r(3,2) confined_fields [OF w'(3,5,7)]]) simp_all
  with st show ?thesis by (intro exI [of _ ?s]) simp
qed

lemma lab_fetches:
  assumes ok: "lab_ok (n_lib net) key (p_net (l_pump s)) s bs" and key: "session_key config = key"
    and b: "\<And>u. is_ok (create_read_request (n_lib net) config sid u)" and none: "l_open s sid = None"
  shows "\<exists>s' n. lab_step net config (Fetches sid) s = Some s' \<and> l_open s' sid = Some n \<and>
    (\<exists>st. streams (p_net (l_pump s')) n = Some st \<and> st_first st) \<and>
    (\<forall>a. sessions (p_net (l_pump s)) sid = Some a \<longrightarrow>
       sessions (p_net (l_pump s')) sid = Some a \<and> upstreams (p_net (l_pump s')) a = upstreams (p_net (l_pump s)) a) \<and>
    lab_ok (n_lib net) key (p_net (l_pump s')) s' bs"
proof -
  let ?w = "p_net (l_pump s)" and ?u = "n_uuid net (p_uuids (l_pump s))"
  obtain req where req: "create_read_request (n_lib net) config sid ?u = Ok req"
    using b [of ?u] by (cases "create_read_request (n_lib net) config sid ?u") auto
  have head: "parse_head (n_lib net) (cfg_session_key (w_config ?w)) (to_server (\<lambda>_. []) req) = Ok (Get, sid)"
    using read_request_head [OF lab_okD(1,2) [OF ok] key req] lab_okD(3) [OF ok] by simp
  from lab_resolve [OF ok, of sid True] obtain a w1 where r: "resolve echo_upstream True sid ?w = Some (a, w1)"
      "sessions w1 sid = Some a" "lab_ok (n_lib net) key w1 s bs" "w_config w1 = w_config ?w" by blast
  have old: "a = b \<and> w1 = ?w" if "sessions ?w sid = Some b" for b
    using r(1) resolve_live [OF that, of echo_upstream True] lab_okD(7) [OF ok that] by (simp add: tied_def)
  from lab_okD(7) [OF r(3,2)] none have t: "ready w1 a" "read_locks w1 a = None" "a < next_actor w1"
      and h: "hears w1 a (l_heard s sid) (bs sid)"
    by (simp_all add: tied_def)
  let ?n = "next_stream w1"
  from ask_read_free [OF t(1,2), of echo_upstream 0] obtain w2 where w2:
      "ask echo_upstream 0 a SessionRead w1 = (Some (ReadReply (Some ?n)), w2)" "ready w2 a"
      "frame_except a w1 w2" "upstreams w2 = upstreams w1" "streams w2 = (streams w1)(?n \<mapsto> fresh_stream a)"
      "next_stream w2 = Suc ?n"
    by blast
  have hr: "handle_request (n_lib net) echo_upstream 0 (to_server (\<lambda>_. []) req) ?w = (read_response ?n, w2)"
    using w2(1) by (simp add: handle_read_resolved [OF head r(1) t(1)] handle_read_request_def)
  let ?s = "s\<lparr>l_pump := (l_pump s)\<lparr>p_uuids := Suc (p_uuids (l_pump s)), p_net := w2\<rparr>, l_open := (l_open s)(sid \<mapsto> ?n)\<rparr>"
  have st: "lab_step net config (Fetches sid) s = Some ?s"
    using lab_okD(6) [OF ok] none req hr by (simp add: fetch_def read_response_def is_success_def)
  have "tied w2 a (Some ?n)" using w2 t(3) by (simp add: tied_def streaming_def frame_except_def)
  moreover have "hears w2 a (l_heard s sid) (bs sid)" using h w2(4) by (simp add: hears_def)
  moreover have "confined a (l_open s sid) w1 w2" using w2 by (simp add: confined_def)
  ultimately have "lab_ok (n_lib net) key w2 ?s (bs(sid := bs sid))"
    using lab_okD(6) [OF ok] by (intro lab_change [OF r(3,2)]) simp_all
  moreover have "\<forall>b. sessions ?w sid = Some b \<longrightarrow> sessions w2 sid = Some b \<and> upstreams w2 b = upstreams ?w b"
    using old r(2) w2(3,4) by (auto simp: frame_except_def)
  ultimately show ?thesis using st w2(5) by (intro exI [of _ ?s] exI [of _ ?n]) simp
qed

lemma poll_confined:
  assumes st: "streaming n a w" and p: "stream_poll conn n w = (r, w1)"
  shows "\<forall>m. m \<noteq> n \<longrightarrow> streams w1 m = streams w m \<and> streams (session_works conn n w1) m = streams w m"
    "next_stream w1 = next_stream w" "next_stream (session_works conn n w1) = next_stream w"
proof -
  from st obtain s where s: "ready w a" "streams w n = Some s" "st_reader s = a" "st_session s = a"
      "st_tell s = None" "\<not> st_aborted s" by (rule streamingE)
  then obtain ss where ss: "phase_of w a = Running ss" "mail_of w a = []" "0 < mailbox_cap w" by (auto elim: readyE)
  have one: "(\<forall>m. m \<noteq> n \<longrightarrow> streams w1 m = streams w m) \<and> next_stream w1 = next_stream w"
    using p by (auto simp: stream_poll_def stream_end_def stream_tell_def enqueue_def set_actor_def Let_def
        split: option.splits if_splits prod.splits poll.splits sum.splits)
  have two: "streams (session_works conn n w1) = streams w1 \<and> next_stream (session_works conn n w1) = next_stream w1"
  proof (cases "streams w1 n")
    case None
    then show ?thesis by (simp add: session_works_def)
  next
    case (Some s1)
    have s1: "st_session s1 = a \<and> phase_of w1 a = Running ss \<and> mail_of w1 a \<in> {[], [(SessionResetIdleTimeout, None)]}"
      using p s Some ss by (auto simp: stream_poll_def stream_end_def stream_tell_def Let_def
          split: option.splits if_splits prod.splits poll.splits sum.splits)
    then show ?thesis using Some run_actor_quiet [of w1 a ss conn] run_actor_reset(7,9) [of w1 a ss conn]
      by (auto simp: session_works_def)
  qed
  from one two show "\<forall>m. m \<noteq> n \<longrightarrow> streams w1 m = streams w m \<and> streams (session_works conn n w1) m = streams w m"
    "next_stream w1 = next_stream w" "next_stream (session_works conn n w1) = next_stream w" by auto
qed

lemma lab_polled:
  assumes ok: "lab_ok lib key (p_net (l_pump s)) s bs" and n: "l_open s sid = Some n"
  shows "\<exists>s'. lab_step net config (Polled sid) s = Some s' \<and> lab_ok lib key (p_net (l_pump s')) s' bs \<and>
    (\<forall>a c. sessions (p_net (l_pump s)) sid = Some a \<longrightarrow> upstreams (p_net (l_pump s)) a = Some c \<longrightarrow>
       (\<exists>c'. sessions (p_net (l_pump s')) sid = Some a \<and> upstreams (p_net (l_pump s')) a = Some c' \<and>
          to_echo c' = to_echo c \<and> (from_echo c \<noteq> [] \<longrightarrow> length (underway c') < length (underway c))))"
proof -
  let ?w = "p_net (l_pump s)"
  from n lab_okD(8) [OF ok, of sid] obtain a where a: "sessions ?w sid = Some a" by (cases "sessions ?w sid") auto
  from lab_okD(7) [OF ok a] n obtain c ds where t: "n < next_stream ?w" "streaming n a ?w" "a < next_actor ?w"
      and c: "upstreams ?w a = Some c" "working c" "l_heard s sid = map Ok ds" "concat ds @ underway c = bs sid"
    by (auto simp: tied_def hears_def)
  obtain x c' where rd: "c_read_buf echo_upstream c READ_CAPACITY = (x, c')" by fastforce
  obtain r w1 where p: "stream_poll echo_upstream n ?w = (r, w1)" by fastforce
  note rdc = echo_read [OF c(2) rd] poll_confined [OF t(2) p]
  have cap: "0 < READ_CAPACITY" by (simp add: READ_CAPACITY_def)
  let ?w2 = "session_works echo_upstream n w1"
  from poll_cases [OF t(2) c(1) rd p] consider
      (over) "r = Ready None" "\<forall>bs. x = Ready (Ok bs) \<longrightarrow> bs = []" "stream_over a w1" "frame_except a ?w w1"
        "upstreams w1 = (upstreams ?w)(a \<mapsto> c')"
    | (wait) "r = Pending" "x = Pending" "streaming n a ?w2" "frame_except a ?w ?w2" "upstreams ?w2 = (upstreams ?w)(a \<mapsto> c')"
    | (data) b where "b \<noteq> []" "r = Ready (Some (DataFrame b))" "x = Ready (Ok b)" "streaming n a ?w2"
        "frame_except a ?w ?w2" "upstreams ?w2 = (upstreams ?w)(a \<mapsto> c')"
    by blast
  then show ?thesis
  proof cases
    case over
    from rdc(2) [OF cap] over(2) have cc: "c' = c" "from_echo c = []" by auto
    let ?s = "s\<lparr>l_pump := (l_pump s)\<lparr>p_net := w1\<rparr>, l_open := (l_open s)(sid := None)\<rparr>"
    have "tied w1 a None" using over(3,4) t(3) by (simp add: tied_def stream_over_def frame_except_def)
    moreover have "hears w1 a (l_heard s sid) (bs sid)" using c cc over(5) by (auto simp: hears_def)
    moreover have "confined a (l_open s sid) ?w w1" using rdc(3,4) over(4) n by (simp add: confined_def)
    ultimately have "lab_ok lib key w1 ?s (bs(sid := bs sid))"
      using lab_okD(6) [OF ok] by (intro lab_change [OF ok a]) simp_all
    moreover have "lab_step net config (Polled sid) s = Some ?s" using n lab_okD(6) [OF ok] p over(1) by simp
    moreover have "sessions w1 sid = Some a" using a over(4) by (simp add: frame_except_def)
    ultimately show ?thesis using a c(1) cc over(5) by (intro exI [of _ ?s]) simp
  next
    case wait
    from rdc(2) [OF cap] wait(2) have cc: "c' = c" "from_echo c = []" by auto
    let ?s = "s\<lparr>l_pump := (l_pump s)\<lparr>p_net := ?w2\<rparr>\<rparr>"
    have "tied ?w2 a (Some n)" using wait(3,4) t rdc(5)
      by (simp add: tied_def frame_except_def) (simp add: streaming_def)
    moreover have "hears ?w2 a (l_heard s sid) (bs sid)" using c cc wait(5) by (auto simp: hears_def)
    moreover have "confined a (l_open s sid) ?w ?w2" using rdc(3,5) wait(4) n by (simp add: confined_def)
    ultimately have "lab_ok lib key ?w2 ?s (bs(sid := bs sid))"
      using lab_okD(6) [OF ok] n by (intro lab_change [OF ok a]) simp_all
    moreover have "lab_step net config (Polled sid) s = Some ?s" using n lab_okD(6) [OF ok] p wait(1) by simp
    moreover have "sessions ?w2 sid = Some a" using a wait(4) by (simp add: frame_except_def)
    ultimately show ?thesis using a c(1) cc wait(5) by (intro exI [of _ ?s]) simp
  next
    case data
    from rdc(2) [OF cap] data(1,3) have cc: "underway c = b @ underway c'" "to_echo c' = to_echo c" by auto
    let ?s = "s\<lparr>l_pump := (l_pump s)\<lparr>p_net := ?w2\<rparr>, l_heard := (l_heard s)(sid := l_heard s sid @ [Ok b]),
      l_ended := (l_ended s)(sid := False)\<rparr>"
    have "tied ?w2 a (Some n)" using data(4,5) t rdc(5)
      by (simp add: tied_def frame_except_def) (simp add: streaming_def)
    moreover have "hears ?w2 a (l_heard s sid @ [Ok b]) (bs sid)"
      using c cc rdc(1) [OF cap] data(6) unfolding hears_def
      by (intro exI [of _ c'] exI [of _ "ds @ [b]"]) simp
    moreover have "confined a (l_open s sid) ?w ?w2" using rdc(3,5) data(5) n by (simp add: confined_def)
    ultimately have "lab_ok lib key ?w2 ?s (bs(sid := bs sid))"
      using lab_okD(6) [OF ok] n by (intro lab_change [OF ok a]) simp_all
    moreover have "lab_step net config (Polled sid) s = Some ?s"
      using n lab_okD(6) [OF ok] p data(1,2) by (simp add: chan_send_def)
    moreover have "sessions ?w2 sid = Some a" using a data(5) by (simp add: frame_except_def)
    ultimately show ?thesis using a c(1) cc data(1,6) by (intro exI [of _ ?s]) simp
  qed
qed

lemma lab_echoes:
  assumes ok: "lab_ok lib key (p_net (l_pump s)) s bs" and c: "upstreams (p_net (l_pump s)) a = Some c"
  shows "\<exists>s'. lab_step net config (EchoTurn a) s = Some s' \<and> lab_ok lib key (p_net (l_pump s')) s' bs \<and>
    upstreams (p_net (l_pump s')) a = Some (echo_turn c) \<and> sessions (p_net (l_pump s')) = sessions (p_net (l_pump s)) \<and>
    l_heard s' = l_heard s"
proof -
  let ?w = "p_net (l_pump s)"
  let ?w' = "?w\<lparr>upstreams := (upstreams ?w)(a \<mapsto> echo_turn c)\<rparr>"
  let ?s = "s\<lparr>l_pump := (l_pump s)\<lparr>p_net := ?w'\<rparr>\<rparr>"
  have t: "tied ?w' b opn" if "tied ?w b opn" for b opn
    using that c by (auto simp: tied_def streaming_def ready_def split: option.splits)
  have h: "hears ?w' b out x" if h: "hears ?w b out x" for b out x
  proof (cases "b = a")
    case True
    with h c obtain ds where "working c" "out = map Ok ds" "concat ds @ underway c = x" by (auto simp: hears_def)
    with True echo_turn_keeps [of c] show ?thesis by (auto simp: hears_def)
  next
    case False
    with h show ?thesis by (simp add: hears_def)
  qed
  have "client_ok ?w' ?s bs u" for u
    using lab_okD(6,8) [OF ok, of u] lab_okD(7) [OF ok, of u] t h by (cases "sessions ?w u") (auto simp: client_ok_def)
  with ok have "lab_ok lib key ?w' ?s bs" by (auto simp: lab_ok_def)
  with c show ?thesis by (intro exI [of _ ?s]) simp
qed

section \<open>All that can happen\<close>

definition fair_net :: "'z test_net_scheme \<Rightarrow> domain_fronting \<Rightarrow> bool" where
  "fair_net net config \<longleftrightarrow>
     (\<forall>b. concat (n_rechunk net b) = b) \<and>
     (\<forall>sid x f u. is_ok (create_write_request (n_lib net) config sid x f u)) \<and>
     (\<forall>sid u. is_ok (create_read_request (n_lib net) config sid u))"

lemma lab_step_ok:
  assumes ok: "lab_ok (n_lib net) (session_key config) (p_net (l_pump s)) s bs" and net: "fair_net net config"
    and e: "lab_event_ok e" and st: "lab_step net config e s = Some s'"
  shows "lab_ok (n_lib net) (session_key config) (p_net (l_pump s')) s' (\<lambda>u. bs u @ wrote u e)"
proof (cases e)
  case (Writes sid chunk)
  have "bs(sid := bs sid @ chunk) = (\<lambda>u. bs u @ wrote u e)" by (auto simp: Writes)
  with lab_writes [OF ok refl, of chunk sid] net e Writes st show ?thesis by (auto simp: fair_net_def)
next
  case (Fetches sid)
  with st have "l_open s sid = None" by (auto split: if_splits)
  with lab_fetches [OF ok refl _ this] net st Fetches show ?thesis by (auto simp: fair_net_def)
next
  case (Polled sid)
  with st obtain n where "l_open s sid = Some n" by (auto split: option.splits)
  with lab_polled [OF ok this, of net config] st Polled show ?thesis by auto
next
  case (EchoTurn a)
  with st obtain c where "upstreams (p_net (l_pump s)) a = Some c" by (auto split: option.splits)
  with lab_echoes [OF ok this, of net config] st EchoTurn show ?thesis by auto
qed

lemma lab_run_ok:
  assumes "lab_ok (n_lib net) (session_key config) (p_net (l_pump s)) s bs" and "fair_net net config"
    and "list_all lab_event_ok es" and "run (lab_step net config) es s = Some s'"
  shows "lab_ok (n_lib net) (session_key config) (p_net (l_pump s')) s' (\<lambda>u. bs u @ written u es)"
  using assms
proof (induction es arbitrary: s bs)
  case Nil
  then show ?case by (simp add: written_def)
next
  case (Cons e es)
  then obtain s1 where s1: "lab_step net config e s = Some s1" "run (lab_step net config) es s1 = Some s'"
    by (auto split: option.splits)
  have "lab_event_ok e" "list_all lab_event_ok es" using Cons.prems(3) by simp_all
  from Cons.IH [OF lab_step_ok [OF Cons.prems(1,2) this(1) s1(1)] Cons.prems(2) this(2) s1(2)]
  show ?case by (simp add: written_def)
qed

lemma lab_start_ok:
  assumes "session_header_law lib key" and "plain_session_key key" and "cfg_session_key cfg = key" and "0 < cap"
  shows "lab_ok lib key (p_net (l_pump (lab_start cap cfg))) (lab_start cap cfg) (\<lambda>_. [])"
  using assms by (simp add: lab_ok_def lab_start_def with_connector_def client_ok_def)

text \<open>What the connection of a client still owes it.\<close>

definition owed :: "uuid \<Rightarrow> lab \<Rightarrow> bytes" where
  "owed sid s =
     (case Option.bind (sessions (p_net (l_pump s)) sid) (upstreams (p_net (l_pump s))) of
        None \<Rightarrow> [] | Some c \<Rightarrow> underway c)"

lemma lab_heard:
  assumes "lab_ok lib key (p_net (l_pump s)) s bs"
  shows "\<exists>ds. l_heard s sid = map Ok ds \<and> concat ds @ owed sid s = bs sid"
proof (cases "sessions (p_net (l_pump s)) sid")
  case None
  with lab_okD(8) [OF assms None] show ?thesis by (simp add: owed_def)
next
  case (Some a)
  with lab_okD(7) [OF assms Some] show ?thesis by (auto simp: owed_def hears_def)
qed

text \<open>Without another write, a client can be given all it is owed.\<close>

definition no_write :: "lab_event \<Rightarrow> bool" where
  "no_write e \<longleftrightarrow> (\<forall>u chunk. e \<noteq> Writes u chunk)"

lemma lab_settles:
  assumes "lab_ok (n_lib net) (session_key config) (p_net (l_pump s)) s bs" and "fair_net net config"
  shows "\<exists>es s'. run (lab_step net config) es s = Some s' \<and> list_all no_write es \<and> owed sid s' = []"
proof (cases "sessions (p_net (l_pump s)) sid")
  case None
  then show ?thesis by (intro exI [of _ "[]"]) (simp add: owed_def)
next
  case (Some a)
  from lab_okD(7) [OF assms(1) Some] obtain c where c: "upstreams (p_net (l_pump s)) a = Some c"
    by (auto simp: hears_def)
  from assms Some c show ?thesis
  proof (induction "length (underway c) + length (to_echo c)" arbitrary: s c rule: less_induct)
    case less
    have wk: "working c" using lab_okD(7) [OF less.prems(1,3)] less.prems(4) by (auto simp: hears_def)
    have step: ?case
      if e: "lab_step net config e s = Some s1" "no_write e" "lab_ok (n_lib net) (session_key config) (p_net (l_pump s1)) s1 bs"
        and s1: "sessions (p_net (l_pump s1)) sid = Some a" "upstreams (p_net (l_pump s1)) a = Some c1"
        and lt: "length (underway c1) + length (to_echo c1) < length (underway c) + length (to_echo c)" for e s1 c1
    proof -
      from less.hyps [OF lt e(3) less.prems(2) s1] obtain es s' where
          "run (lab_step net config) es s1 = Some s'" "list_all no_write es" "owed sid s' = []" by blast
      with e(1,2) show ?thesis by (intro exI [of _ "e # es"] exI [of _ s']) simp
    qed
    have polled: "\<exists>e s1 c1. lab_step net config e s = Some s1 \<and> no_write e \<and>
        lab_ok (n_lib net) (session_key config) (p_net (l_pump s1)) s1 bs \<and>
        sessions (p_net (l_pump s1)) sid = Some a \<and> upstreams (p_net (l_pump s1)) a = Some c1 \<and>
        length (underway c1) + length (to_echo c1) < length (underway c) + length (to_echo c)"
      if ok: "lab_ok (n_lib net) (session_key config) (p_net (l_pump s)) s bs" and n: "l_open s sid = Some n"
        and s: "sessions (p_net (l_pump s)) sid = Some a" "upstreams (p_net (l_pump s)) a = Some c" "from_echo c \<noteq> []"
      for s n
    proof -
      from lab_polled [OF ok n, of net config] s show ?thesis by (force simp: no_write_def)
    qed
    show ?case
    proof (cases "to_echo c = []")
      case False
      from lab_echoes [OF less.prems(1,4), of net config] obtain s1 where
          s1: "lab_step net config (EchoTurn a) s = Some s1" "lab_ok (n_lib net) (session_key config) (p_net (l_pump s1)) s1 bs"
            "upstreams (p_net (l_pump s1)) a = Some (echo_turn c)" "sessions (p_net (l_pump s1)) = sessions (p_net (l_pump s))"
        by blast
      have "underway (echo_turn c) = underway c" "length (to_echo (echo_turn c)) < length (to_echo c)"
        using echo_turn_keeps [OF wk] False by (simp_all add: echo_turn_working [OF wk] ECHO_BUFFER_def)
      with s1 less.prems(3) show ?thesis by (intro step [OF s1(1) _ s1(2) _ s1(3)]) (simp_all add: no_write_def)
    next
      case True
      show ?thesis
      proof (cases "from_echo c = []")
        case empty: True
        with True less.prems(3,4) show ?thesis by (intro exI [of _ "[]"] exI [of _ s]) (simp add: owed_def underway_def)
      next
        case data: False
        show ?thesis
        proof (cases "l_open s sid")
          case (Some n)
          from polled [OF less.prems(1) Some less.prems(3,4) data] step show ?thesis by blast
        next
          case None
          have b: "is_ok (create_read_request (n_lib net) config sid u)" for u
            using less.prems(2) by (simp add: fair_net_def)
          from lab_fetches [OF less.prems(1) refl b None] less.prems(3,4) obtain s1 n where
              s1: "lab_step net config (Fetches sid) s = Some s1" "l_open s1 sid = Some n"
                "lab_ok (n_lib net) (session_key config) (p_net (l_pump s1)) s1 bs"
                "sessions (p_net (l_pump s1)) sid = Some a" "upstreams (p_net (l_pump s1)) a = Some c" by force
          from polled [OF s1(3,2,4,5) data] obtain e s2 c2 where s2: "lab_step net config e s1 = Some s2" "no_write e"
              "lab_ok (n_lib net) (session_key config) (p_net (l_pump s2)) s2 bs"
              "sessions (p_net (l_pump s2)) sid = Some a" "upstreams (p_net (l_pump s2)) a = Some c2"
              "length (underway c2) + length (to_echo c2) < length (underway c) + length (to_echo c)" by blast
          from less.hyps [OF s2(6,3) less.prems(2) s2(4,5)] obtain es s' where
              "run (lab_step net config) es s2 = Some s'" "list_all no_write es" "owed sid s' = []" by blast
          with s1(1) s2(1,2) show ?thesis
            by (intro exI [of _ "Fetches sid # e # es"] exI [of _ s']) (simp add: no_write_def)
        qed
      qed
    qed
  qed
qed

text \<open>C4: clients, server and upstream together. An echo server is the upstream of any number of
  clients, whose pumps, the server and the echo tasks take turns in any order: a client's
  first \<^verbatim>\<open>GET\<close> may come before or after its first write, bodies are polled when there is
  something to read and when there is not, and the echo tasks lag behind as they like (a
  turn is a request up to the head of its response, a poll of a body, or a read and write of
  an echo task; chunks are not empty). As
  long as the HTTP connections hold and no timeout passes, in every state that can arise no
  pump has ended, what each client has heard is the beginning of what it has itself
  written, in order and once, the rest is on its way in its own connection, and without
  another write the client can be given all of the rest.\<close>

theorem clients_hear_their_echo:
  assumes "0 < cap" and "session_header_law (n_lib net) (session_key config)" and "plain_session_key (session_key config)"
    and "cfg_session_key cfg = session_key config" and "fair_net net config"
    and "list_all lab_event_ok es" and "run (lab_step net config) es (lab_start cap cfg) = Some s"
  shows "\<not> l_ended s sid \<and>
     (\<exists>ds. l_heard s sid = map Ok ds \<and> concat ds @ owed sid s = written sid es) \<and>
     (\<exists>fs s' ds. run (lab_step net config) fs s = Some s' \<and> list_all no_write fs \<and>
        l_heard s' sid = map Ok ds \<and> concat ds = written sid es)"
proof -
  have ok: "lab_ok (n_lib net) (session_key config) (p_net (l_pump s)) s (\<lambda>u. written u es)"
    using lab_run_ok [OF lab_start_ok [OF assms(2,3,4,1)] assms(5,6,7)] by simp
  from lab_settles [OF ok assms(5), of sid] obtain fs s' where
      fs: "run (lab_step net config) fs s = Some s'" "list_all no_write fs" "owed sid s' = []" by blast
  have q: "lab_event_ok e \<and> wrote u e = []" if "no_write e" for e u
    using that by (cases e) (auto simp: no_write_def)
  with fs(2) have "list_all lab_event_ok fs" "written u fs = []" for u
    by (auto simp: list_all_iff written_def)
  from lab_run_ok [OF ok assms(5) this(1) fs(1)] this(2)
  have "lab_ok (n_lib net) (session_key config) (p_net (l_pump s')) s' (\<lambda>u. written u es)" by simp
  from lab_heard [OF this, of sid] fs(3) lab_heard [OF ok, of sid] lab_okD(6) [OF ok] fs(1,2) show ?thesis by auto
qed

definition plain_net :: "'z test_net_scheme \<Rightarrow> bool" where
  "plain_net net \<longleftrightarrow> n_lib net = plain_http_lib \<and> (\<forall>b. concat (n_rechunk net b) = b)"

lemma plain_builders:
  "is_ok (create_write_request plain_http_lib config sid x f u)" "is_ok (create_read_request plain_http_lib config sid u)"
  by (simp_all add: create_write_request_def create_read_request_def plain_http_lib_def)

lemma plain_fair: "plain_net net \<Longrightarrow> fair_net net config"
  by (simp add: plain_net_def fair_net_def plain_builders)

definition demo_net :: test_net where
  "demo_net = \<lparr>n_lib = plain_http_lib, n_uuid = word_of_nat, n_rechunk = (\<lambda>b. [b])\<rparr>"

text \<open>
  A client that asks before it writes: its body is polled too early, and the echo of its
  second chunk is still to come.
\<close>

definition demo_lab :: "lab_event list" where
  "demo_lab = [Fetches 3, Polled 3, Writes 3 [1, 2], EchoTurn 0, Polled 3, Writes 3 [4]]"

theorem clients_hear_their_echo_witness:
  "\<exists>s. run (lab_step demo_net demo_config) demo_lab (lab_start 1 (Config_new local_addr 5 5)) = Some s \<and>
     concat (map projr (l_heard s 3)) = [1, 2] \<and> owed 3 s = [4] \<and>
     (\<exists>fs s' ds. run (lab_step demo_net demo_config) fs s = Some s' \<and> l_heard s' 3 = map Ok ds \<and> concat ds = [1, 2, 4])"
proof -
  let ?r = "run (lab_step demo_net demo_config) demo_lab (lab_start 1 (Config_new local_addr 5 5))"
  have "\<not> Option.is_none ?r" by code_simp
  then have s: "?r = Some (the ?r)" by (simp add: Option.is_none_def)
  have e: "list_all lab_event_ok demo_lab" by code_simp
  have w: "written 3 demo_lab = [1, 2, 4]" by code_simp
  have o: "owed 3 (the ?r) = [4]" by code_simp
  have net: "fair_net demo_net demo_config" by (simp add: plain_fair plain_net_def demo_net_def)
  have law: "session_header_law (n_lib demo_net) (session_key demo_config)" "plain_session_key (session_key demo_config)"
    "cfg_session_key (Config_new local_addr 5 5) = session_key demo_config"
    by (simp_all add: demo_net_def demo_config_key plain_http_lib_law default_session_key_plain Config_new_def)
  have "0 < (1 :: nat)" by simp
  note c = clients_hear_their_echo [OF this law net e s, of 3, unfolded w o]
  then obtain ds where "l_heard (the ?r) 3 = map Ok ds" "concat ds @ [4] = [1, 2, 4]" by blast
  moreover from this(2) have "concat ds = [1, 2]" by (simp add: append_eq_Cons_conv)
  ultimately have "concat (map projr (l_heard (the ?r) 3)) = [1, 2]" by (simp add: comp_def)
  with s o c show ?thesis by (intro exI [of _ "the ?r"]) blast
qed

end
