(* ===== verification/Tls_Stream.thy ===== *)
theory Tls_Stream
  imports Prelude
begin

text \<open>
  \<^verbatim>\<open>src/tls_stream.rs\<close>: opening a TLS stream with SNI, and its reading and writing, which
  are those of the TLS library's stream. The library is a parameter: \<open>tl_server_name\<close>
  is \<^verbatim>\<open>ServerName::try_from\<close>, \<open>tl_connect\<close> is \<^verbatim>\<open>TlsConnector::connect\<close>, and \<open>tl_io\<close> its
  stream's \<^verbatim>\<open>AsyncRead\<close> and \<^verbatim>\<open>AsyncWrite\<close>.
\<close>

section \<open>AsyncRead and AsyncWrite\<close>

text \<open>
  A poll works on the state \<open>'s\<close> of a stream. A read is given the room left in the buffer
  and yields the bytes put into it.
\<close>

record 's async_io =
  io_poll_read :: "'s \<Rightarrow> nat \<Rightarrow> (io_error, bytes) result poll \<times> 's"
  io_poll_write :: "'s \<Rightarrow> bytes \<Rightarrow> (io_error, usize) result poll \<times> 's"
  io_poll_flush :: "'s \<Rightarrow> (io_error, unit) result poll \<times> 's"
  io_poll_shutdown :: "'s \<Rightarrow> (io_error, unit) result poll \<times> 's"

section \<open>The TLS library\<close>

record 'c client_config =
  alpn_protocols :: "bytes list"
  cc_rest :: 'c

record ('c, 'n, 's, 't) tls_lib =
  tl_server_name :: "string \<Rightarrow> 'n option"
  tl_connect :: "'c client_config \<Rightarrow> 'n \<Rightarrow> 's \<Rightarrow> (io_error, 't) result"
  tl_io :: "'t async_io"

section \<open>TlsStream\<close>

record 't tls_stream =
  stream :: 't

definition connect_with_config ::
  "('c, 'n, 's, 't) tls_lib \<Rightarrow> 's \<Rightarrow> string \<Rightarrow> 'c client_config \<Rightarrow> (io_error, 't tls_stream) result" where
  "connect_with_config lib s domain cfg =
     (case tl_server_name lib domain of
        None \<Rightarrow> Err (IoInvalidInput (''invalid hostname '' @ [CHR 0x22] @ domain @ [CHR 0x22]))
      | Some host \<Rightarrow>
          bind_result (tl_connect lib cfg host s) (\<lambda>t. Ok \<lparr>stream = t\<rparr>))"

definition on_stream :: "'x \<times> 't \<Rightarrow> 't tls_stream \<Rightarrow> 'x \<times> 't tls_stream" where
  "on_stream r s = (fst r, s\<lparr>stream := snd r\<rparr>)"

definition tls_poll_read ::
  "'t async_io \<Rightarrow> 't tls_stream \<Rightarrow> nat \<Rightarrow> (io_error, bytes) result poll \<times> 't tls_stream" where
  "tls_poll_read io s room = on_stream (io_poll_read io (stream s) room) s"

definition tls_poll_write ::
  "'t async_io \<Rightarrow> 't tls_stream \<Rightarrow> bytes \<Rightarrow> (io_error, usize) result poll \<times> 't tls_stream" where
  "tls_poll_write io s buf = on_stream (io_poll_write io (stream s) buf) s"

definition tls_poll_flush :: "'t async_io \<Rightarrow> 't tls_stream \<Rightarrow> (io_error, unit) result poll \<times> 't tls_stream" where
  "tls_poll_flush io s = on_stream (io_poll_flush io (stream s)) s"

definition tls_poll_shutdown :: "'t async_io \<Rightarrow> 't tls_stream \<Rightarrow> (io_error, unit) result poll \<times> 't tls_stream" where
  "tls_poll_shutdown io s = on_stream (io_poll_shutdown io (stream s)) s"

definition tls_io :: "'t async_io \<Rightarrow> 't tls_stream async_io" where
  "tls_io io =
     \<lparr>io_poll_read = tls_poll_read io, io_poll_write = tls_poll_write io,
      io_poll_flush = tls_poll_flush io, io_poll_shutdown = tls_poll_shutdown io\<rparr>"

lemmas tls_poll_defs = tls_poll_read_def tls_poll_write_def tls_poll_flush_def tls_poll_shutdown_def
  tls_io_def on_stream_def

section \<open>Lemmas\<close>

lemma connect_with_config_Ok:
  "connect_with_config lib s domain cfg = Ok t \<longleftrightarrow>
     (\<exists>host. tl_server_name lib domain = Some host \<and> tl_connect lib cfg host s = Ok (stream t))"
  by (cases t) (auto simp: connect_with_config_def bind_result_Ok_iff split: option.splits)

text \<open>A simulation: the wrapper answers as the stream inside does and stays around it.\<close>

lemma tls_io_transparent:
  "fst (io_poll_read (tls_io io) s n) = fst (io_poll_read io (stream s) n)"
  "stream (snd (io_poll_read (tls_io io) s n)) = snd (io_poll_read io (stream s) n)"
  "fst (io_poll_write (tls_io io) s b) = fst (io_poll_write io (stream s) b)"
  "stream (snd (io_poll_write (tls_io io) s b)) = snd (io_poll_write io (stream s) b)"
  "fst (io_poll_flush (tls_io io) s) = fst (io_poll_flush io (stream s))"
  "stream (snd (io_poll_flush (tls_io io) s)) = snd (io_poll_flush io (stream s))"
  "fst (io_poll_shutdown (tls_io io) s) = fst (io_poll_shutdown io (stream s))"
  "stream (snd (io_poll_shutdown (tls_io io) s)) = snd (io_poll_shutdown io (stream s))"
  by (simp_all add: tls_poll_defs)

end
