(* ===== verification/Client_Connection.thy ===== *)
theory Client_Connection
  imports Client_Pumps Tls_Stream
begin

text \<open>
  \<^verbatim>\<open>ProxyConfig\<close> and \<^verbatim>\<open>ProxyConnection\<close> of \<^verbatim>\<open>src/client.rs\<close>: how a connection to the proxy is
  opened in each of its forms, the background task, and reading and writing through the
  connection. TCP, TLS and the HTTP handshakes are parameters (\<open>transports\<close>), and so are
  the adapters that make the two channels an \<^verbatim>\<open>AsyncRead\<close> and an \<^verbatim>\<open>AsyncWrite\<close>
  (\<open>async_io\<close>).
\<close>

section \<open>Opening a connection\<close>

text \<open>
  \<open>tr_tcp n\<close> is the outcome of the \<open>n\<close>-th \<^verbatim>\<open>TcpStream::connect\<close> of a call. A handshake
  yields a request handle \<open>'h\<close> and the connection's future \<open>'f\<close>; \<open>tr_plain\<close> and
  \<open>tr_tls\<close> are the streams an HTTP handshake can run on. \<open>tr_first\<close> tells which of two
  joined handshakes that both fail does so first.
\<close>

datatype ('s, 't) http_stream = PlainStream 's | TlsOver "'t tls_stream"

record ('c, 'n, 's, 't, 'h, 'f) transports =
  tr_tcp :: "nat \<Rightarrow> socket_addr \<Rightarrow> (io_error, 's) result"
  tr_tls :: "('c, 'n, 's, 't) tls_lib"
  tr_http1 :: "('s, 't) http_stream \<Rightarrow> (hyper_error, 'h \<times> 'f) result"
  tr_http2 :: "('s, 't) http_stream \<Rightarrow> (hyper_error, 'h \<times> 'f) result"
  tr_first :: bool
  tr_session :: uuid

text \<open>
  What \<^verbatim>\<open>start_proxy\<close> sets going: the session ID, the handles of the two pumps, the
  connection futures and the configuration.
\<close>

record ('h, 'f) proxy =
  px_session :: uuid
  px_recv :: 'h
  px_send :: 'h
  px_conns :: "'f list"
  px_config :: domain_fronting

definition start_proxy :: "uuid \<Rightarrow> 'f list \<Rightarrow> 'h \<Rightarrow> 'h \<Rightarrow> domain_fronting \<Rightarrow> (df_error, ('h, 'f) proxy) result" where
  "start_proxy sid conns recv send config =
     Ok \<lparr>px_session = sid, px_recv = recv, px_send = send, px_conns = conns, px_config = config\<rparr>"

definition try_join_done :: "bool \<Rightarrow> ('e, 'a) result \<Rightarrow> ('e, 'b) result \<Rightarrow> ('e, 'a \<times> 'b) result" where
  "try_join_done first_fails r1 r2 =
     (case (r1, r2) of
        (Inr x, Inr y) \<Rightarrow> Ok (x, y)
      | (Inl e, Inr _) \<Rightarrow> Err e
      | (Inr _, Inl e) \<Rightarrow> Err e
      | (Inl e1, Inl e2) \<Rightarrow> Err (if first_fails then e1 else e2))"

definition handshake_http1_1 ::
  "('c, 'n, 's, 't, 'h, 'f) transports \<Rightarrow> ('s, 't) http_stream \<Rightarrow> (df_error, 'h \<times> 'f) result" where
  "handshake_http1_1 tr s = map_err Hyper (tr_http1 tr s)"

definition http1_1_from_streams ::
  "('c, 'n, 's, 't, 'h, 'f) transports \<Rightarrow> ('s, 't) http_stream \<Rightarrow> ('s, 't) http_stream \<Rightarrow> domain_fronting
   \<Rightarrow> (df_error, ('h, 'f) proxy) result" where
  "http1_1_from_streams tr s1 s2 config =
     bind_result (try_join_done (tr_first tr) (handshake_http1_1 tr s1) (handshake_http1_1 tr s2))
       (\<lambda>((recv, c1), (send, c2)). start_proxy (tr_session tr) [c1, c2] recv send config)"

definition http2_from_stream ::
  "('c, 'n, 's, 't, 'h, 'f) transports \<Rightarrow> ('s, 't) http_stream \<Rightarrow> domain_fronting
   \<Rightarrow> (df_error, ('h, 'f) proxy) result" where
  "http2_from_stream tr s config =
     bind_result (map_err Hyper (tr_http2 tr s))
       (\<lambda>(sender, c). start_proxy (tr_session tr) [c] sender sender config)"

definition ALPN_h2 :: bytes where
  "ALPN_h2 = [0x68, 0x32]"

definition connect_https2_over_stream where
  "connect_https2_over_stream tr (pc :: proxy_config) s (cfg :: 'c client_config) =
     (if ALPN_h2 \<notin> set (alpn_protocols cfg) then Err MisconfiguredAlpn
      else bind_result
             (map_err Tls (connect_with_config (tr_tls tr) s (front_host (pc_domain_fronting pc)) cfg))
             (\<lambda>t. http2_from_stream tr (TlsOver t) (pc_domain_fronting pc)))"

definition connect_https1_1_over_streams where
  "connect_https1_1_over_streams tr (pc :: proxy_config) s1 s2 (cfg :: 'c client_config) =
     (if ALPN_h2 \<in> set (alpn_protocols cfg) then Err MisconfiguredAlpn
      else bind_result
             (map_err Tls (connect_with_config (tr_tls tr) s1 (front_host (pc_domain_fronting pc)) cfg))
             (\<lambda>t1. bind_result
               (map_err Tls (connect_with_config (tr_tls tr) s2 (front_host (pc_domain_fronting pc)) cfg))
               (\<lambda>t2. http1_1_from_streams tr (TlsOver t1) (TlsOver t2) (pc_domain_fronting pc))))"

definition tcp_connect where
  "tcp_connect tr n (pc :: proxy_config) = map_err Connection (tr_tcp tr n (addr pc))"

definition connect_https2 where
  "connect_https2 tr (pc :: proxy_config) cfg =
     bind_result (tcp_connect tr 0 pc) (\<lambda>s. connect_https2_over_stream tr pc s cfg)"

definition connect_https1_1 where
  "connect_https1_1 tr (pc :: proxy_config) cfg =
     bind_result (tcp_connect tr 0 pc) (\<lambda>s1. bind_result (tcp_connect tr 1 pc)
       (\<lambda>s2. connect_https1_1_over_streams tr pc s1 s2 cfg))"

definition connect_http1_1_over_streams where
  "connect_http1_1_over_streams tr (pc :: proxy_config) s1 s2 =
     http1_1_from_streams tr (PlainStream s1) (PlainStream s2) (pc_domain_fronting pc)"

definition connect_http1_1 where
  "connect_http1_1 tr (pc :: proxy_config) =
     bind_result (tcp_connect tr 0 pc) (\<lambda>s1. bind_result (tcp_connect tr 1 pc)
       (\<lambda>s2. connect_http1_1_over_streams tr pc s1 s2))"

definition connect_http2_over_stream where
  "connect_http2_over_stream tr (pc :: proxy_config) s =
     http2_from_stream tr (PlainStream s) (pc_domain_fronting pc)"

section \<open>The background task\<close>

text \<open>
  \<^verbatim>\<open>try_join\<close> of two futures, each \<open>None\<close> while it runs: an error ends it at once, the
  first future's before the second's; it is done when both are.
\<close>

definition try_join :: "('e, 'a) result option \<Rightarrow> ('e, 'b) result option \<Rightarrow> ('e, 'a \<times> 'b) result option" where
  "try_join r1 r2 =
     (case (r1, r2) of
        (Some (Inl e), _) \<Rightarrow> Some (Err e)
      | (_, Some (Inl e)) \<Rightarrow> Some (Err e)
      | (Some (Inr x), Some (Inr y)) \<Rightarrow> Some (Ok (x, y))
      | _ \<Rightarrow> None)"

definition io_result ::
  "(df_error, unit) result option \<Rightarrow> (df_error, unit) result option \<Rightarrow> (df_error, unit) result option
   \<Rightarrow> (df_error, unit) result option" where
  "io_result conn incoming outgoing =
     map_option (\<lambda>r. bind_result r (\<lambda>_. Ok ())) (try_join conn (try_join incoming outgoing))"

text \<open>
  A \<^verbatim>\<open>JoinHandle\<close>: the task runs, has finished (\<open>Inl\<close>: it was aborted or panicked), or its
  result has been taken by a poll, after which a further poll panics.
\<close>

datatype join_handle =
    TaskRunning
  | TaskFinished "(join_error, (df_error, unit) result) result"
  | TaskTaken

definition task_of :: "(df_error, unit) result option \<Rightarrow> join_handle" where
  "task_of r = (case r of None \<Rightarrow> TaskRunning | Some x \<Rightarrow> TaskFinished (Ok x))"

section \<open>Reading and writing\<close>

record ('r, 'w) proxy_connection =
  request_tx :: 'w
  response_rx :: 'r
  io_task :: join_handle

datatype 'a outcome = Returns 'a | Panics string

datatype check = Proceed | Fails io_error | CheckPanics string

text \<open>\<^verbatim>\<open>check_err!\<close>.\<close>

fun check_err :: "join_handle \<Rightarrow> check \<times> join_handle" where
  "check_err TaskRunning = (Proceed, TaskRunning)"
| "check_err (TaskFinished (Inl je)) = (Fails (IoJoin je), TaskTaken)"
| "check_err (TaskFinished (Inr (Inl err))) = (Fails (IoOther err), TaskTaken)"
| "check_err (TaskFinished (Inr (Inr _))) =
     (CheckPanics ''IO task will not stop while connection lives'', TaskTaken)"
| "check_err TaskTaken = (CheckPanics ''JoinHandle polled after completion'', TaskTaken)"

definition checked ::
  "(('r, 'w) proxy_connection \<Rightarrow> (io_error, 'a) result poll \<times> ('r, 'w) proxy_connection)
   \<Rightarrow> ('r, 'w) proxy_connection \<Rightarrow> (io_error, 'a) result poll outcome \<times> ('r, 'w) proxy_connection" where
  "checked k c =
     (case check_err (io_task c) of
        (Proceed, h) \<Rightarrow> (let (r, c') = k (c\<lparr>io_task := h\<rparr>) in (Returns r, c'))
      | (Fails e, h) \<Rightarrow> (Returns (Ready (Err e)), c\<lparr>io_task := h\<rparr>)
      | (CheckPanics m, h) \<Rightarrow> (Panics m, c\<lparr>io_task := h\<rparr>))"

definition poll_read where
  "poll_read (rx :: 'r async_io) room =
     checked (\<lambda>c. let (r, s) = io_poll_read rx (response_rx c) room in (r, c\<lparr>response_rx := s\<rparr>))"

definition poll_write where
  "poll_write (tx :: 'w async_io) buf =
     checked (\<lambda>c. let (r, s) = io_poll_write tx (request_tx c) buf in (r, c\<lparr>request_tx := s\<rparr>))"

definition poll_flush where
  "poll_flush (tx :: 'w async_io) =
     checked (\<lambda>c. let (r, s) = io_poll_flush tx (request_tx c) in (r, c\<lparr>request_tx := s\<rparr>))"

definition poll_shutdown where
  "poll_shutdown (tx :: 'w async_io) =
     checked (\<lambda>c. let (r, s) = io_poll_shutdown tx (request_tx c) in (r, c\<lparr>request_tx := s\<rparr>))"

fun extend_all :: "bytes \<Rightarrow> bytes list \<Rightarrow> bytes" where
  "extend_all acc [] = acc"
| "extend_all acc (buf # bufs) = extend_all (acc @ buf) bufs"

definition poll_write_vectored where
  "poll_write_vectored (tx :: 'w async_io) bufs =
     checked (\<lambda>c. let contiguous = extend_all [] bufs;
                      (r, s) = io_poll_write tx (request_tx c) contiguous
                  in (r, c\<lparr>request_tx := s\<rparr>))"

definition is_write_vectored :: bool where
  "is_write_vectored = True"

text \<open>\<^verbatim>\<open>Drop\<close>: the task is aborted; one that has ended stays as it is.\<close>

definition connection_drop :: "('r, 'w) proxy_connection \<Rightarrow> join_handle" where
  "connection_drop c =
     (case io_task c of TaskRunning \<Rightarrow> TaskFinished (Err (JoinError ''cancelled'')) | h \<Rightarrow> h)"

lemmas connect_defs = connect_https2_def connect_https1_1_def connect_http1_1_def
  connect_https2_over_stream_def connect_https1_1_over_streams_def connect_http1_1_over_streams_def
  connect_http2_over_stream_def http1_1_from_streams_def http2_from_stream_def start_proxy_def
  handshake_http1_1_def tcp_connect_def

lemmas poll_defs = poll_read_def poll_write_def poll_flush_def poll_shutdown_def poll_write_vectored_def
  checked_def

end
