(* ===== verification/Client_Correct.thy ===== *)
theory Client_Correct
  imports Client_Connection
begin

text \<open>
  Properties of the client: where it connects, which name goes into the TLS handshake and
  which into the requests, the ALPN guard, and what reading and writing through a
  \<^verbatim>\<open>ProxyConnection\<close> does in each state of its background task.
\<close>

section \<open>Where the client connects\<close>

text \<open>\<^verbatim>\<open>DomainFronting::proxy_config\<close> resolves the front, never the proxy host: the address is
  the first one the resolver returns for the front's host (the empty name if it has
  none), with the port of the front, or else 443, or 80 if the front is plain \<^verbatim>\<open>http\<close>; a
  failing lookup is the error \<^verbatim>\<open>Dns\<close>, an empty answer is \<^verbatim>\<open>EmptyDnsResponse\<close>.\<close>

lemma proxy_config_resolves_front:
  "proxy_config gai df =
     (case gai (front_host df, 0) of
        Inl e \<Rightarrow> Err (Dns e)
      | Inr [] \<Rightarrow> Err EmptyDnsResponse
      | Inr (a # _) \<Rightarrow>
          Ok \<lparr>addr = \<lparr>sa_ip = sa_ip a,
                       sa_port = (case uri_port_u16 (front df) of
                                    Some p \<Rightarrow> p
                                  | None \<Rightarrow> if uri_scheme (front df) = Some HTTP then 80 else 443)\<rparr>,
              pc_domain_fronting = df\<rparr>)"
proof -
  have "proxy_port df = (case uri_port_u16 (front df) of Some p \<Rightarrow> p
      | None \<Rightarrow> if uri_scheme (front df) = Some HTTP then 80 else 443)"
    by (simp add: proxy_port_def tls_def split: option.splits)
  then show ?thesis by (simp add: proxy_config_cases split: sum.splits list.splits)
qed

section \<open>Fronting\<close>

lemma http2_from_stream_Ok:
  "http2_from_stream tr s config = Ok px \<longleftrightarrow>
     (\<exists>h f. tr_http2 tr s = Ok (h, f) \<and>
        px = \<lparr>px_session = tr_session tr, px_recv = h, px_send = h, px_conns = [f], px_config = config\<rparr>)"
  by (auto simp: http2_from_stream_def start_proxy_def bind_result_Ok_iff)

lemma http1_1_from_streams_Ok:
  "http1_1_from_streams tr s1 s2 config = Ok px \<longleftrightarrow>
     (\<exists>h1 f1 h2 f2. tr_http1 tr s1 = Ok (h1, f1) \<and> tr_http1 tr s2 = Ok (h2, f2) \<and>
        px = \<lparr>px_session = tr_session tr, px_recv = h1, px_send = h2, px_conns = [f1, f2], px_config = config\<rparr>)"
  by (auto simp: http1_1_from_streams_def start_proxy_def handshake_http1_1_def bind_result_Ok_iff
      try_join_done_def split: sum.splits)

lemmas connect_Ok_iffs = bind_result_Ok_iff connect_with_config_Ok http2_from_stream_Ok http1_1_from_streams_Ok

text \<open>C27: a successful HTTPS connection has shown the front's host, and only it, to the TLS layer:
  \<^verbatim>\<open>connect_https2\<close> opens one TCP connection to the resolved address, hands TLS the name of
  the front, and runs both pumps over one HTTP/2 handle on that stream;
  \<^verbatim>\<open>connect_https1_1\<close> does so for two TCP connections and gives each pump its own HTTP/1.1
  handle, the first for reading, the second for writing.\<close>

theorem https_shows_front_to_tls:
  assumes "connect_https2 tr pc cfg2 = Ok px2" and "connect_https1_1 tr pc cfg1 = Ok px1"
  shows "\<exists>host s1 s2 t t1 t2 f f1 f2.
     tl_server_name (tr_tls tr) (front_host (pc_domain_fronting pc)) = Some host \<and>
     tr_tcp tr 0 (addr pc) = Ok s1 \<and> tr_tcp tr 1 (addr pc) = Ok s2 \<and>
     tl_connect (tr_tls tr) cfg2 host s1 = Ok (stream t) \<and> tr_http2 tr (TlsOver t) = Ok (px_send px2, f) \<and>
     px_recv px2 = px_send px2 \<and> px_conns px2 = [f] \<and>
     tl_connect (tr_tls tr) cfg1 host s1 = Ok (stream t1) \<and> tr_http1 tr (TlsOver t1) = Ok (px_recv px1, f1) \<and>
     tl_connect (tr_tls tr) cfg1 host s2 = Ok (stream t2) \<and> tr_http1 tr (TlsOver t2) = Ok (px_send px1, f2) \<and>
     px_conns px1 = [f1, f2]"
proof -
  from assms(1) obtain host s1 t f where a: "tr_tcp tr 0 (addr pc) = Ok s1"
      "tl_server_name (tr_tls tr) (front_host (pc_domain_fronting pc)) = Some host"
      "tl_connect (tr_tls tr) cfg2 host s1 = Ok (stream t)" "tr_http2 tr (TlsOver t) = Ok (px_send px2, f)"
      "px_recv px2 = px_send px2" "px_conns px2 = [f]"
    by (auto simp: connect_https2_def connect_https2_over_stream_def tcp_connect_def connect_Ok_iffs
        split: if_splits)
  from assms(2) a(1,2) obtain s2 t1 t2 f1 f2 where "tr_tcp tr 1 (addr pc) = Ok s2"
      "tl_connect (tr_tls tr) cfg1 host s1 = Ok (stream t1)" "tr_http1 tr (TlsOver t1) = Ok (px_recv px1, f1)"
      "tl_connect (tr_tls tr) cfg1 host s2 = Ok (stream t2)" "tr_http1 tr (TlsOver t2) = Ok (px_send px1, f2)"
      "px_conns px1 = [f1, f2]"
    by (auto simp: connect_https1_1_def connect_https1_1_over_streams_def tcp_connect_def connect_Ok_iffs
        split: if_splits)
  with a show ?thesis by blast
qed

text \<open>A network that connects everywhere and keeps what it is told.\<close>

definition demo_transports ::
  "(unit, string, nat \<times> socket_addr, string \<times> nat,
    (nat \<times> socket_addr, string \<times> nat) http_stream, unit) transports" where
  "demo_transports =
     \<lparr>tr_tcp = (\<lambda>n a. Ok (n, a)),
      tr_tls = \<lparr>tl_server_name = (\<lambda>s. if s = '''' then None else Some s),
                tl_connect = (\<lambda>cfg host s. Ok (host, fst s)),
                tl_io = \<lparr>io_poll_read = (\<lambda>s n. (Pending, s)), io_poll_write = (\<lambda>s b. (Pending, s)),
                         io_poll_flush = (\<lambda>s. (Pending, s)), io_poll_shutdown = (\<lambda>s. (Pending, s))\<rparr>\<rparr>,
      tr_http1 = (\<lambda>s. Ok (s, ())), tr_http2 = (\<lambda>s. Ok (s, ())), tr_first = True, tr_session = 7\<rparr>"

definition demo_proxy_config :: proxy_config where
  "demo_proxy_config = \<lparr>addr = \<lparr>sa_ip = V4 1, sa_port = 443\<rparr>, pc_domain_fronting = demo_config\<rparr>"

definition demo_tls :: "bytes list \<Rightarrow> unit client_config" where
  "demo_tls ps = \<lparr>alpn_protocols = ps, cc_rest = ()\<rparr>"

theorem https_shows_front_to_tls_witness:
  "\<exists>px2 px1 host. connect_https2 demo_transports demo_proxy_config (demo_tls [ALPN_h2]) = Ok px2 \<and>
     connect_https1_1 demo_transports demo_proxy_config (demo_tls []) = Ok px1 \<and>
     tl_server_name (tr_tls demo_transports) ''cdn'' = Some host \<and>
     px_recv px1 = TlsOver \<lparr>stream = (host, 0)\<rparr>"
proof -
  let ?h = "TlsOver \<lparr>stream = (''cdn'', 0)\<rparr>" and ?h1 = "TlsOver \<lparr>stream = (''cdn'', 1)\<rparr>"
  have a: "connect_https2 demo_transports demo_proxy_config (demo_tls [ALPN_h2]) =
      Ok \<lparr>px_session = 7, px_recv = ?h, px_send = ?h, px_conns = [()], px_config = demo_config\<rparr>" by code_simp
  have b: "connect_https1_1 demo_transports demo_proxy_config (demo_tls []) =
      Ok \<lparr>px_session = 7, px_recv = ?h, px_send = ?h1, px_conns = [(), ()], px_config = demo_config\<rparr>" by code_simp
  have c: "front_host (pc_domain_fronting demo_proxy_config) = ''cdn''" by code_simp
  from https_shows_front_to_tls [OF a b] c a b show ?thesis
    by (auto simp: demo_transports_def)
qed

text \<open>C28: nothing of the front but whether it is plain \<^verbatim>\<open>http\<close> is in a request: replacing the front
  by any other URI with the same answer to that question leaves every write and read
  request as it is. Together with the previous property, the front is what the network
  sees of the name and the proxy host is what the CDN sees.\<close>

theorem requests_hide_front:
  assumes "tls (config\<lparr>front := f\<rparr>) = tls config"
  shows "create_write_request lib (config\<lparr>front := f\<rparr>) sid body b rnd = create_write_request lib config sid body b rnd \<and>
     create_read_request lib (config\<lparr>front := f\<rparr>) sid rnd = create_read_request lib config sid rnd"
  using assms
  by (simp add: create_write_request_def create_read_request_def request_uri_def df_scheme_def)

theorem requests_hide_front_witness:
  "create_read_request plain_http_lib
     (demo_config\<lparr>front := \<lparr>uri_scheme = None, uri_host = Some ''other'', uri_port_u16 = Some 8443\<rparr>\<rparr>) 3 5 =
   create_read_request plain_http_lib demo_config 3 5"
proof -
  have "tls (demo_config\<lparr>front := \<lparr>uri_scheme = None, uri_host = Some ''other'', uri_port_u16 = Some 8443\<rparr>\<rparr>)
      = tls demo_config" by code_simp
  from requests_hide_front [OF this] show ?thesis by blast
qed

section \<open>ALPN\<close>

lemma alpn_https2:
  "connect_https2_over_stream tr pc s cfg = Err MisconfiguredAlpn \<longleftrightarrow> ALPN_h2 \<notin> set (alpn_protocols cfg)"
  by (auto simp: connect_https2_over_stream_def bind_result_def map_err_def
      http2_from_stream_def start_proxy_def split: sum.splits if_splits)

lemma alpn_https1_1:
  "connect_https1_1_over_streams tr pc s1 s2 cfg = Err MisconfiguredAlpn \<longleftrightarrow> ALPN_h2 \<in> set (alpn_protocols cfg)"
  by (auto simp: connect_https1_1_over_streams_def bind_result_def map_err_def http1_1_from_streams_def
      handshake_http1_1_def start_proxy_def try_join_done_def split: sum.splits if_splits)

lemma alpn_connect_https2:
  "ALPN_h2 \<in> set (alpn_protocols cfg) \<Longrightarrow> connect_https2 tr pc cfg \<noteq> Err MisconfiguredAlpn"
  by (auto simp: alpn_https2 connect_https2_def tcp_connect_def bind_result_Err_iff map_err_def split: sum.splits)

lemma alpn_connect_https1_1:
  "ALPN_h2 \<notin> set (alpn_protocols cfg) \<Longrightarrow> connect_https1_1 tr pc cfg \<noteq> Err MisconfiguredAlpn"
  by (auto simp: alpn_https1_1 connect_https1_1_def tcp_connect_def bind_result_Err_iff map_err_def split: sum.splits)

lemma alpn_http1_1: "connect_http1_1 tr pc \<noteq> Err MisconfiguredAlpn"
  by (auto simp: connect_http1_1_def connect_http1_1_over_streams_def tcp_connect_def bind_result_def map_err_def
      http1_1_from_streams_def handshake_http1_1_def start_proxy_def try_join_done_def split: sum.splits if_splits)

text \<open>The ALPN guard: \<^verbatim>\<open>MisconfiguredAlpn\<close> is returned by an HTTP/2 connection exactly when
  the TLS configuration does not offer \<^verbatim>\<open>h2\<close>, and by an HTTP/1.1 connection exactly when it
  does; so every configuration is refused by exactly one of the two, whatever the
  network does.\<close>

lemma alpn_guard:
  "(connect_https2_over_stream tr pc s cfg = Err MisconfiguredAlpn \<longleftrightarrow> ALPN_h2 \<notin> set (alpn_protocols cfg)) \<and>
   (connect_https1_1_over_streams tr pc s1 s2 cfg = Err MisconfiguredAlpn \<longleftrightarrow> ALPN_h2 \<in> set (alpn_protocols cfg))"
  by (simp add: alpn_https2 alpn_https1_1)

section \<open>Reading and writing\<close>

definition demo_io :: "'s async_io" where
  "demo_io = \<lparr>io_poll_read = (\<lambda>s n. (Pending, s)), io_poll_write = (\<lambda>s b. (Pending, s)),
     io_poll_flush = (\<lambda>s. (Pending, s)), io_poll_shutdown = (\<lambda>s. (Pending, s))\<rparr>"

lemma extend_all_concat: "extend_all acc bufs = acc @ concat bufs"
  by (induction bufs arbitrary: acc) simp_all

text \<open>A vectored write is one write of the concatenated buffers (one write makes one HTTP
  request), in every state of the connection.\<close>

lemma vectored_write_is_one_write:
  "poll_write_vectored tx bufs c = poll_write tx (concat bufs) c"
  by (simp add: poll_write_vectored_def poll_write_def extend_all_concat)

text \<open>C29: when the background task has failed, the next poll of any kind returns its error, and
  neither stream of the connection is touched, so no byte is accepted or handed out. The
  handle is then spent: any further poll panics.\<close>

theorem task_error_surfaces_once:
  assumes "io_task c = TaskFinished (Ok (Err e))"
  shows "let c' = c\<lparr>io_task := TaskTaken\<rparr> in
     poll_read rx n c = (Returns (Ready (Err (IoOther e))), c') \<and>
     poll_write tx b c = (Returns (Ready (Err (IoOther e))), c') \<and>
     poll_flush tx c = (Returns (Ready (Err (IoOther e))), c') \<and>
     poll_shutdown tx c = (Returns (Ready (Err (IoOther e))), c') \<and>
     poll_read rx n c' = (Panics ''JoinHandle polled after completion'', c') \<and>
     poll_write tx b c' = (Panics ''JoinHandle polled after completion'', c')"
  using assms by (simp add: poll_defs Let_def)

theorem task_error_surfaces_once_witness:
  "\<exists>c'. poll_write demo_io (bytes_of ''x'')
       \<lparr>request_tx = (), response_rx = (), io_task = TaskFinished (Ok (Err (HttpStatusCode 429)))\<rparr>
     = (Returns (Ready (Err (IoOther (HttpStatusCode 429)))), c') \<and>
     poll_write demo_io (bytes_of ''x'') c' = (Panics ''JoinHandle polled after completion'', c')"
proof -
  let ?c = "\<lparr>request_tx = (), response_rx = (), io_task = TaskFinished (Ok (Err (HttpStatusCode 429)))\<rparr>"
  have "io_task ?c = TaskFinished (Ok (Err (HttpStatusCode 429)))" by simp
  from task_error_surfaces_once [OF this, where tx = demo_io and b = "bytes_of ''x''" and rx = demo_io
      and n = 0, unfolded Let_def] show ?thesis by blast
qed

section \<open>The end of the background task\<close>

lemma io_result_cases:
  "io_result c i out = (case (c, i, out) of
      (Some (Inl e), _, _) \<Rightarrow> Some (Err e)
    | (_, Some (Inl e), _) \<Rightarrow> Some (Err e)
    | (_, _, Some (Inl e)) \<Rightarrow> Some (Err e)
    | (Some (Inr _), Some (Inr _), Some (Inr _)) \<Rightarrow> Some (Ok ())
    | _ \<Rightarrow> None)"
  by (simp add: io_result_def try_join_def split: option.splits sum.splits)

lemma forward_body_error:
  "clean_body fs \<Longrightarrow> (\<And>n. op n) \<Longrightarrow> fst (forward_body op (fs @ Inl e # gs) out) = False"
proof (induction op fs out rule: forward_body.induct)
  case (3 op frame fs out)
  then show ?case by (cases frame) (auto simp: clean_body_def chan_send_def)
qed (auto simp: clean_body_def)

text \<open>C30: the arm of \<^verbatim>\<open>check_err!\<close> that is marked unreachable can be reached while the connection
  lives. When a response body breaks off with an error, \<^verbatim>\<open>pump_incoming\<close> returns \<^verbatim>\<open>Ok(())\<close>;
  when the user has shut the connection down, \<^verbatim>\<open>pump_outgoing\<close> has returned \<^verbatim>\<open>Ok(())\<close>; and once
  the HTTP connection has closed as well, the task ends with \<^verbatim>\<open>Ok(())\<close>, and the next read,
  write, flush or shutdown panics.\<close>

theorem graceful_end_panics:
  assumes "create_read_request (ce_lib env) config sid (ce_uuid env (p_uuids p)) = Ok req"
    and "ce_send env (p_net p) req =
           (Ok \<lparr>rsp_status = STATUS_OK, rsp_headers = hs, rsp_body = fs @ Inl err # gs\<rparr>, net)"
    and "clean_body fs" and "\<And>n. op n"
    and "pump_outgoing env config sid chunks q = (Ok (), q')"
    and "io_task c = task_of (io_result (Some (Ok ()))
           (fst (pump_incoming env config sid op 1 p out)) (Some (fst (pump_outgoing env config sid chunks q))))"
  shows "fst (poll_read rx n c) = Panics ''IO task will not stop while connection lives'' \<and>
     fst (poll_write tx b c) = Panics ''IO task will not stop while connection lives''"
proof -
  let ?fs = "fs @ Inl err # gs"
  have "fst (forward_body op ?fs out) = False" using assms(3,4) by (rule forward_body_error)
  then have "fst (pump_incoming env config sid op 1 p out) = Some (Ok ())"
    using assms(1,2) by (auto simp: pump_incoming_round_def send_request_def split: prod.splits bool.splits)
  with assms(5,6) have "io_task c = TaskFinished (Ok (Ok ()))"
    by (simp add: io_result_cases task_of_def)
  then show ?thesis by (simp add: poll_defs Let_def)
qed

text \<open>A proxy whose answer to a read breaks off.\<close>

definition broken_proxy :: "unit client_env" where
  "broken_proxy = demo_proxy\<lparr>ce_send := (\<lambda>net req.
     (Ok \<lparr>rsp_status = STATUS_OK, rsp_headers = [], rsp_body = [] @ Inl (HyperError ''reset'') # []\<rparr>, net))\<rparr>"

theorem graceful_end_panics_witness:
  "fst (poll_read (demo_io :: unit async_io) 8
     \<lparr>request_tx = (), response_rx = (), io_task = task_of (io_result (Some (Ok ()))
       (fst (pump_incoming broken_proxy demo_config 3 (\<lambda>_. True) 1 \<lparr>p_net = (), p_uuids = 0\<rparr> []))
       (Some (fst (pump_outgoing broken_proxy demo_config 3 [] \<lparr>p_net = (), p_uuids = 0\<rparr>))))\<rparr>)
   = Panics ''IO task will not stop while connection lives''"
proof -
  let ?p = "\<lparr>p_net = (), p_uuids = 0\<rparr>"
  obtain req where r: "create_read_request (ce_lib broken_proxy) demo_config 3 (ce_uuid broken_proxy (p_uuids ?p)) = Ok req"
    by (simp add: create_read_request_def broken_proxy_def demo_proxy_def plain_http_lib_def)
  have s: "ce_send broken_proxy (p_net ?p) req =
      (Ok \<lparr>rsp_status = STATUS_OK, rsp_headers = [], rsp_body = [] @ Inl (HyperError ''reset'') # []\<rparr>, ())"
    by (simp add: broken_proxy_def)
  have c: "clean_body []" by (simp add: clean_body_def)
  have o: "pump_outgoing broken_proxy demo_config 3 [] ?p = (Ok (), ?p)" by (simp add: pump_outgoing_def)
  from graceful_end_panics [OF r s c, of "\<lambda>_. True", OF TrueI o, where out = "[]" and rx = demo_io and n = 8]
  show ?thesis by (metis (no_types, lifting) proxy_connection.select_convs(3))
qed

end
