(* ===== verification/Client_Tests.thy ===== *)
theory Client_Tests
  imports Client_Echo Client_Correct
begin

text \<open>
  The tests of \<^verbatim>\<open>src/client.rs\<close>: clients and a server in one process, with the echo server
  as the upstream. A test is a script of writes and reads, on a schedule on which each task
  works until it waits: the pumps of the clients, the server, the session actors and the echo
  tasks are those of the model. Every script in which each read finds something is compared
  with what it would hear from a table of echo buffers; \<open>Client_Echo\<close> treats every schedule.
\<close>

section \<open>The echo server and the clients of the tests\<close>

text \<open>The echo task works off what it is sent before anything else happens.\<close>

definition settle :: "echo_conn \<Rightarrow> echo_conn" where
  "settle c = (echo_turn ^^ length (to_echo c)) c"

definition prompt_echo :: "echo_conn connector" where
  "prompt_echo = echo_upstream\<lparr>c_write_all := (\<lambda>c bs. map_prod id settle (c_write_all echo_upstream c bs))\<rparr>"

definition echoed :: "bytes \<Rightarrow> echo_conn" where
  "echoed b = \<lparr>to_echo = [], from_echo = b, e_running = True, e_closed = False\<rparr>"

lemma underway_echoed [simp]: "underway (echoed b) = b"
  by (simp add: underway_def echoed_def)

lemma turns_settle:
  "working c \<Longrightarrow> length (to_echo c) \<le> n \<Longrightarrow> (echo_turn ^^ n) c = echoed (underway c)"
proof (induction n arbitrary: c)
  case 0
  then show ?case by (cases c) (simp add: echoed_def underway_def working_def)
next
  case (Suc n)
  have "length (to_echo (echo_turn c)) \<le> n"
    using Suc.prems by (simp add: echo_turn_working ECHO_BUFFER_def)
  from Suc.IH [OF _ this] echo_turn_keeps [OF Suc.prems(1)] show ?case
    by (simp add: funpow_swap1 flip: funpow.simps(2) [THEN fun_cong, unfolded comp_def])
qed

lemma prompt_echo_simps [simp]:
  "c_connect prompt_echo n a = Ok (echoed [])"
  "c_write_all prompt_echo (echoed b) bs = (Ok (), echoed (b @ bs))"
  "c_read_buf prompt_echo (echoed b) cap =
     (if b = [] then (Pending, echoed b) else (Ready (Ok (take cap b)), echoed (drop cap b)))"
proof -
  show "c_connect prompt_echo n a = Ok (echoed [])" by (simp add: prompt_echo_def echo_upstream_def echo_accept_def echoed_def)
  have "working (echoed b\<lparr>to_echo := bs\<rparr>)" by (simp add: working_def echoed_def)
  from turns_settle [OF this order.refl] show "c_write_all prompt_echo (echoed b) bs = (Ok (), echoed (b @ bs))"
    by (simp add: prompt_echo_def echo_upstream_def settle_def) (simp add: echoed_def underway_def)
  show "c_read_buf prompt_echo (echoed b) cap =
     (if b = [] then (Pending, echoed b) else (Ready (Ok (take cap b)), echoed (drop cap b)))"
    by (simp add: prompt_echo_def echo_upstream_def echoed_def)
qed

definition echo_server_config :: "socket_addr \<Rightarrow> config" where
  "echo_server_config echo_addr = Config_new echo_addr (from_secs 5) (from_secs 5)"

definition example_df_config :: domain_fronting where
  "example_df_config =
     DomainFronting_new \<lparr>uri_scheme = None, uri_host = Some ''example.com'', uri_port_u16 = None\<rparr> ''api.example.com''"

text \<open>
  \<^verbatim>\<open>serve_requests\<close>, for a client that reads: \<open>n_polls\<close> is the number of polls after which a
  response would break off, with the error \<open>n_break\<close>.
\<close>

record script_net = test_net +
  n_break :: hyper_error
  n_polls :: nat

definition reader_env :: "script_net \<Rightarrow> echo_conn world client_env" where
  "reader_env net =
     \<lparr>ce_lib = n_lib net, ce_uuid = n_uuid net,
      ce_send = server_read (n_lib net) prompt_echo (n_break net) (\<lambda>w. n_polls net) (\<lambda>w. Arrives) 0\<rparr>"

text \<open>
  \<open>WriteAll sid chunks\<close>: the client of session \<open>sid\<close> writes, and its \<^verbatim>\<open>pump_outgoing\<close> takes
  the bytes up in \<open>chunks\<close>; \<open>ReadAll sid\<close>: it reads what a turn of its \<^verbatim>\<open>pump_incoming\<close> puts
  into the channel. \<open>unsent\<close> tells which clients have not sent their first chunk. A script
  returns \<open>None\<close> when a pump ends.
\<close>

datatype test_step = WriteAll uuid "bytes list" | ReadAll uuid

fun run_script ::
  "script_net \<Rightarrow> domain_fronting \<Rightarrow> test_step list \<Rightarrow> (uuid \<Rightarrow> bool) \<Rightarrow> echo_conn world pump
   \<Rightarrow> (chan list \<times> echo_conn world pump) option" where
  "run_script net config [] unsent p = Some ([], p)"
| "run_script net config (WriteAll sid chunks # xs) unsent p =
     (case pump_outgoing_loop (writer_env net prompt_echo) config sid (unsent sid) chunks p of
        (Inl e, p1) \<Rightarrow> None
      | (Inr _, p1) \<Rightarrow> run_script net config xs (unsent(sid := unsent sid \<and> chunks = [])) p1)"
| "run_script net config (ReadAll sid # xs) unsent p =
     (case pump_incoming_round (reader_env net) config sid (\<lambda>_. True) p [] of
        (Some r, p1, out) \<Rightarrow> None
      | (None, p1, out) \<Rightarrow>
          map_option (\<lambda>(outs, p2). (out # outs, p2)) (run_script net config xs unsent p1))"

definition start_clients :: "nat \<Rightarrow> config \<Rightarrow> echo_conn world pump" where
  "start_clients cap cfg = \<lparr>p_net = with_connector cap cfg, p_uuids = 0\<rparr>"

section \<open>What a script should hear\<close>

function slices :: "bytes \<Rightarrow> bytes list" where
  "slices bs = (if bs = [] then [] else take READ_CAPACITY bs # slices (drop READ_CAPACITY bs))"
  by pat_completeness auto
termination by (relation "measure length") (auto simp: READ_CAPACITY_def)

declare slices.simps [simp del]

text \<open>One buffer per session: a write appends to it, a read empties it.\<close>

fun echo_script :: "test_step list \<Rightarrow> (uuid \<Rightarrow> bytes) \<Rightarrow> chan list option" where
  "echo_script [] bufs = Some []"
| "echo_script (WriteAll sid chunks # xs) bufs = echo_script xs (bufs(sid := bufs sid @ concat chunks))"
| "echo_script (ReadAll sid # xs) bufs =
     (if bufs sid = [] then None
      else map_option (Cons (map Ok (slices (bufs sid)))) (echo_script xs (bufs(sid := []))))"

fun step_bytes :: "test_step \<Rightarrow> nat" where
  "step_bytes (WriteAll sid chunks) = length (concat chunks)"
| "step_bytes (ReadAll sid) = 0"

fun step_ok :: "test_step \<Rightarrow> bool" where
  "step_ok (WriteAll sid chunks) = list_all (\<lambda>c. word_of_nat (length c) \<noteq> (0 :: usize)) chunks"
| "step_ok (ReadAll sid) = True"

lemma slices_empty [simp]: "slices [] = []"
  by (simp add: slices.simps)

lemma slices_nonempty: "bs \<noteq> [] \<Longrightarrow> slices bs = take READ_CAPACITY bs # slices (drop READ_CAPACITY bs)"
  by (simp add: slices.simps [of bs])

lemma slices_length: "length (slices bs) \<le> length bs"
proof (induction bs rule: slices.induct)
  case (1 bs)
  then show ?case by (cases "bs = []"; cases bs) (auto simp: slices_nonempty READ_CAPACITY_def)
qed

lemma slices_not_empty: "[] \<notin> set (slices bs)"
proof (induction bs rule: slices.induct)
  case (1 bs)
  then show ?case by (cases "bs = []") (auto simp: slices_nonempty READ_CAPACITY_def)
qed

lemma slices_concat [simp]: "concat (slices bs) = bs"
proof (induction bs rule: slices.induct)
  case (1 bs)
  then show ?case by (cases "bs = []") (auto simp: slices_nonempty)
qed

lemma slices_short: "bs \<noteq> [] \<Longrightarrow> length bs \<le> READ_CAPACITY \<Longrightarrow> slices bs = [bs]"
  by (simp add: slices_nonempty)

section \<open>The server behind an echo\<close>

definition echoing :: "http_lib \<Rightarrow> string \<Rightarrow> (uuid \<Rightarrow> bool) \<Rightarrow> (uuid \<Rightarrow> bytes) \<Rightarrow> echo_conn world \<Rightarrow> bool" where
  "echoing lib key unsent bufs w \<longleftrightarrow>
     session_header_law lib key \<and> plain_session_key key \<and> cfg_session_key (w_config w) = key \<and>
     0 < mailbox_cap w \<and>
     (\<forall>u. case sessions w u of
            None \<Rightarrow> unsent u \<and> bufs u = []
          | Some a \<Rightarrow> a < next_actor w \<and> stream_over a w \<and> upstreams w a = Some (echoed (bufs u))) \<and>
     (\<forall>u u' a. sessions w u = Some a \<longrightarrow> sessions w u' = Some a \<longrightarrow> u = u')"

lemma echoing_start:
  assumes "session_header_law lib key" and "plain_session_key key" and "cfg_session_key cfg = key" and "0 < cap"
  shows "echoing lib key (\<lambda>_. True) (\<lambda>_. []) (with_connector cap cfg)"
  using assms by (simp add: echoing_def with_connector_def)

lemma echoing_session:
  assumes "echoing lib key unsent bufs w" and "sessions w u = Some a"
  shows "a < next_actor w" "stream_over a w" "upstreams w a = Some (echoed (bufs u))" "ready w a" "read_locks w a = None"
    "sessions w u' = Some a \<Longrightarrow> u' = u"
proof -
  from assms(1) have "case sessions w u of None \<Rightarrow> unsent u \<and> bufs u = []
      | Some a \<Rightarrow> a < next_actor w \<and> stream_over a w \<and> upstreams w a = Some (echoed (bufs u))"
    unfolding echoing_def by blast
  with assms(2) show "a < next_actor w" "stream_over a w" "upstreams w a = Some (echoed (bufs u))" "ready w a" "read_locks w a = None"
    by (simp_all add: stream_over_def)
  show "sessions w u' = Some a \<Longrightarrow> u' = u" using assms unfolding echoing_def by blast
qed

lemma echoing_unopened:
  assumes "echoing lib key unsent bufs w" and "sessions w u = None"
  shows "unsent u" "bufs u = []"
proof -
  from assms(1) have "case sessions w u of None \<Rightarrow> unsent u \<and> bufs u = []
      | Some a \<Rightarrow> a < next_actor w \<and> stream_over a w \<and> upstreams w a = Some (echoed (bufs u))"
    unfolding echoing_def by blast
  with assms(2) show "unsent u" "bufs u = []" by simp_all
qed

lemma echoing_globals:
  assumes "echoing lib key unsent bufs w"
  shows "session_header_law lib key" "plain_session_key key" "cfg_session_key (w_config w) = key" "0 < mailbox_cap w"
  using assms by (simp_all add: echoing_def)

text \<open>A change confined to one session.\<close>

lemma echoing_step:
  assumes e: "echoing lib key unsent bufs w" and s: "sessions w u = Some a" and fr: "frame_except a w w'"
    and a: "stream_over a w'" "upstreams w' a = Some (echoed b)" and unsent: "\<And>u'. u' \<noteq> u \<Longrightarrow> unsent' u' = unsent u'"
  shows "echoing lib key unsent' (bufs(u := b)) w'"
proof -
  have f: "sessions w' = sessions w" "next_actor w' = next_actor w" "mailbox_cap w' = mailbox_cap w" "w_config w' = w_config w"
    using fr by (simp_all add: frame_except_def)
  have "case sessions w u' of None \<Rightarrow> unsent' u' \<and> (bufs(u := b)) u' = []
      | Some c \<Rightarrow> c < next_actor w \<and> stream_over c w' \<and> upstreams w' c = Some (echoed ((bufs(u := b)) u'))" for u'
  proof (cases "u' = u")
    case True
    with echoing_session(1) [OF e s] s a show ?thesis by simp
  next
    case False
    show ?thesis
    proof (cases "sessions w u'")
      case None
      with echoing_unopened [OF e None] False unsent show ?thesis by simp
    next
      case (Some c)
      note c = echoing_session [OF e Some]
      have "c \<noteq> a" using echoing_session(6) [OF e s] Some False by blast
      with c(2,3) fr f(3) have "stream_over c w'" "upstreams w' c = Some (echoed (bufs u'))"
        by (simp_all add: stream_over_def ready_def frame_except_def)
      with Some c(1) False show ?thesis by simp
    qed
  qed
  with e show ?thesis unfolding echoing_def f by blast
qed

text \<open>The session a request of the client \<open>u\<close> talks to.\<close>

lemma echoing_resolve:
  assumes e: "echoing lib key unsent bufs w" and f: "sessions w u = None \<Longrightarrow> f"
  shows "\<exists>a w1. resolve prompt_echo f u w = Some (a, w1) \<and> sessions w1 u = Some a \<and>
    echoing lib key unsent bufs w1 \<and> w_config w1 = w_config w"
proof (cases "sessions w u")
  case (Some a)
  with e echoing_session(4) [OF e Some] resolve_live [of w u a prompt_echo f] show ?thesis by auto
next
  case None
  let ?a = "next_actor w"
  have free: "case sessions w u of None \<Rightarrow> True | Some a \<Rightarrow> \<not> is_alive w a" using None by simp
  have ok: "c_connect prompt_echo ?a (upstream (w_config w)) = Ok (echoed [])" by simp
  from resolve_new [OF free ok echoing_globals(4) [OF e]] f [OF None] obtain w1 where
      1: "resolve prompt_echo f u w = Some (?a, w1)" "ready w1 ?a" "upstreams w1 = (upstreams w)(?a \<mapsto> echoed [])"
        "sessions w1 = (sessions w)(u \<mapsto> ?a)" "w_config w1 = w_config w" "mailbox_cap w1 = mailbox_cap w"
        "read_locks w1 = (read_locks w)(?a := None)" "next_actor w1 = Suc ?a"
        "\<forall>c. c \<noteq> ?a \<longrightarrow> phase_of w1 c = phase_of w c \<and> mail_of w1 c = mail_of w c"
    by auto
  have "case sessions w1 u' of None \<Rightarrow> unsent u' \<and> bufs u' = []
      | Some c \<Rightarrow> c < next_actor w1 \<and> stream_over c w1 \<and> upstreams w1 c = Some (echoed (bufs u'))" for u'
  proof (cases "u' = u")
    case True
    with 1 echoing_unopened [OF e None] show ?thesis by (simp add: stream_over_def)
  next
    case False
    show ?thesis
    proof (cases "sessions w u'")
      case None
      with 1(4) False echoing_unopened [OF e None] show ?thesis by simp
    next
      case (Some c)
      note c = echoing_session [OF e Some]
      have "c \<noteq> ?a" using c(1) by simp
      with 1(9) have "phase_of w1 c = phase_of w c" "mail_of w1 c = mail_of w c" by simp_all
      with c \<open>c \<noteq> ?a\<close> have "stream_over c w1" by (simp add: stream_over_def ready_def 1(3,6,7))
      with c(1,3) \<open>c \<noteq> ?a\<close> Some False show ?thesis by (simp add: 1(3,4,8))
    qed
  qed
  moreover have "u1 = u2" if "sessions w1 u1 = Some c" "sessions w1 u2 = Some c" for u1 u2 c
    using that 1(4) echoing_session(1,6) [OF e] by (auto split: if_splits)
  ultimately have "echoing lib key unsent bufs w1"
    using echoing_globals [OF e] 1(5,6) unfolding echoing_def by auto
  with 1(1,4,5) show ?thesis by (intro exI [of _ ?a] exI [of _ w1]) simp
qed

lemma prompt_write_seq: "write_seq prompt_echo (echoed b) ds = Some (echoed (b @ concat ds))"
  by (induction ds arbitrary: b) simp_all

lemma echo_takes:
  assumes key: "session_key config = key" and e: "echoing lib key unsent bufs w" and f: "sessions w sid = None \<Longrightarrow> f"
    and x: "concat (rechunk x) = x" "word_of_nat (length x) \<noteq> (0 :: usize)"
    and req: "create_write_request lib config sid x f u = Ok req"
  shows "\<exists>rsp w'. server_send lib prompt_echo rechunk rid w req = (Ok rsp, w') \<and> rsp_status rsp = NO_CONTENT \<and>
    echoing lib key (unsent(sid := False)) (bufs(sid := bufs sid @ x)) w'"
proof -
  note g = echoing_globals [OF e]
  note head = write_request_head [OF g(1,2) key req, of rechunk]
  let ?m = "if f then Post else Patch"
  have ne: "rechunk x \<noteq> []" using x by auto
  from echoing_resolve [where f = f, OF e f] obtain a w1 where r: "resolve prompt_echo f sid w = Some (a, w1)"
      "sessions w1 sid = Some a" "echoing lib key unsent bufs w1" "w_config w1 = w_config w" by blast
  note s = echoing_session [OF r(3,2)]
  have r1: "resolve prompt_echo (?m \<noteq> Patch) sid w = Some (a, w1)" using r(1) by (cases f) simp_all
  have m: "?m \<noteq> Get" by simp
  from handle_write_ok [OF head(1) [folded g(3)] m r1 s(4,3) head(2) ne prompt_write_seq, of rid] x
  obtain w' where w': "handle_request lib prompt_echo rid (to_server rechunk req) w = (write_response, w')"
      "ready w' a" "frame_except a w1 w'" "upstreams w' a = Some (echoed (bufs sid @ x))" "read_locks w' = read_locks w1"
    by auto
  have "stream_over a w'" using w'(2,5) s(5) by (simp add: stream_over_def)
  from echoing_step [OF r(3,2) w'(3) this w'(4), of "unsent(sid := False)"] w'(1) show ?thesis
    by (simp add: server_send_def write_response_def)
qed

section \<open>Reading the echo\<close>

text \<open>One poll of a stream that finds data, and one that finds none after the first.\<close>

lemma poll_echo_data:
  assumes st: "streaming n a w" and v: "upstreams w a = Some (echoed b)" and b: "b \<noteq> []"
    and p: "stream_poll prompt_echo n w = (r, w1)"
  shows "r = Ready (Some (DataFrame (take READ_CAPACITY b)))"
    and "streaming n a (session_works prompt_echo n w1)"
    and "frame_except a w (session_works prompt_echo n w1)"
    and "upstreams (session_works prompt_echo n w1) a = Some (echoed (drop READ_CAPACITY b))"
    and "\<exists>s. streams (session_works prompt_echo n w1) n = Some s \<and> \<not> st_first s \<and> \<not> st_reading s"
proof -
  from st obtain s where s: "ready w a" "streams w n = Some s" "st_reader s = a" "st_session s = a"
      "st_tell s = None" "\<not> st_aborted s" by (rule streamingE)
  let ?bs = "take READ_CAPACITY b" and ?s = "s\<lparr>st_first := False, st_reading := False\<rparr>"
  have rd: "c_read_buf prompt_echo (echoed b) READ_CAPACITY = (Ready (Ok ?bs), echoed (drop READ_CAPACITY b))" and ne: "?bs \<noteq> []"
    using b by (simp_all add: READ_CAPACITY_def)
  let ?w = "w\<lparr>upstreams := (upstreams w)(a \<mapsto> echoed (drop READ_CAPACITY b)), w_stats := add_rx (length ?bs) (w_stats w)\<rparr>"
  have tell: "stream_tell n ?s ?bs ?w = (r, w1)"
    using p s(2,3,5,6) v rd ne by (simp add: stream_poll_def Let_def)
  have "ready ?w a" "streams ?w n \<noteq> None" "\<not> st_aborted ?s" using s v by simp_all
  note tw = tell_then_work(1) [OF this(1,2) _ _ this(3) tell]
    tell_then_work(2-5) [OF this(1,2) _ _ this(3) tell, where conn = prompt_echo]
  have "frame_except a w ?w" by (simp add: frame_except_def)
  from frame_except_trans [OF this tw(3)] tw s(3,4)
  show "r = Ready (Some (DataFrame ?bs))" "streaming n a (session_works prompt_echo n w1)"
    "frame_except a w (session_works prompt_echo n w1)"
    "upstreams (session_works prompt_echo n w1) a = Some (echoed (drop READ_CAPACITY b))"
    "\<exists>s. streams (session_works prompt_echo n w1) n = Some s \<and> \<not> st_first s \<and> \<not> st_reading s"
    by simp_all
qed

lemma poll_echo_empty:
  assumes st: "streaming n a w" and v: "upstreams w a = Some (echoed [])"
    and s: "streams w n = Some s" "\<not> st_first s" "\<not> st_reading s"
  shows "\<exists>w1. stream_poll prompt_echo n w = (Ready None, w1) \<and> stream_over a w1 \<and> frame_except a w w1 \<and>
    upstreams w1 a = Some (echoed [])"
proof -
  obtain r w1 where p: "stream_poll prompt_echo n w = (r, w1)" by fastforce
  have rd: "c_read_buf prompt_echo (echoed []) READ_CAPACITY = (Pending, echoed [])" by simp
  have "r = Ready None"
    using st p v s rd by (auto elim!: streamingE simp: stream_poll_def Let_def)
  with poll_cases [OF st v rd p] p show ?thesis by auto
qed

lemma drain_echo:
  assumes "streaming n a w" and "upstreams w a = Some (echoed b)" and "length (slices b) < fuel"
    and "b = [] \<Longrightarrow> \<exists>s. streams w n = Some s \<and> \<not> st_first s \<and> \<not> st_reading s"
  shows "\<exists>w'. drain prompt_echo e fuel n w = (data_body (slices b), w') \<and> stream_over a w' \<and>
    frame_except a w w' \<and> upstreams w' a = Some (echoed [])"
  using assms
proof (induction fuel arbitrary: w b)
  case (Suc fuel)
  show ?case
  proof (cases "b = []")
    case True
    with Suc.prems poll_echo_empty [OF Suc.prems(1)] show ?thesis by fastforce
  next
    case False
    obtain r w1 where p: "stream_poll prompt_echo n w = (r, w1)" by fastforce
    let ?w = "session_works prompt_echo n w1"
    note d = poll_echo_data [OF Suc.prems(1,2) False p]
    have "length (slices (drop READ_CAPACITY b)) < fuel" using Suc.prems(3) slices_nonempty [OF False] by simp
    from Suc.IH [OF d(2,4) this d(5)] obtain w' where
        i: "drain prompt_echo e fuel n ?w = (data_body (slices (drop READ_CAPACITY b)), w')" "stream_over a w'"
          "frame_except a ?w w'" "upstreams w' a = Some (echoed [])" by blast
    from frame_except_trans [OF d(3) i(3)] i p d(1) slices_nonempty [OF False] show ?thesis by simp
  qed
qed simp

lemma echo_serves:
  assumes key: "session_key config = key" and e: "echoing lib key unsent bufs w" and b: "bufs sid \<noteq> []"
    and polls: "length (slices (bufs sid)) < k"
    and req: "create_read_request lib config sid u = Ok req"
  shows "\<exists>rsp w'. server_read lib prompt_echo err (\<lambda>w. k) (\<lambda>w. Arrives) rid w req = (Ok rsp, w') \<and> rsp_status rsp = STATUS_OK \<and>
    rsp_body rsp = data_body (slices (bufs sid)) \<and> echoing lib key unsent (bufs(sid := [])) w'"
proof -
  note g = echoing_globals [OF e]
  from b echoing_unopened(2) [OF e] obtain a where s: "sessions w sid = Some a" by (cases "sessions w sid") auto
  note c = echoing_session [OF e s]
  have res: "resolve prompt_echo True sid w = Some (a, w)" using s c(4) by (rule resolve_live)
  from ask_read_free [OF c(4,5), of prompt_echo rid] obtain w2 where w2:
      "ask prompt_echo rid a SessionRead w = (Some (ReadReply (Some (next_stream w))), w2)" "ready w2 a"
      "frame_except a w w2" "upstreams w2 = upstreams w" "streams w2 = (streams w)(next_stream w \<mapsto> fresh_stream a)"
    by blast
  have head: "parse_head lib (cfg_session_key (w_config w)) (to_server (\<lambda>_. []) req) = Ok (Get, sid)"
    using read_request_head [OF g(1,2) key req] g(3) by simp
  have h: "handle_request lib prompt_echo rid (to_server (\<lambda>_. []) req) w = (read_response (next_stream w), w2)"
    using w2(1) by (simp add: handle_read_resolved [OF head res c(4)] handle_read_request_def)
  have st: "streaming (next_stream w) a w2" using w2(2,5) by (simp add: streaming_def)
  have "upstreams w2 a = Some (echoed (bufs sid))" using w2(4) c(3) by simp
  from drain_echo [OF st this polls] b obtain w3 where d:
      "drain prompt_echo err k (next_stream w) w2 = (data_body (slices (bufs sid)), w3)" "stream_over a w3"
      "frame_except a w2 w3" "upstreams w3 a = Some (echoed [])" by blast
  have "echoing lib key unsent (bufs(sid := [])) w3"
    using echoing_step [OF e s frame_except_trans [OF w2(3) d(3)] d(2,4)] by simp
  with h d(1) show ?thesis by (simp add: server_read_def read_response_def)
qed

section \<open>The pumps of the clients\<close>

definition echo_buffer :: "uuid \<Rightarrow> echo_conn world \<Rightarrow> bytes" where
  "echo_buffer sid w = (case Option.bind (sessions w sid) (upstreams w) of None \<Rightarrow> [] | Some c \<Rightarrow> underway c)"

definition echo_accepting ::
  "http_lib \<Rightarrow> string \<Rightarrow> (bytes \<Rightarrow> bytes list) \<Rightarrow> (uuid \<Rightarrow> bool) \<Rightarrow> (uuid \<Rightarrow> bytes) \<Rightarrow> uuid \<Rightarrow> bool \<Rightarrow> echo_conn world
   \<Rightarrow> bytes list \<Rightarrow> bool" where
  "echo_accepting lib key rechunk unsent bufs sid f w cs \<longleftrightarrow>
     (\<forall>x \<in> set cs. concat (rechunk x) = x \<and> word_of_nat (length x) \<noteq> (0 :: usize)) \<and>
     (\<exists>b. echoing lib key (unsent(sid := f)) (bufs(sid := b)) w)"

lemma echoing_buffer:
  assumes "echoing lib key unsent bufs w"
  shows "echo_buffer sid w = bufs sid"
  using echoing_session(3) [OF assms] echoing_unopened(2) [OF assms]
  by (cases "sessions w sid") (simp_all add: echo_buffer_def)

interpretation echo: write_service lib config sid
    "server_send lib prompt_echo rechunk rid" "echo_buffer sid"
    "echo_accepting lib (session_key config) rechunk unsent bufs sid"
  for lib config sid rechunk rid unsent bufs
proof
  fix f w c cs u req
  assume acc: "echo_accepting lib (session_key config) rechunk unsent bufs sid f w (c # cs)"
    and req: "create_write_request lib config sid c f u = Ok req"
  then obtain b where e: "echoing lib (session_key config) (unsent(sid := f)) (bufs(sid := b)) w"
    by (auto simp: echo_accepting_def)
  have f: "f" if "sessions w sid = None" using echoing_unopened(1) [OF e that] by simp
  from echo_takes [OF refl e f _ _ req, of rechunk rid] acc obtain rsp w' where
      w': "server_send lib prompt_echo rechunk rid w req = (Ok rsp, w')" "rsp_status rsp = NO_CONTENT"
        "echoing lib (session_key config) (unsent(sid := False)) (bufs(sid := b @ c)) w'"
    by (auto simp: echo_accepting_def)
  have "echo_accepting lib (session_key config) rechunk unsent bufs sid False w' cs"
    using acc w'(3) by (auto simp: echo_accepting_def)
  with w' echoing_buffer [OF e, of sid] echoing_buffer [OF w'(3), of sid]
  show "\<exists>rsp w'. server_send lib prompt_echo rechunk rid w req = (Ok rsp, w') \<and> rsp_status rsp = NO_CONTENT \<and>
      echo_buffer sid w' = echo_buffer sid w @ c \<and>
      echo_accepting lib (session_key config) rechunk unsent bufs sid False w' cs"
    by simp
qed

lemma forward_all: "[] \<notin> set ds \<Longrightarrow> forward_body (\<lambda>_. True) (data_body ds) out = (True, out @ map Ok ds)"
  by (induction ds arbitrary: out) (auto simp: chan_send_def)

lemma script_hears:
  assumes key: "session_key config = key" and chunked: "\<And>b. concat (n_rechunk net b) = b"
    and writes: "\<And>sid x f u. is_ok (create_write_request (n_lib net) config sid x f u)"
    and reads: "\<And>sid u. is_ok (create_read_request (n_lib net) config sid u)"
    and "echoing (n_lib net) key unsent bufs (p_net p)" and "list_all step_ok xs" and "echo_script xs bufs = Some outs"
    and "\<And>u. length (bufs u) + sum_list (map step_bytes xs) < n_polls net"
  shows "\<exists>p'. run_script net config xs unsent p = Some (outs, p')"
  using assms(5-)
proof (induction xs arbitrary: unsent bufs p outs)
  case (Cons x xs)
  show ?case
  proof (cases x)
    case (WriteAll sid chunks)
    have "echo_accepting (n_lib net) (session_key config) (n_rechunk net) unsent bufs sid (unsent sid) (p_net p) chunks"
      using Cons.prems(1,2) WriteAll key chunked
      by (auto simp: echo_accepting_def list_all_iff intro!: exI [of _ "bufs sid"])
    from echo.pump_delivers [OF _ _ this, of "writer_env net prompt_echo" 0] writes obtain p1 where
        p1: "pump_outgoing_loop (writer_env net prompt_echo) config sid (unsent sid) chunks p = (Ok (), p1)"
          "echo_buffer sid (p_net p1) = echo_buffer sid (p_net p) @ concat chunks"
          "echo_accepting (n_lib net) key (n_rechunk net) unsent bufs sid (unsent sid \<and> chunks = []) (p_net p1) []"
      by (auto simp: writer_env_def key)
    from p1(3) obtain b where e1: "echoing (n_lib net) key (unsent(sid := unsent sid \<and> chunks = [])) (bufs(sid := b)) (p_net p1)"
      unfolding echo_accepting_def by blast
    have b: "b = bufs sid @ concat chunks"
      using p1(2) echoing_buffer [OF e1, of sid] echoing_buffer [OF Cons.prems(1), of sid] by simp
    have "length ((bufs(sid := b)) u) + sum_list (map step_bytes xs) < n_polls net" for u
      using Cons.prems(4) [of u] WriteAll b by auto
    moreover have "list_all step_ok xs" "echo_script xs (bufs(sid := b)) = Some outs"
      using Cons.prems(2,3) WriteAll b by simp_all
    ultimately have "\<exists>p'. run_script net config xs (unsent(sid := unsent sid \<and> chunks = [])) p1 = Some (outs, p')"
      using Cons.IH [OF e1] by blast
    with WriteAll p1(1) show ?thesis by simp
  next
    case (ReadAll sid)
    let ?u = "n_uuid net (p_uuids p)"
    from Cons.prems(3) ReadAll obtain outs1 where o: "bufs sid \<noteq> []" "outs = map Ok (slices (bufs sid)) # outs1"
        "echo_script xs (bufs(sid := [])) = Some outs1"
      by (auto split: if_splits)
    obtain req where req: "create_read_request (n_lib net) config sid ?u = Ok req"
      using reads [of sid ?u] by (cases "create_read_request (n_lib net) config sid ?u") auto
    have "length (slices (bufs sid)) < n_polls net"
      using Cons.prems(4) [of sid] slices_length [of "bufs sid"] by simp
    from echo_serves [OF key Cons.prems(1) o(1) this req, of "n_break net" 0] obtain rsp w' where
        s: "server_read (n_lib net) prompt_echo (n_break net) (\<lambda>w. n_polls net) (\<lambda>w. Arrives) 0 (p_net p) req = (Ok rsp, w')"
          "rsp_status rsp = STATUS_OK" "rsp_body rsp = data_body (slices (bufs sid))"
          "echoing (n_lib net) key unsent (bufs(sid := [])) w'" by blast
    let ?p = "p\<lparr>p_uuids := Suc (p_uuids p), p_net := w'\<rparr>"
    have r: "pump_incoming_round (reader_env net) config sid (\<lambda>_. True) p [] = (None, ?p, map Ok (slices (bufs sid)))"
      using req s(1-3) forward_all [OF slices_not_empty]
      by (simp add: pump_incoming_round_def send_request_def reader_env_def is_success_def)
    have "length ((bufs(sid := [])) u) + sum_list (map step_bytes xs) < n_polls net" for u
      using Cons.prems(4) [of u] ReadAll by auto
    moreover have "echoing (n_lib net) key unsent (bufs(sid := [])) (p_net ?p)" "list_all step_ok xs"
      using s(4) Cons.prems(2) by simp_all
    ultimately obtain p' where "run_script net config xs unsent ?p = Some (outs1, p')"
      using Cons.IH [OF _ _ o(3)] by blast
    with r o(2) ReadAll show ?thesis by auto
  qed
qed simp

section \<open>The tests pass\<close>

text \<open>\<^verbatim>\<open>client.read(&mut buffer)\<close> on what a turn of the pump has put into the channel.\<close>

definition client_read :: "nat \<Rightarrow> chan \<Rightarrow> bytes option" where
  "client_read n out =
     (case out of [] \<Rightarrow> None | Inl e # _ \<Rightarrow> None | Inr d # _ \<Rightarrow> Some (take n d))"

text \<open>
  The tests, with the chunks in which the pump takes the written bytes up: a short message is
  one chunk; \<^verbatim>\<open>test_large_data_transfer\<close> leaves them free and reads until it has everything.
\<close>

definition run_test :: "script_net \<Rightarrow> nat \<Rightarrow> socket_addr \<Rightarrow> test_step list \<Rightarrow> chan list option" where
  "run_test net cap echo_addr xs =
     map_option fst (run_script net example_df_config xs (\<lambda>_. True) (start_clients cap (echo_server_config echo_addr)))"

definition test_client_server_bidirectional :: "script_net \<Rightarrow> nat \<Rightarrow> socket_addr \<Rightarrow> uuid \<Rightarrow> bool" where
  "test_client_server_bidirectional net cap echo_addr sid =
     (case run_test net cap echo_addr
        [WriteAll sid [bytes_of ''Hello from client''], ReadAll sid,
         WriteAll sid [bytes_of ''Second message''], ReadAll sid] of
        Some [out1, out2] \<Rightarrow>
          client_read 1024 out1 = Some (bytes_of ''Hello from client'') \<and>
          client_read 1024 out2 = Some (bytes_of ''Second message'')
      | _ \<Rightarrow> False)"

definition test_multiple_sessions :: "script_net \<Rightarrow> nat \<Rightarrow> socket_addr \<Rightarrow> uuid \<Rightarrow> uuid \<Rightarrow> bool" where
  "test_multiple_sessions net cap echo_addr sid1 sid2 =
     (case run_test net cap echo_addr
        [WriteAll sid1 [bytes_of ''from_client1''], WriteAll sid2 [bytes_of ''from_client2''],
         ReadAll sid1, ReadAll sid2] of
        Some [out1, out2] \<Rightarrow>
          client_read 1024 out1 = Some (bytes_of ''from_client1'') \<and>
          client_read 1024 out2 = Some (bytes_of ''from_client2'')
      | _ \<Rightarrow> False)"

definition test_large_data_transfer :: "script_net \<Rightarrow> nat \<Rightarrow> socket_addr \<Rightarrow> uuid \<Rightarrow> bytes list \<Rightarrow> bool" where
  "test_large_data_transfer net cap echo_addr sid chunks =
     (case run_test net cap echo_addr [WriteAll sid chunks, ReadAll sid] of
        Some [out] \<Rightarrow> list_all is_ok out \<and> concat (map projr out) = replicate 100000 0x42
      | _ \<Rightarrow> False)"

text \<open>\<^verbatim>\<open>test_connection_task_stopped_on_drop\<close>, on a connection whose task has just been spawned.\<close>

definition is_finished :: "join_handle \<Rightarrow> bool" where
  "is_finished h \<longleftrightarrow> h \<noteq> TaskRunning"

definition test_connection_task_stopped_on_drop :: "'w \<Rightarrow> 'r \<Rightarrow> bool" where
  "test_connection_task_stopped_on_drop tx rx =
     (let client = \<lparr>request_tx = tx, response_rx = rx, io_task = TaskRunning\<rparr>
      in \<not> is_finished (io_task client) \<and> is_finished (connection_drop client))"

lemma bytes_of_props [simp]: "length (bytes_of s) = length s" "bytes_of s = [] \<longleftrightarrow> s = []"
  by (simp_all add: bytes_of_def)

lemma run_test_hears:
  assumes "0 < cap" and "plain_net net" and "list_all step_ok xs" and "sum_list (map step_bytes xs) < n_polls net"
    and "echo_script xs (\<lambda>_. []) = Some outs"
  shows "run_test net cap echo_addr xs = Some outs"
proof -
  have k: "session_key example_df_config = DEFAULT_SESSION_KEY" "cfg_session_key (echo_server_config echo_addr) = DEFAULT_SESSION_KEY"
    by (simp_all add: example_df_config_def DomainFronting_new_def echo_server_config_def Config_new_def)
  let ?cfg = "echo_server_config echo_addr"
  have "echoing (n_lib net) (session_key example_df_config) (\<lambda>_. True) (\<lambda>_. []) (p_net (start_clients cap ?cfg))"
    using assms(1,2) k by (simp add: plain_net_def start_clients_def echoing_start plain_http_lib_law default_session_key_plain)
  from script_hears [OF refl _ _ _ this assms(3,5)] assms(2,4) plain_builders
  have "\<exists>p'. run_script net example_df_config xs (\<lambda>_. True) (start_clients cap ?cfg) = Some (outs, p')"
    by (simp add: plain_net_def)
  then show ?thesis by (auto simp: run_test_def)
qed

lemma short_message_ok:
  "0 < length m \<Longrightarrow> length m < 1024 \<Longrightarrow> word_of_nat (length m) \<noteq> (0 :: usize)"
  "0 < length m \<Longrightarrow> length m < 1024 \<Longrightarrow> slices (bytes_of m) = [bytes_of m]"
  "length m < 1024 \<Longrightarrow> client_read 1024 [Ok (bytes_of m)] = Some (bytes_of m)"
  by (auto simp: slices_short READ_CAPACITY_def client_read_def word_of_nat_eq_0_iff dest: dvd_imp_le)

lemma test_client_server_bidirectional_passes:
  assumes "0 < cap" and "plain_net net" and "31 < n_polls net"
  shows "test_client_server_bidirectional net cap echo_addr sid"
proof -
  define m1 m2 where m: "m1 = ''Hello from client''" "m2 = ''Second message''"
  then have l: "length m1 = 17" "length m2 = 14" by simp_all
  then have ne: "m1 \<noteq> []" "m2 \<noteq> []" by auto
  note o = short_message_ok [of m1, unfolded l, simplified] short_message_ok [of m2, unfolded l, simplified]
  have "run_test net cap echo_addr
      [WriteAll sid [bytes_of m1], ReadAll sid, WriteAll sid [bytes_of m2], ReadAll sid] = Some [[Ok (bytes_of m1)], [Ok (bytes_of m2)]]"
    by (rule run_test_hears) (use assms o ne l in \<open>simp_all\<close>)
  with o show ?thesis by (simp add: test_client_server_bidirectional_def flip: m)
qed

lemma test_multiple_sessions_passes:
  assumes "0 < cap" and "plain_net net" and "24 < n_polls net" and "sid1 \<noteq> sid2"
  shows "test_multiple_sessions net cap echo_addr sid1 sid2"
proof -
  define m1 m2 where m: "m1 = ''from_client1''" "m2 = ''from_client2''"
  then have l: "length m1 = 12" "length m2 = 12" by simp_all
  then have ne: "m1 \<noteq> []" "m2 \<noteq> []" by auto
  note o = short_message_ok [of m1, unfolded l, simplified] short_message_ok [of m2, unfolded l, simplified]
  have "run_test net cap echo_addr
      [WriteAll sid1 [bytes_of m1], WriteAll sid2 [bytes_of m2], ReadAll sid1, ReadAll sid2] = Some [[Ok (bytes_of m1)], [Ok (bytes_of m2)]]"
    by (rule run_test_hears) (use assms o ne l in \<open>simp_all\<close>)
  with o show ?thesis by (simp add: test_multiple_sessions_def flip: m)
qed

lemma test_large_data_transfer_passes:
  assumes "0 < cap" and "plain_net net" and "100000 < n_polls net"
    and chunks: "concat chunks = replicate 100000 0x42" "[] \<notin> set chunks"
  shows "test_large_data_transfer net cap echo_addr sid chunks"
proof -
  define data :: bytes where "data = replicate 100000 0x42"
  have data: "length data = 100000" "concat chunks = data" by (simp_all add: data_def chunks(1))
  have "length c \<le> length (concat chunks)" if "c \<in> set chunks" for c
    using that by (induction chunks) auto
  with data have "length c \<le> 100000" "0 < length c" if "c \<in> set chunks" for c
    using that chunks(2) by auto
  then have w: "word_of_nat (length c) \<noteq> (0 :: usize)" if "c \<in> set chunks" for c
    using that by (fastforce simp: word_of_nat_eq_0_iff dest!: dvd_imp_le)
  have r: "run_test net cap echo_addr [WriteAll sid chunks, ReadAll sid] = Some [map Ok (slices data)]"
    by (rule run_test_hears) (use assms(1-3) data w in \<open>auto simp: list_all_iff\<close>)
  have "concat (map projr (map Ok (slices data) :: chan)) = data" by (simp add: comp_def)
  with r show ?thesis by (simp add: test_large_data_transfer_def list_all_iff flip: data_def)
qed

lemma test_connection_task_stopped_on_drop_passes: "test_connection_task_stopped_on_drop tx rx"
  by (simp add: test_connection_task_stopped_on_drop_def is_finished_def connection_drop_def)

end
