(* ===== verification/Binaries.thy ===== *)
theory Binaries
  imports Client_Correct Server_Requests
begin

text \<open>
  The three programs under \<^verbatim>\<open>src/bin\<close>, without their argument parsing and logging: which
  connection the two clients open and what they do with it, and of
  \<^verbatim>\<open>domain_fronting_server\<close> the loading of the certificate, the choice of TLS, the
  configuration of the server and the accept loop with its traffic reports. The root
  certificates are a parameter of the TLS configuration; files, PEM parsing and the TLS
  library are the parameter \<open>pki\<close>, and the \<^verbatim>\<open>tokio\<close> operations on a whole connection the
  parameter \<open>io_ext\<close>.
\<close>

section \<open>The client programs\<close>

text \<open>\<^verbatim>\<open>anyhow\<close> errors, by the context the source gives them.\<close>

datatype client_error =
    FailedToResolve df_error
  | FailedToConnect df_error
  | Http2RequiresTls
  | ConnectionFailed io_error

definition base_tls_config :: "'c \<Rightarrow> 'c client_config" where
  "base_tls_config roots = \<lparr>alpn_protocols = [], cc_rest = roots\<rparr>"

definition domain_fronting_main where
  "domain_fronting_main tr gai roots front_uri host =
     (let df = DomainFronting_new front_uri host in
      bind_result (map_err FailedToResolve (proxy_config gai df))
        (\<lambda>pc. map_err FailedToConnect
          (if tls df then connect_https1_1 tr pc (base_tls_config roots) else connect_http1_1 tr pc)))"

definition http_get_request :: "string option \<Rightarrow> string \<Rightarrow> string" where
  "http_get_request url host =
     (let u = (case url of Some x \<Rightarrow> x | None \<Rightarrow> ''https://'' @ host @ ''/'');
          crlf = [CHR 0x0D, CHR 0x0A]
      in ''GET '' @ u @ '' HTTP/1.1'' @ crlf @ ''Host: '' @ host @ crlf @ ''Connection: close'' @ crlf @ crlf)"

definition domain_fronting_stdio_main where
  "domain_fronting_stdio_main tr gai roots front_uri http2 host =
     (let df = DomainFronting_new front_uri host in
      bind_result (map_err FailedToResolve (proxy_config gai df))
        (\<lambda>pc. if tls df then
                 (let cfg = base_tls_config roots;
                      cfg = (if http2 then cfg\<lparr>alpn_protocols := alpn_protocols cfg @ [ALPN_h2]\<rparr> else cfg)
                  in map_err FailedToConnect
                       (if http2 then connect_https2 tr pc cfg else connect_https1_1 tr pc cfg))
               else if http2 then Err Http2RequiresTls
               else map_err FailedToConnect (connect_http1_1 tr pc)))"

text \<open>
  The rest of the two programs works on the open connection as a whole. \<open>'k\<close> is the state
  of a connection with what is behind it, \<open>opened\<close> the one that a call has opened.
\<close>

record 'k io_ext =
  io_write_all :: "'k \<Rightarrow> bytes \<Rightarrow> (io_error, unit) result \<times> 'k"
  io_read_to_end :: "'k \<Rightarrow> (io_error, bytes) result \<times> 'k"
  io_copy_bidirectional :: "'k \<Rightarrow> (io_error, nat \<times> nat) result \<times> 'k"

record client_args =
  ca_front :: uri
  ca_host :: string
  ca_url :: "string option"

definition http_get :: "'k io_ext \<Rightarrow> (bytes \<Rightarrow> string) \<Rightarrow> string option \<Rightarrow> string \<Rightarrow> 'k \<Rightarrow> (io_error, string) result \<times> 'k" where
  "http_get io lossy url host k =
     (case io_write_all io k (bytes_of (http_get_request url host)) of
        (Inl e, k1) \<Rightarrow> (Err e, k1)
      | (Inr _, k1) \<Rightarrow>
          (case io_read_to_end io k1 of
             (Inl e, k2) \<Rightarrow> (Err e, k2)
           | (Inr response, k2) \<Rightarrow> (Ok (lossy response @ [CHR 0x0A]), k2)))"

definition domain_fronting_program where
  "domain_fronting_program tr gai roots opened io lossy args =
     bind_result (domain_fronting_main tr gai roots (ca_front args) (ca_host args))
       (\<lambda>c. map_err ConnectionFailed (fst (http_get io lossy (ca_url args) (ca_host args) (opened c))))"

record stdio_args =
  sa_front :: uri
  sa_http2 :: bool
  sa_host :: string

definition domain_fronting_stdio_program where
  "domain_fronting_stdio_program tr gai roots opened io args =
     bind_result (domain_fronting_stdio_main tr gai roots (sa_front args) (sa_http2 args) (sa_host args))
       (\<lambda>c. bind_result (map_err ConnectionFailed (fst (io_copy_bidirectional io (opened c)))) (\<lambda>_. Ok ()))"

section \<open>The server program\<close>

text \<open>
  \<^verbatim>\<open>load_tls_config\<close>: the certificate file is read as a sequence of PEM items, of which the
  first that is broken is the error.
\<close>

record ('file, 'cert, 'key, 'a) pki =
  pki_open :: "string \<Rightarrow> (string, 'file) result"
  pki_pem_items :: "'file \<Rightarrow> (string, 'cert) result list"
  pki_key_from_pem_file :: "string \<Rightarrow> (string, 'key) result"
  pki_single_cert :: "'cert list \<Rightarrow> 'key \<Rightarrow> (string, 'a) result"

fun collect_results :: "('e, 'x) result list \<Rightarrow> ('e, 'x list) result" where
  "collect_results [] = Ok []"
| "collect_results (Inl e # rs) = Err e"
| "collect_results (Inr x # rs) = bind_result (collect_results rs) (\<lambda>xs. Ok (x # xs))"

definition load_tls_config :: "('file, 'cert, 'key, 'a) pki \<Rightarrow> string \<Rightarrow> string \<Rightarrow> (string, 'a) result" where
  "load_tls_config pki cert_path key_path =
     bind_result (pki_open pki cert_path)
       (\<lambda>cert_file. bind_result (collect_results (pki_pem_items pki cert_file))
         (\<lambda>cert_chain. bind_result (pki_key_from_pem_file pki key_path)
           (\<lambda>key. pki_single_cert pki cert_chain key)))"

definition tls_acceptor ::
  "('file, 'cert, 'key, 'a) pki \<Rightarrow> string option \<Rightarrow> string option \<Rightarrow> string option
   \<Rightarrow> (string, 'a option) result" where
  "tls_acceptor pki cert_path key_path hostname =
     (case (cert_path, key_path, hostname) of
        (Some c, Some k, Some h) \<Rightarrow> bind_result (load_tls_config pki c k) (\<lambda>a. Ok (Some a))
      | (None, None, None) \<Rightarrow> Ok None
      | _ \<Rightarrow> Err ''To enable TLS, all 3 arguments (--cert-path, --key-path and --hostname) must be used'')"

text \<open>
  The arguments of the program, with the defaults its parser fills in. The timeouts are
  floating-point seconds; \<open>secs\<close> stands for \<^verbatim>\<open>Duration::from_secs_f32\<close>, which panics
  (\<open>None\<close>) on negative, too large and non-finite values.
\<close>

record 'f server_args =
  arg_hostname :: "string option"
  arg_cert_path :: "string option"
  arg_key_path :: "string option"
  arg_upstream :: socket_addr
  arg_port :: u16
  arg_session_key :: string
  arg_total_timeout :: 'f
  arg_idle_timeout :: 'f

definition default_server_args :: "(nat \<Rightarrow> 'f) \<Rightarrow> socket_addr \<Rightarrow> 'f server_args" where
  "default_server_args lit up =
     \<lparr>arg_hostname = None, arg_cert_path = None, arg_key_path = None, arg_upstream = up,
      arg_port = 443, arg_session_key = DEFAULT_SESSION_KEY,
      arg_total_timeout = lit 45, arg_idle_timeout = lit 30\<rparr>"

definition server_config :: "socket_addr \<Rightarrow> duration \<Rightarrow> duration \<Rightarrow> string \<Rightarrow> config" where
  "server_config up total_t idle_t key = Config_with_session_key (Config_new up total_t idle_t) key"

text \<open>
  Starting up: the TLS arguments are checked and loaded first, then the socket is bound,
  then the configuration is built.
\<close>

datatype ('l, 'a) startup = StartError string | StartPanic | Started 'l "'a option" config

definition server_main ::
  "('file, 'cert, 'key, 'a) pki \<Rightarrow> (socket_addr \<Rightarrow> (string, 'l) result) \<Rightarrow> ('f \<Rightarrow> duration option)
   \<Rightarrow> 'f server_args \<Rightarrow> ('l, 'a) startup" where
  "server_main pki bind secs args =
     (let bind_addr = \<lparr>sa_ip = V4 0, sa_port = arg_port args\<rparr> in
      case tls_acceptor pki (arg_cert_path args) (arg_key_path args) (arg_hostname args) of
        Inl e \<Rightarrow> StartError e
      | Inr acceptor \<Rightarrow>
          (case bind bind_addr of
             Inl e \<Rightarrow> StartError e
           | Inr listener \<Rightarrow>
               (case (secs (arg_total_timeout args), secs (arg_idle_timeout args)) of
                  (Some ttl, Some idl) \<Rightarrow>
                    Started listener acceptor (server_config (arg_upstream args) ttl idl (arg_session_key args))
                | _ \<Rightarrow> StartPanic)))"

text \<open>
  One accepted connection: with TLS the handshake comes first and a failure of it ends the
  connection; then each request that the HTTP library reads from the connection is handed
  to \<^verbatim>\<open>Server::handle_request\<close>.
\<close>

fun serve_connection ::
  "http_lib \<Rightarrow> 'u connector \<Rightarrow> nat \<Rightarrow> server_body http_request list \<Rightarrow> 'u world \<Rightarrow> response list \<times> 'u world" where
  "serve_connection lib conn rid [] w = ([], w)"
| "serve_connection lib conn rid (req # reqs) w =
     (let (r, w1) = handle_request lib conn rid req w;
          (rs, w2) = serve_connection lib conn rid reqs w1
      in (r # rs, w2))"

definition accept_connection ::
  "http_lib \<Rightarrow> 'u connector \<Rightarrow> ('a \<Rightarrow> 's \<Rightarrow> (io_error, 't) result) \<Rightarrow> ('t \<Rightarrow> server_body http_request list)
   \<Rightarrow> ('s \<Rightarrow> server_body http_request list) \<Rightarrow> nat \<Rightarrow> 'a option \<Rightarrow> 's \<Rightarrow> 'u world \<Rightarrow> response list \<times> 'u world" where
  "accept_connection lib conn accept tls_requests tcp_requests rid acceptor s w =
     (case acceptor of
        Some a \<Rightarrow>
          (case accept a s of
             Inr t \<Rightarrow> serve_connection lib conn rid (tls_requests t) w
           | Inl e \<Rightarrow> ([], w))
      | None \<Rightarrow> serve_connection lib conn rid (tcp_requests s) w)"

text \<open>
  The accept loop: one turn per accepted connection, at the time \<open>now\<close>. A report holds
  the number of connections since the last one and the traffic since then.
\<close>

record report_state =
  connections_since_report :: u64
  last_report :: "nat option"

definition report_init :: report_state where
  "report_init = \<lparr>connections_since_report = 0, last_report = None\<rparr>"

definition REPORT_INTERVAL :: duration where
  "REPORT_INTERVAL = from_secs 5"

definition accept_turn ::
  "nat \<Rightarrow> 'u world \<times> report_state \<Rightarrow> (u64 \<times> stats) option \<times> 'u world \<times> report_state" where
  "accept_turn now ws =
     (let (w, st) = ws;
          st1 = st\<lparr>connections_since_report := connections_since_report st + 1\<rparr>
      in if (case last_report st1 of None \<Rightarrow> True | Some t \<Rightarrow> REPORT_INTERVAL \<le> now - t)
         then (let (stats, w1) = take_stats w
               in (Some (connections_since_report st1, stats), w1,
                   st1\<lparr>connections_since_report := 0, last_report := Some now\<rparr>))
         else (None, w, st1))"

text \<open>
  The accept loop over the outcomes of \<^verbatim>\<open>accept\<close>: it ends, and the program with it, on the
  first error. Between two accepts the server works: \<open>work\<close> is what has happened to the
  world by the next one. The result holds the reports and the error, if there was one.
\<close>

fun accept_loop ::
  "(io_error, nat \<times> ('u world \<Rightarrow> 'u world)) result list \<Rightarrow> 'u world \<times> report_state
   \<Rightarrow> (nat \<times> u64 \<times> stats) list \<times> io_error option \<times> 'u world \<times> report_state" where
  "accept_loop [] ws = ([], None, ws)"
| "accept_loop (Inl e # as) ws = ([], Some e, ws)"
| "accept_loop (Inr (now, work) # as) ws =
     (case accept_turn now (work (fst ws), snd ws) of
        (r, ws1) \<Rightarrow>
          (case accept_loop as ws1 of
             (rs, e, ws2) \<Rightarrow> ((case r of None \<Rightarrow> rs | Some x \<Rightarrow> (now, x) # rs), e, ws2)))"

section \<open>Properties\<close>

text \<open>
  \<^verbatim>\<open>domain_fronting\<close> prints what the connection delivers up to its end, after it has
  written the request.
\<close>

lemma domain_fronting_prints:
  assumes "domain_fronting_main tr gai roots (ca_front args) (ca_host args) = Ok c"
    and "io_write_all io (opened c) (bytes_of (http_get_request (ca_url args) (ca_host args))) = (Ok (), k)"
    and "io_read_to_end io k = (Ok response, k')"
  shows "domain_fronting_program tr gai roots opened io lossy args = Ok (lossy response @ [CHR 0x0A])"
  using assms by (simp add: domain_fronting_program_def http_get_def)

text \<open>C35: neither client program ever fails with \<^verbatim>\<open>MisconfiguredAlpn\<close>: the TLS configuration each
  builds fits the HTTP version it asks for; and \<^verbatim>\<open>domain_fronting_stdio\<close> refuses HTTP/2
  without TLS, after the front has been resolved and before anything is connected.\<close>

theorem clients_never_misconfigure_alpn:
  "domain_fronting_main tr gai roots f host \<noteq> Err (FailedToConnect MisconfiguredAlpn) \<and>
   domain_fronting_stdio_main tr gai roots f http2 host \<noteq> Err (FailedToConnect MisconfiguredAlpn) \<and>
   (http2 \<and> uri_scheme f = Some HTTP \<and> proxy_config gai (DomainFronting_new f host) = Ok pc \<longrightarrow>
      domain_fronting_stdio_main tr gai roots f http2 host = Err Http2RequiresTls)"
proof -
  have no: "map_err g r = Err (FailedToConnect MisconfiguredAlpn) \<longleftrightarrow>
      (\<exists>e. r = Err e \<and> g e = FailedToConnect MisconfiguredAlpn)" for g and r :: "(df_error, 'z) result"
    by (cases r) auto
  show ?thesis
    by (auto simp: alpn_connect_https2 alpn_connect_https1_1 alpn_http1_1 domain_fronting_main_def
        domain_fronting_stdio_main_def Let_def bind_result_Err_iff no base_tls_config_def tls_def
        DomainFronting_new_def split: if_splits)
qed


definition demo_gai :: getaddrinfo where
  "demo_gai q = Ok [\<lparr>sa_ip = V4 1, sa_port = 0\<rparr>]"

theorem clients_never_misconfigure_alpn_witness:
  "domain_fronting_stdio_main demo_transports demo_gai ()
     \<lparr>uri_scheme = Some HTTP, uri_host = Some ''cdn'', uri_port_u16 = None\<rparr> True ''api'' = Err Http2RequiresTls"
proof -
  let ?f = "\<lparr>uri_scheme = Some HTTP, uri_host = Some ''cdn'', uri_port_u16 = None\<rparr>"
  have "proxy_config demo_gai (DomainFronting_new ?f ''api'') =
      Ok \<lparr>addr = \<lparr>sa_ip = V4 1, sa_port = 80\<rparr>, pc_domain_fronting = DomainFronting_new ?f ''api''\<rparr>" by code_simp
  with clients_never_misconfigure_alpn [of demo_transports demo_gai "()" ?f "''api''" True] show ?thesis by simp
qed

lemma collect_results_Ok: "collect_results rs = Ok xs \<longleftrightarrow> rs = map Ok xs"
  by (induction rs arbitrary: xs rule: collect_results.induct) (auto simp: bind_result_Ok_iff Cons_eq_map_conv)

lemma load_tls_config_Ok:
  "load_tls_config pki c k = Ok a \<longleftrightarrow>
     (\<exists>f chain key. pki_open pki c = Ok f \<and> pki_pem_items pki f = map Ok chain \<and>
        pki_key_from_pem_file pki k = Ok key \<and> pki_single_cert pki chain key = Ok a)"
  by (auto simp: load_tls_config_def bind_result_Ok_iff collect_results_Ok)

lemma tls_acceptor_cases:
  "tls_acceptor load c k h = Ok None \<longleftrightarrow> c = None \<and> k = None \<and> h = None"
  "tls_acceptor load c k h = Ok (Some a) \<longleftrightarrow>
     (\<exists>cp kp hn. c = Some cp \<and> k = Some kp \<and> h = Some hn \<and> load_tls_config load cp kp = Ok a)"
  by (auto simp: tls_acceptor_def bind_result_Ok_iff bind_result_def split: option.splits sum.splits)

text \<open>C36: the server program runs with TLS exactly when certificate, key and host name are all
  given and can be loaded (the certificate file opens, every PEM item of it and the key
  parse, and the TLS library takes them as a pair), and without TLS exactly when none is given; in every other
  case it does not start. In particular a certificate path that is omitted while a key or a host name is given
  is refused, where the documentation of the argument (\<^verbatim>\<open>src/bin/domain_fronting_server.rs\<close>,
  line 46) says that plain TCP is used whenever it is omitted. Once started it listens on
  the given port of all IPv4 interfaces, and its configuration holds the upstream, the
  session header and the two timeouts of the command line.\<close>

theorem server_starts_as_told:
  "server_main pki bind secs args = Started l acc cfg \<longleftrightarrow>
     bind \<lparr>sa_ip = V4 0, sa_port = arg_port args\<rparr> = Ok l \<and>
     (case acc of
        None \<Rightarrow> arg_cert_path args = None \<and> arg_key_path args = None \<and> arg_hostname args = None
      | Some a \<Rightarrow> \<exists>c k h f chain key. arg_cert_path args = Some c \<and> arg_key_path args = Some k \<and>
                    arg_hostname args = Some h \<and> pki_open pki c = Ok f \<and> pki_pem_items pki f = map Ok chain \<and>
                    pki_key_from_pem_file pki k = Ok key \<and> pki_single_cert pki chain key = Ok a) \<and>
     (\<exists>ttl idl. secs (arg_total_timeout args) = Some ttl \<and> secs (arg_idle_timeout args) = Some idl \<and>
        cfg = \<lparr>upstream = arg_upstream args, cfg_session_key = arg_session_key args,
               total_timeout = ttl, idle_timeout = idl\<rparr>)"
proof -
  have "server_main pki bind secs args = Started l acc cfg \<longleftrightarrow>
      bind \<lparr>sa_ip = V4 0, sa_port = arg_port args\<rparr> = Ok l \<and>
      tls_acceptor pki (arg_cert_path args) (arg_key_path args) (arg_hostname args) = Ok acc \<and>
      (\<exists>ttl idl. secs (arg_total_timeout args) = Some ttl \<and> secs (arg_idle_timeout args) = Some idl \<and>
        cfg = server_config (arg_upstream args) ttl idl (arg_session_key args))"
    by (auto simp: server_main_def Let_def split: sum.splits option.splits)
  then show ?thesis
    by (cases acc) (auto simp: tls_acceptor_cases load_tls_config_Ok server_config_def Config_with_session_key_def Config_new_def)
qed

text \<open>Reports at least the interval apart, also from the last one before.\<close>

fun spaced :: "nat option \<Rightarrow> (nat \<times> 'x) list \<Rightarrow> bool" where
  "spaced prev [] = True"
| "spaced prev ((t, x) # rs) =
     ((case prev of None \<Rightarrow> True | Some u \<Rightarrow> u + REPORT_INTERVAL \<le> t) \<and> spaced (Some t) rs)"

lemma accept_turn_cases:
  assumes "accept_turn now (w, st) = (r, w1, st1)"
  shows "(r = None \<and> w1 = w \<and> last_report st1 = last_report st \<and> last_report st \<noteq> None \<and>
            connections_since_report st1 = connections_since_report st + 1) \<or>
         (r = Some (connections_since_report st + 1, stats_freeze (w_stats w)) \<and>
            w1 = w\<lparr>w_stats := stats_default\<rparr> \<and> last_report st1 = Some now \<and>
            connections_since_report st1 = 0 \<and>
            (case last_report st of None \<Rightarrow> True | Some u \<Rightarrow> u + REPORT_INTERVAL \<le> now))"
proof -
  have "0 < REPORT_INTERVAL" by (simp add: REPORT_INTERVAL_def from_secs_def)
  with assms show ?thesis
    by (auto simp: accept_turn_def take_stats_def stats_take_eq Let_def split: if_splits option.splits)
qed

text \<open>C37: the accept loop's reports: every accepted connection is counted in exactly one report or
  still pending, also when a failed accept ends the loop; two reports are at least five
  seconds apart, and the first connection is reported at once. The loop ends only by a
  failed accept, with its error.\<close>

theorem reports_count_every_connection:
  assumes "accept_loop as (w, st) = (rs, e, w', st')"
  shows "sum_list (map (\<lambda>(t, n, x). n) rs) + connections_since_report st'
       = connections_since_report st + word_of_nat (length (takeWhile is_ok as)) \<and>
     spaced (last_report st) rs \<and>
     (last_report st = None \<and> as \<noteq> [] \<longrightarrow> (case hd as of Inl _ \<Rightarrow> rs = [] | Inr (now, _) \<Rightarrow> rs \<noteq> [] \<and> fst (hd rs) = now)) \<and>
     (e = None \<longleftrightarrow> list_all is_ok as)"
  using assms
proof (induction as arbitrary: w st rs w' st')
  case Nil
  then show ?case by simp
next
  case (Cons a as)
  show ?case
  proof (cases a)
    case (Inl err)
    with Cons.prems show ?thesis by auto
  next
    case (Inr b)
    obtain now work where a: "a = Ok (now, work)" using Inr by (cases b) simp
    obtain r w1 st1 where t: "accept_turn now (work w, st) = (r, w1, st1)" by (metis surj_pair)
    obtain rs1 e1 w2 st2 where l: "accept_loop as (w1, st1) = (rs1, e1, w2, st2)" by (metis surj_pair)
    have e: "rs = (case r of None \<Rightarrow> rs1 | Some x \<Rightarrow> (now, x) # rs1)" "st' = st2" "e1 = e"
      using Cons.prems a t l by auto
    note ih = Cons.IH [OF l [unfolded e(3)]]
    from accept_turn_cases [OF t] ih e a show ?thesis
      by (elim disjE conjE) (auto simp: ac_simps)
  qed
qed

theorem reports_count_every_connection_witness:
  "\<exists>rs w' st'. accept_loop [Ok (0, id), Ok (1, id), Ok (5000000000, id), Err (IoOs 24)]
       (with_connector 1 (Config_new \<lparr>sa_ip = V4 1, sa_port = 1\<rparr> 9 5) :: unit world, report_init)
         = (rs, Some (IoOs 24), w', st') \<and>
     sum_list (map (\<lambda>(t, n, x). n) rs) + connections_since_report st' = 3 \<and> spaced None rs"
proof -
  let ?l = "accept_loop [Ok (0, id), Ok (1, id), Ok (5000000000, id), Err (IoOs 24)]
       (with_connector 1 (Config_new \<lparr>sa_ip = V4 1, sa_port = 1\<rparr> 9 5) :: unit world, report_init)"
  obtain rs e w' st' where l: "?l = (rs, e, w', st')" by (metis surj_pair)
  moreover from l have "e = Some (IoOs 24)" by (simp split: prod.splits)
  ultimately show ?thesis using reports_count_every_connection [OF l] by (simp add: report_init_def)
qed

end
