(* ===== verification/Spec2Isabelle.thy ===== *)
theory Spec2Isabelle
  imports Server_Spec Server_Termination Server_Unblocking Server_Tests Client_Tests Binaries
begin

text \<open>
  A model of the Rust crate \<^verbatim>\<open>domain-fronting\<close> and the theorems that make it correct.

  \<^bold>\<open>The program.\<close> The crate tunnels a TCP connection through HTTP requests. A client
  (\<^verbatim>\<open>src/client.rs\<close>) resolves and connects to a front (\<^verbatim>\<open>src/lib.rs\<close>, \<^verbatim>\<open>src/dns.rs\<close>), over TLS
  with the name of the front as SNI (\<^verbatim>\<open>src/tls_stream.rs\<close>), and sends HTTP requests whose
  \<^verbatim>\<open>Host\<close> is the proxy: one \<^verbatim>\<open>POST\<close> and then \<^verbatim>\<open>PATCH\<close>es carry the outgoing bytes
  (\<^verbatim>\<open>pump_outgoing\<close>), repeated \<^verbatim>\<open>GET\<close>s fetch the incoming ones (\<^verbatim>\<open>pump_incoming\<close>). The server
  (\<^verbatim>\<open>src/server.rs\<close>) keeps one actor per session ID; the actor owns the connection to the
  upstream, an idle and a total timeout, and hands the read half to at most one response
  stream at a time. Three programs under \<^verbatim>\<open>src/bin\<close> put the parts together.

  \<^bold>\<open>How the code is modelled.\<close> Asynchronous functions are cut at their awaits. The server is
  a record \<open>world\<close> of tables (\<open>Server_State\<close>): what \<^verbatim>\<open>Arc\<close>, \<^verbatim>\<open>Mutex\<close> and actor references share
  is shared there by numbers. Each handler, timer, stream poll and \<^verbatim>\<open>drop\<close> of the source is a
  function on it (\<open>Server_Session\<close>, \<open>Server_Requests\<close>). Two readings are built from these
  functions: \<open>exec\<close> (\<open>Server_System\<close>), in which a free scheduler interleaves all tasks, and
  \<open>handle_request\<close>, in which only the session a request talks to runs while the request
  waits. Errors are values of sum types; counters and sizes are 64-bit words.

  \<^bold>\<open>The theories.\<close>

  \<^item> \<open>Prelude\<close>, \<open>Http_Model\<close>, \<open>Plain_Http\<close>: results, polls and errors; the HTTP and UUID libraries
    as a record of functions with the law the code relies on (\<open>session_header_law\<close>), and a
    concrete instance of it for witnesses.
  \<^item> \<open>Domain_Fronting\<close>: \<^verbatim>\<open>DomainFronting\<close> and \<^verbatim>\<open>proxy_config\<close> of \<^verbatim>\<open>lib.rs\<close>, \<^verbatim>\<open>dns.rs\<close>.
  \<^item> \<open>Server_State\<close>, \<open>Server_Session\<close>, \<open>Server_Requests\<close>: the data and the operations of
    \<^verbatim>\<open>server.rs\<close>: \<^verbatim>\<open>on_start\<close>, the handlers of \<^verbatim>\<open>SessionRead\<close>, \<^verbatim>\<open>SessionWrite\<close> and
    \<^verbatim>\<open>SessionResetIdleTimeout\<close>, \<^verbatim>\<open>actor_timeout\<close>, the \<^verbatim>\<open>unfold\<close> closure of the response stream,
    \<^verbatim>\<open>Drop\<close>, \<^verbatim>\<open>handle_request\<close> and what it calls, \<^verbatim>\<open>take_stats\<close>.
  \<^item> \<open>Server_Sequential\<close>, \<open>Upstream_Traffic\<close>, \<open>Test_Doubles\<close>, \<open>Server_Correct\<close>: requests served
    one at a time: status codes, what reaches the upstream, which requests open sessions,
    what happens when the upstream fails. The locale \<open>upstream_traffic\<close> is the interface to
    an upstream connection, and every connector satisfies it once its traffic is recorded.
  \<^item> \<open>Server_Spec\<close>: the abstract specification, a table of tunnels, and the proof that
    \<open>handle_request\<close> implements it on every branch (locale \<open>refines\<close>).
  \<^item> \<open>Event_Systems\<close>, \<open>Server_System\<close>, \<open>Server_Invariant\<close>, \<open>Server_Events\<close>, \<open>Server_Deadlines\<close>,
    \<open>Server_Stats\<close>, \<open>Server_Safety\<close>: the concurrent server. The invariant \<open>server_wf\<close> is kept by
    each of the fifteen kinds of events; on it rest the single reader, the silence of
    dropped sessions, the bounds of both timeouts, the causes a session can end by and the
    exactness of the counters. The locales \<open>preserved\<close>, \<open>until\<close>, \<open>observed\<close> and \<open>amortised\<close>
    carry facts about single events over to runs.
  \<^item> \<open>Server_Streams\<close>: the bytes read from an upstream leave in response bodies, in order and
    once, in every run, and are lost only with a body that is dropped. \<open>Server_Uploads\<close>: the bytes
    of request bodies reach the mailbox and the upstream in order and once, in every run, and
    a body that breaks off is not acknowledged. \<open>Server_Refinement\<close>: \<open>handle_request\<close> is one
    of the schedules of \<open>exec\<close>, which shows that the two readings agree. \<open>Server_Progress\<close>:
    messages and replies fit, and a session that runs can answer every request that waits
    for it. \<open>Server_Unblocking\<close>: a session that hangs is ended by its total timeout, and then
    every request that waits for it is answered. \<open>Server_Isolation\<close>: sessions do not mix. \<open>Server_Termination\<close>: the work of the server
    is bounded by a budget that only requests and polls raise.
  \<^item> \<open>Client_Requests\<close>, \<open>Client_Pumps\<close>: the request builders and the two pumps, over any HTTP
    connection. \<open>Tls_Stream\<close>, \<open>Client_Connection\<close>, \<open>Client_Correct\<close>: the ways to open a
    \<^verbatim>\<open>ProxyConnection\<close>, and polling through it in each state of its background task.
  \<^item> \<open>Tunnel\<close>, \<open>Download\<close>: client and server together. The locales \<open>write_service\<close> and
    \<open>read_service\<close> are the interfaces between a pump and what answers it, and the server is
    an instance of both; the end-to-end theorems of both directions follow. The connections of
    \<open>Download\<close> may lose a request, a response or any final part of a body (\<open>delivery\<close>), and
    the theorem says what is lost and that the client learns of it.
  \<^item> \<open>Client_Echo\<close>: the echo server of the client's tests, clients and server together, with a
    free scheduler; each client hears the beginning of what it wrote, and can be given the rest.
  \<^item> \<open>Server_Tests\<close>, \<open>Client_Tests\<close>: the tests of \<^verbatim>\<open>server.rs\<close> and \<^verbatim>\<open>client.rs\<close> as functions on the
    model, and the proofs that they pass: timeouts and counters on the schedule of the test
    runtime, and scripts of writes and reads on a schedule in which each task works until it
    waits (an instance of \<open>write_service\<close>).
  \<^item> \<open>Binaries\<close>: \<^verbatim>\<open>main\<close> of the three programs, the loading of the server's certificate and
    the accept loop of the server program.

  \<^bold>\<open>Bounds and fuel.\<close> \<open>pump_incoming\<close> does not end by itself; its fuel is the number of turns
  looked at, every statement is for all of them, and \<open>None\<close> means that the pump still runs.
  \<open>drain\<close> polls a response stream; its fuel is the number of polls after which the HTTP
  connection breaks, so running out of it is a behaviour of the network; in \<open>Client_Tests\<close> it
  exceeds the bytes a script writes, so that no response breaks off. \<open>run_actor\<close> has a
  termination proof (the work in a mailbox decreases). The capacity of a mailbox is fixed by
  the actor library and is a parameter, positive where it matters.

  \<^bold>\<open>What is a parameter.\<close> Everything outside the repository: the HTTP and UUID libraries, name
  resolution, TCP and TLS connections, files and PEM parsing, the channel adapters of
  \<^verbatim>\<open>tokio-util\<close>, the \<^verbatim>\<open>tokio\<close> operations on a whole connection, and the upstream connector, whose
  state may hold the whole future behaviour of the peer. The runtime and the actor library are the free scheduler of \<open>exec\<close> together with the tables of sleeping
  tasks, mailboxes, read locks and reply slots; \<^verbatim>\<open>kill\<close> and \<^verbatim>\<open>ctx.stop\<close> close a mailbox and
  discard what is in it.

  \<^bold>\<open>What is not modelled.\<close> A \<^verbatim>\<open>write_all\<close> to the upstream takes effect in one step, when it
  ends or when a timeout kills its session in the middle of it (\<open>timer_fire_in_write\<close>); that
  the peer sees the first bytes of a write before its end is not modelled. A connection attempt
  or a write that never ends is a session that the scheduler never runs again. \<open>Client_Echo\<close>
  and \<open>Client_Tests\<close> have no timeouts and no breaking connections. Logging,
  \<^verbatim>\<open>Debug\<close> output, argument parsing and the conversion of floating-point durations are left
  out. In the tests, a \<open>yield\<close> lets every
  session work until it waits, the in-memory transport of the client's tests is the direct
  call of the server, and their deadline in real time is not looked at.
\<close>

end
